(* ===== verification/Go_Prelude.thy ===== *)
theory Go_Prelude
  imports Main "HOL-Library.AList" "HOL-Library.Word" "HOL-Library.List_Lexorder"
    "HOL-Library.Char_ord" "HOL-Library.Sublist"
begin

text \<open>
  The part of Go and of its standard library that the modelled packages share.

  \<^item> A Go \<^verbatim>\<open>string\<close> is a sequence of bytes and so is the HOL type \<^typ>\<open>string\<close>; its
    order (\<open>List_Lexorder\<close> over \<open>Char_ord\<close>) is Go's byte-wise order.
  \<^item> A Go map that the code ranges over is an association list with distinct keys. The
    order of the list stands for the (unspecified) order in which \<^verbatim>\<open>range\<close> visits the
    entries: a theorem that holds for every such list holds for every visiting order.
    A map that is only looked up and updated is a HOL map.
  \<^item> An operation that may fail has a value of type \<open>outcome\<close>: a result, an error return,
    a run-time panic, or blocking forever.
  \<^item> A buffered channel is its buffer, its capacity and its closed flag.
  \<^item> Times and durations are integers (nanoseconds). A reading of the clock is an argument
    of the operation that takes it.
\<close>

named_theorems go_simps \<open>unfolding of the shared Go operations\<close>
named_theorems go_outcome \<open>case analysis on outcomes\<close>

subsection \<open>Machine integers and results\<close>

type_synonym u8 = "8 word"
type_synonym u32 = "32 word"
type_synonym u64 = "64 word"
type_synonym time = int
type_synonym duration = int

datatype (dead 'e, 'a) outcome = Ok 'a | Err 'e | Panic | Blocks

lemmas outcome_splits [go_outcome] = outcome.splits

definition is_ok :: "('e, 'a) outcome \<Rightarrow> bool" where
  "is_ok r = (case r of Ok _ \<Rightarrow> True | _ \<Rightarrow> False)"

lemma is_ok_simps [simp]:
  "is_ok (Ok x)" "\<not> is_ok (Err e)" "\<not> is_ok Panic" "\<not> is_ok Blocks"
  by (simp_all add: is_ok_def)

text \<open>Go's integer division truncates towards zero.\<close>

definition go_div :: "int \<Rightarrow> int \<Rightarrow> int" where
  "go_div a b = sgn a * sgn b * (\<bar>a\<bar> div \<bar>b\<bar>)"

lemma go_div_nonneg [simp]: "0 \<le> a \<Longrightarrow> 0 < b \<Longrightarrow> go_div a b = a div b"
  by (cases "a = 0") (simp_all add: go_div_def)

text \<open>Addition on Go's 64-bit signed \<^verbatim>\<open>int\<close> wraps around.\<close>

definition add64 :: "int \<Rightarrow> int \<Rightarrow> int" where
  "add64 a b = signed_take_bit 63 (a + b)"

lemma of_int_add64 [simp]: "(of_int (add64 a b) :: u64) = of_int a + of_int b"
proof -
  have "(of_int (signed_take_bit 63 (a + b)) :: u64) = of_int (a + b)"
  proof (rule bit_word_eqI)
    fix n
    assume "n < LENGTH(64)"
    then have "min n 63 = n" by simp
    then show "bit (of_int (signed_take_bit 63 (a + b)) :: u64) n = bit (of_int (a + b) :: u64) n"
      by (simp add: bit_word_of_int_iff bit_signed_take_bit_iff min.commute del: of_int_add)
  qed
  then show ?thesis by (simp add: add64_def)
qed

text \<open>The product of two 64-bit durations wraps around.\<close>

definition mul64 :: "int \<Rightarrow> int \<Rightarrow> int" where
  "mul64 a b = signed_take_bit 63 (a * b)"

subsection \<open>Maps that are ranged over\<close>

type_synonym ('k, 'v) gomap = "('k \<times> 'v) list"

abbreviation gm_wf :: "('k, 'v) gomap \<Rightarrow> bool" where
  "gm_wf m \<equiv> distinct (map fst m)"

abbreviation gm_put :: "'k \<Rightarrow> 'v \<Rightarrow> ('k, 'v) gomap \<Rightarrow> ('k, 'v) gomap" where
  "gm_put \<equiv> AList.update"

abbreviation gm_del :: "'k \<Rightarrow> ('k, 'v) gomap \<Rightarrow> ('k, 'v) gomap" where
  "gm_del \<equiv> AList.delete"

lemma map_of_put [simp]: "map_of (gm_put k v m) = (map_of m)(k \<mapsto> v)"
  by (simp add: update_conv')

lemma map_of_del [simp]: "map_of (gm_del k m) = (map_of m)(k := None)"
  by (simp add: delete_conv')

lemma set_del: "set (gm_del k m) = {x \<in> set m. fst x \<noteq> k}"
  by (induction m) auto

lemma set_put: "gm_wf m \<Longrightarrow> set (gm_put k v m) = insert (k, v) {x \<in> set m. fst x \<noteq> k}"
  by (induction m) (auto simp: image_iff)

lemma gm_wf_put [intro]: "gm_wf m \<Longrightarrow> gm_wf (gm_put k v m)"
  by (rule distinct_update)

lemma gm_wf_del [intro]: "gm_wf m \<Longrightarrow> gm_wf (gm_del k m)"
  by (rule distinct_delete)

lemma keys_put [simp]: "fst ` set (gm_put k v m) = insert k (fst ` set m)"
  by (simp add: dom_update)

lemma keys_del [simp]: "fst ` set (gm_del k m) = fst ` set m - {k}"
  by (auto simp: AList.delete_eq)

lemma length_put:
  "length (gm_put k v m) = (if k \<in> fst ` set m then length m else Suc (length m))"
  by (induction m) auto

lemma length_del:
  "gm_wf m \<Longrightarrow> length (gm_del k m) = (if k \<in> fst ` set m then length m - 1 else length m)"
proof (induction m)
  case Nil
  then show ?case by simp
next
  case (Cons p m)
  have "k \<in> fst ` set m \<Longrightarrow> length m \<noteq> 0" by auto
  moreover have "k \<notin> fst ` set m \<Longrightarrow> gm_del k m = m"
    by (simp add: delete_idem)
  ultimately show ?case using Cons by (cases p) (auto simp: image_iff)
qed

text \<open>The last elements of a list.\<close>

definition last_n :: "nat \<Rightarrow> 'a list \<Rightarrow> 'a list" where
  "last_n n xs = drop (length xs - n) xs"

lemma last_n_snoc: "0 < n \<Longrightarrow> last_n n (xs @ [x]) = (if n \<le> length xs then tl (last_n n xs) else xs) @ [x]"
  by (auto simp: last_n_def tl_drop drop_Suc [symmetric] Suc_diff_le)

lemma length_last_n [simp]: "length (last_n n xs) = min n (length xs)"
  by (simp add: last_n_def)

subsection \<open>Decimal printing: \<^verbatim>\<open>strconv.Itoa\<close> and \<^verbatim>\<open>%d\<close>\<close>

definition digit_char :: "nat \<Rightarrow> char" where
  "digit_char d = char_of (48 + d)"

fun nat_digits :: "nat \<Rightarrow> string" where
  "nat_digits n =
     (if n < 10 then [digit_char n] else nat_digits (n div 10) @ [digit_char (n mod 10)])"

declare nat_digits.simps [simp del]

definition itoa :: "int \<Rightarrow> string" where
  "itoa i = (if i < 0 then CHR ''-'' # nat_digits (nat (- i)) else nat_digits (nat i))"

definition digits_value :: "string \<Rightarrow> nat" where
  "digits_value s = foldl (\<lambda>a c. 10 * a + (of_char c - 48)) 0 s"

lemma of_digit_char [simp]: "d < 10 \<Longrightarrow> of_char (digit_char d) = 48 + d"
  by (simp add: digit_char_def)

lemma digits_value_digits [simp]: "digits_value (nat_digits n) = n"
proof (induction n rule: nat_digits.induct)
  case (1 n)
  show ?case
  proof (cases "n < 10")
    case True
    then show ?thesis by (simp add: nat_digits.simps [of n] digits_value_def)
  next
    case False
    with 1 have "digits_value (nat_digits (n div 10)) = n div 10" by simp
    with False show ?thesis by (simp add: nat_digits.simps [of n] digits_value_def)
  qed
qed

lemma nat_digits_inj: "nat_digits m = nat_digits n \<Longrightarrow> m = n"
  by (metis digits_value_digits)

lemma nat_digits_chars: "c \<in> set (nat_digits n) \<Longrightarrow> 48 \<le> (of_char c :: nat) \<and> (of_char c :: nat) \<le> 57"
proof (induction n rule: nat_digits.induct)
  case (1 n)
  then show ?case
    by (cases "n < 10") (auto simp: nat_digits.simps [of n])
qed

lemma nat_digits_nonempty [simp]: "nat_digits n \<noteq> []"
  by (subst nat_digits.simps) simp

lemma minus_notin_digits: "CHR ''-'' \<notin> set (nat_digits n)"
  using nat_digits_chars [of "CHR ''-''" n] by auto

lemma itoa_inj: "itoa i = itoa j \<Longrightarrow> i = j"
proof -
  assume eq: "itoa i = itoa j"
  have "CHR ''-'' # xs \<noteq> nat_digits k" for xs k
    by (metis list.set_intros(1) minus_notin_digits)
  with eq show ?thesis
    by (auto simp: itoa_def split: if_splits dest!: nat_digits_inj) metis+
qed

lemma colon_notin_itoa [simp]: "CHR '':'' \<notin> set (itoa i)"
  using nat_digits_chars [of "CHR '':''"] by (auto simp: itoa_def)

text \<open>Fields joined by a separator, and that the fields can be read back when they do not contain it.\<close>

fun join_with :: "char \<Rightarrow> string list \<Rightarrow> string" where
  "join_with c [] = []"
| "join_with c [d] = d"
| "join_with c (d # e # ds) = d @ c # join_with c (e # ds)"

lemma sep_append_inject:
  assumes "a @ c # x = b @ c # y" and "c \<notin> set a" and "c \<notin> set b"
  shows "a = b \<and> x = y"
  using assms
proof (induction a arbitrary: b)
  case Nil
  then show ?case by (cases b) auto
next
  case (Cons d a)
  then show ?case by (cases b) auto
qed

lemma join_with_inject:
  assumes "join_with c xs = join_with c ys" and "length xs = length ys"
    and "\<forall>d\<in>set xs \<union> set ys. c \<notin> set d"
  shows "xs = ys"
  using assms
proof (induction c xs arbitrary: ys rule: join_with.induct)
  case (2 c d)
  then show ?case by (cases ys) auto
next
  case (3 c d e ds)
  from "3.prems"(2) obtain d' e' ds' where ys: "ys = d' # e' # ds'" by (cases ys; cases "tl ys") auto
  with "3.prems" sep_append_inject [of d c "join_with c (e # ds)" d' "join_with c (e' # ds')"]
  have "d = d'" "join_with c (e # ds) = join_with c (e' # ds')" by auto
  with "3.IH" [of "e' # ds'"] "3.prems" ys show ?case by simp
qed simp

lemma map_join_with: "map f (join_with c xs) = join_with (f c) (map (map f) xs)"
  by (induction c xs rule: join_with.induct) simp_all

text \<open>
  Two strings that end in a separator followed by separator-free text agree only when both
  parts agree: the key formats \<^verbatim>\<open>"...:%s:%d"\<close> of the code are unambiguous.
\<close>

lemma append_sep_inject:
  assumes "a @ c # x = b @ c # y" and "c \<notin> set x" and "c \<notin> set y"
  shows "a = b \<and> x = y"
  using assms
proof (induction a arbitrary: b)
  case Nil
  then show ?case by (cases b) auto
next
  case (Cons d a)
  then show ?case by (cases b) auto
qed

text \<open>\<^verbatim>\<open>strings.Split\<close> at one character, \<^verbatim>\<open>strings.HasPrefix\<close>, \<^verbatim>\<open>strings.Contains\<close> and \<^verbatim>\<open>strconv.ParseInt(s, 10, 64)\<close>.\<close>

fun split_on :: "char \<Rightarrow> string \<Rightarrow> string list" where
  "split_on c [] = [[]]"
| "split_on c (d # ds) =
     (if d = c then [] # split_on c ds
      else case split_on c ds of [] \<Rightarrow> [[d]] | p # ps \<Rightarrow> (d # p) # ps)"

definition has_prefix :: "string \<Rightarrow> string \<Rightarrow> bool" where
  "has_prefix s p \<longleftrightarrow> take (length p) s = p"

fun contains :: "string \<Rightarrow> string \<Rightarrow> bool" where
  "contains [] p \<longleftrightarrow> p = []"
| "contains (c # s) p \<longleftrightarrow> has_prefix (c # s) p \<or> contains s p"

definition all_digits :: "string \<Rightarrow> bool" where
  "all_digits s \<longleftrightarrow> s \<noteq> [] \<and> (\<forall>c \<in> set s. 48 \<le> (of_char c :: nat) \<and> (of_char c :: nat) \<le> 57)"

definition parse_int64 :: "string \<Rightarrow> int option" where
  "parse_int64 s =
     (let (neg, t) = (case s of c # t \<Rightarrow> if c = CHR ''-'' then (True, t) else if c = CHR ''+'' then (False, t) else (False, s)
                      | [] \<Rightarrow> (False, s));
          v = (if neg then - int (digits_value t) else int (digits_value t))
      in if all_digits t \<and> - (2 ^ 63) \<le> v \<and> v < 2 ^ 63 then Some v else None)"

lemma split_on_nonempty [simp]: "split_on c s \<noteq> []"
  by (induction s) (auto split: list.splits)

lemma split_on_free: "c \<notin> set a \<Longrightarrow> split_on c a = [a]"
  by (induction a) auto

lemma split_on_append: "c \<notin> set a \<Longrightarrow> split_on c (a @ c # b) = a # split_on c b"
  by (induction a) auto

lemma has_prefix_append [simp]: "has_prefix (p @ s) p"
  by (simp add: has_prefix_def)

lemma has_prefixD: "has_prefix s p \<Longrightarrow> s = p @ drop (length p) s"
  by (metis append_take_drop_id has_prefix_def)

lemma all_digits_nat [simp]: "all_digits (nat_digits n)"
  using nat_digits_chars by (auto simp: all_digits_def)

lemma nat_digits_hd: "nat_digits n = c # t \<Longrightarrow> c \<noteq> CHR ''-'' \<and> c \<noteq> CHR ''+''"
  using nat_digits_chars [of c n] by auto

lemma parse_int64_itoa [simp]:
  assumes "- (2 ^ 63) \<le> i" and "i < 2 ^ 63"
  shows "parse_int64 (itoa i) = Some i"
proof (cases "i < 0")
  case True
  then show ?thesis using assms by (simp add: parse_int64_def itoa_def)
next
  case False
  obtain c t where "nat_digits (nat i) = c # t" by (cases "nat_digits (nat i)") auto
  then show ?thesis
    using False assms nat_digits_hd [of "nat i" c t] digits_value_digits [of "nat i"] all_digits_nat [of "nat i"]
    by (simp add: parse_int64_def itoa_def del: digits_value_digits all_digits_nat)
qed

subsection \<open>Binary search: \<^verbatim>\<open>sort.Search\<close>\<close>

function go_search_loop :: "(nat \<Rightarrow> bool) \<Rightarrow> nat \<Rightarrow> nat \<Rightarrow> nat" where
  "go_search_loop f i j =
     (if i < j then
        (let h = (i + j) div 2
         in if \<not> f h then go_search_loop f (h + 1) j else go_search_loop f i h)
      else i)"
  by pat_completeness auto
termination
  by (relation "measure (\<lambda>(f, i, j). j - i)") auto

declare go_search_loop.simps [simp del]

definition go_search :: "nat \<Rightarrow> (nat \<Rightarrow> bool) \<Rightarrow> nat" where
  "go_search n f = go_search_loop f 0 n"

definition stays_true :: "nat \<Rightarrow> (nat \<Rightarrow> bool) \<Rightarrow> bool" where
  "stays_true n f \<longleftrightarrow> (\<forall>a b. a \<le> b \<longrightarrow> b < n \<longrightarrow> f a \<longrightarrow> f b)"

lemma go_search_loop_least:
  assumes "stays_true n f" and "i \<le> j" and "j \<le> n"
    and "\<forall>k<i. \<not> f k" and "\<forall>k. j \<le> k \<longrightarrow> k < n \<longrightarrow> f k"
  shows "go_search_loop f i j \<le> n \<and> (\<forall>k<go_search_loop f i j. \<not> f k)
    \<and> (go_search_loop f i j < n \<longrightarrow> f (go_search_loop f i j))"
  using assms
proof (induction f i j rule: go_search_loop.induct)
  case (1 f i j)
  show ?case
  proof (cases "i < j")
    case False
    then have "go_search_loop f i j = i" by (simp add: go_search_loop.simps [of f i j])
    with False "1.prems" show ?thesis by auto
  next
    case True
    define h where "h = (i + j) div 2"
    have h: "i \<le> h" "h < j" using True by (auto simp: h_def)
    show ?thesis
    proof (cases "f h")
      case False
      have "\<not> f k" if "k < h + 1" for k
      proof -
        from that h "1.prems"(3) have "k \<le> h" "h < n" by auto
        with False "1.prems"(1) show ?thesis unfolding stays_true_def by blast
      qed
      with "1.IH"(1) [OF True h_def False] "1.prems" h True False
      show ?thesis by (simp add: go_search_loop.simps [of f i j] h_def [symmetric] Let_def)
    next
      case fh: True
      have "f k" if "h \<le> k" "k < n" for k
        using fh "1.prems"(1) that by (auto simp: stays_true_def)
      with "1.IH"(2) [OF True h_def] "1.prems" h True fh
      show ?thesis by (simp add: go_search_loop.simps [of f i j] h_def [symmetric] Let_def)
    qed
  qed
qed

lemma stays_true_sorted: "sorted xs \<Longrightarrow> stays_true (length xs) (\<lambda>i. h \<le> xs ! i)"
  by (auto simp: stays_true_def intro: order_trans sorted_nth_mono)

text \<open>
  What a caller of \<^verbatim>\<open>sort.Search\<close> relies on: for a predicate that stays true once true, the
  result is the least index that satisfies it, or the length. The derived facts are the
  successor lookup in a sorted list that the hash ring performs.
\<close>

locale search_contract =
  fixes search :: "nat \<Rightarrow> (nat \<Rightarrow> bool) \<Rightarrow> nat"
  assumes search_le: "stays_true n f \<Longrightarrow> search n f \<le> n"
    and search_before: "stays_true n f \<Longrightarrow> k < search n f \<Longrightarrow> \<not> f k"
    and search_hit: "stays_true n f \<Longrightarrow> search n f < n \<Longrightarrow> f (search n f)"
begin

lemma succ_index_le: "sorted xs \<Longrightarrow> search (length xs) (\<lambda>i. h \<le> xs ! i) \<le> length xs"
  by (rule search_le) (rule stays_true_sorted)

lemma succ_index_Min:
  assumes "sorted xs" and "search (length xs) (\<lambda>i. h \<le> xs ! i) < length xs" (is "?r < _")
  shows "xs ! search (length xs) (\<lambda>i. h \<le> xs ! i) = Min {x \<in> set xs. h \<le> x}"
proof (rule sym, rule Min_eqI)
  note st = stays_true_sorted [OF assms(1), of h]
  show "finite {x \<in> set xs. h \<le> x}" by simp
  from search_hit [OF st assms(2)] assms(2) show "xs ! ?r \<in> {x \<in> set xs. h \<le> x}" by simp
  fix y
  assume "y \<in> {x \<in> set xs. h \<le> x}"
  then obtain j where j: "j < length xs" "y = xs ! j" "h \<le> xs ! j"
    by (auto simp: in_set_conv_nth)
  have "\<not> j < ?r"
    using search_before [OF st] j(3) by blast
  then show "xs ! ?r \<le> y"
    using assms(1) j by (simp add: sorted_nth_mono)
qed

lemma succ_index_none:
  assumes "sorted xs" and "search (length xs) (\<lambda>i. h \<le> xs ! i) = length xs"
  shows "\<forall>x\<in>set xs. x < h"
proof
  fix x assume "x \<in> set xs"
  then obtain j where "j < length xs" "x = xs ! j"
    by (auto simp: in_set_conv_nth)
  with assms(2) have "\<not> h \<le> x"
    using search_before [OF stays_true_sorted [OF assms(1)], of j h] by simp
  then show "x < h" by simp
qed

end

interpretation go_sort: search_contract go_search
proof unfold_locales
  fix n k :: nat and f :: "nat \<Rightarrow> bool"
  assume mono: "stays_true n f"
  have *: "go_search n f \<le> n \<and> (\<forall>k<go_search n f. \<not> f k) \<and> (go_search n f < n \<longrightarrow> f (go_search n f))"
    unfolding go_search_def by (rule go_search_loop_least [OF mono]) auto
  from * show "go_search n f \<le> n" by blast
  from * show "k < go_search n f \<Longrightarrow> \<not> f k" by blast
  from * show "go_search n f < n \<Longrightarrow> f (go_search n f)" by blast
qed

subsection \<open>Buffered channels\<close>

record 'a chan =
  ch_buf :: "'a list"
  ch_cap :: nat
  ch_closed :: bool

definition chan_make :: "nat \<Rightarrow> 'a chan" where
  "chan_make n = \<lparr>ch_buf = [], ch_cap = n, ch_closed = False\<rparr>"

text \<open>A blocking send panics on a closed channel and waits while the buffer is full.\<close>

definition chan_send :: "'a \<Rightarrow> 'a chan \<Rightarrow> ('e, 'a chan) outcome" where
  "chan_send x c =
     (if ch_closed c then Panic
      else if length (ch_buf c) < ch_cap c then Ok (c\<lparr>ch_buf := ch_buf c @ [x]\<rparr>)
      else Blocks)"

text \<open>A send in a \<^verbatim>\<open>select\<close> with a \<^verbatim>\<open>default\<close> branch drops the value instead of waiting.\<close>

definition chan_try_send :: "'a \<Rightarrow> 'a chan \<Rightarrow> ('e, 'a chan) outcome" where
  "chan_try_send x c =
     (if ch_closed c then Panic
      else if length (ch_buf c) < ch_cap c then Ok (c\<lparr>ch_buf := ch_buf c @ [x]\<rparr>)
      else Ok c)"

definition chan_wf :: "'a chan \<Rightarrow> bool" where
  "chan_wf c \<longleftrightarrow> length (ch_buf c) \<le> ch_cap c"

lemma chan_wf_make [simp]: "chan_wf (chan_make n)"
  by (simp add: chan_wf_def chan_make_def)

lemma chan_send_wf: "chan_send x c = Ok c' \<Longrightarrow> chan_wf c'"
  by (auto simp: chan_send_def chan_wf_def split: if_splits)

lemma chan_try_send_wf: "chan_try_send x c = Ok c' \<Longrightarrow> chan_wf c \<Longrightarrow> chan_wf c'"
  by (auto simp: chan_try_send_def chan_wf_def split: if_splits)

lemma chan_send_buf: "chan_send x c = Ok c' \<Longrightarrow> ch_buf c' = ch_buf c @ [x]"
  by (auto simp: chan_send_def split: if_splits)

subsection \<open>Read-write locks\<close>

text \<open>
  The state of a \<^verbatim>\<open>sync.RWMutex\<close> that an operation finds. A lock is not reentrant: acquiring it
  for writing waits until it is free, whoever holds it.
\<close>

datatype rwmutex = Unlocked | Reading nat | Writing

definition rw_lock :: "rwmutex \<Rightarrow> (unit, rwmutex) outcome" where
  "rw_lock m = (case m of Unlocked \<Rightarrow> Ok Writing | _ \<Rightarrow> Blocks)"

definition rw_rlock :: "rwmutex \<Rightarrow> (unit, rwmutex) outcome" where
  "rw_rlock m = (case m of Unlocked \<Rightarrow> Ok (Reading 1) | Reading n \<Rightarrow> Ok (Reading (n + 1)) | Writing \<Rightarrow> Blocks)"

definition rw_unlock :: "rwmutex \<Rightarrow> rwmutex" where
  "rw_unlock m = (case m of Reading (Suc (Suc n)) \<Rightarrow> Reading (Suc n) | _ \<Rightarrow> Unlocked)"

lemma rw_simps [simp]:
  "rw_lock Unlocked = Ok Writing" "rw_lock Writing = Blocks" "rw_lock (Reading n) = Blocks"
  "rw_rlock Unlocked = Ok (Reading 1)" "rw_rlock Writing = Blocks" "rw_unlock Writing = Unlocked"
  by (simp_all add: rw_lock_def rw_rlock_def rw_unlock_def)

end
