(* ===== verification/Consistent_Hash.thy ===== *)
theory Consistent_Hash
  imports Go_Prelude
begin

text \<open>
  The consistent-hash ring of \<^verbatim>\<open>pkg/hash/consistent_hash.go\<close>: the ring record, its
  operations, the ring invariant and what a lookup returns. The hash function is a field of
  the ring, as in the code; the default is the standard library's CRC-32. The walk of
  \<^verbatim>\<open>GetN\<close> is a loop that may not end, so its model has an optional result: \<^term>\<open>None\<close> is a
  walk that never returns.
\<close>

unbundle bit_operations_syntax

subsection \<open>The ring and its operations\<close>

record conhash =
  hashFunc :: "string \<Rightarrow> u32"
  replicas :: int
  hashRing :: "u32 list"
  nodeMap :: "u32 \<rightharpoonup> string"
  nodes :: "string list"

datatype hash_error = EmptyRing | NotEnoughNodes int int

text \<open>\<^verbatim>\<open>crc32.ChecksumIEEE\<close>, bit by bit (reflected polynomial \<open>0xEDB88320\<close>).\<close>

definition crc32_bit :: "u32 \<Rightarrow> u32" where
  "crc32_bit c = (if c AND 1 = 1 then drop_bit 1 c XOR 0xEDB88320 else drop_bit 1 c)"

definition crc32_byte :: "u32 \<Rightarrow> char \<Rightarrow> u32" where
  "crc32_byte c b = (crc32_bit ^^ 8) (c XOR of_nat (of_char b))"

definition crc32_ChecksumIEEE :: "string \<Rightarrow> u32" where
  "crc32_ChecksumIEEE s = NOT (foldl crc32_byte (NOT 0) s)"

definition NewConsistentHash :: "int \<Rightarrow> (string \<Rightarrow> u32) option \<Rightarrow> conhash" where
  "NewConsistentHash r fn =
     \<lparr>hashFunc = (case fn of None \<Rightarrow> crc32_ChecksumIEEE | Some f \<Rightarrow> f),
      replicas = r, hashRing = [], nodeMap = Map.empty, nodes = []\<rparr>"

text \<open>The body of the virtual-node loop, for one value of the loop counter.\<close>

definition add_virtual :: "string \<Rightarrow> conhash \<Rightarrow> nat \<Rightarrow> conhash" where
  "add_virtual node c i =
     (let hash = hashFunc c (itoa (int i) @ node)
      in c\<lparr>hashRing := hashRing c @ [hash], nodeMap := (nodeMap c)(hash \<mapsto> node)\<rparr>)"

fun add_nodes :: "conhash \<Rightarrow> string list \<Rightarrow> conhash" where
  "add_nodes c [] = c"
| "add_nodes c (node # ns) =
     (if node \<in> set (nodes c) then add_nodes c ns
      else add_nodes (foldl (add_virtual node) (c\<lparr>nodes := nodes c @ [node]\<rparr>)
             [0..<nat (replicas c)]) ns)"

definition ConsistentHash_Add :: "conhash \<Rightarrow> string list \<Rightarrow> conhash" where
  "ConsistentHash_Add c ns =
     (let c' = add_nodes c ns in c'\<lparr>hashRing := sort (hashRing c')\<rparr>)"

definition ConsistentHash_Remove :: "conhash \<Rightarrow> string \<Rightarrow> conhash" where
  "ConsistentHash_Remove c node =
     (if node \<notin> set (nodes c) then c
      else
        (let m = foldl (\<lambda>m i. m(hashFunc c (itoa (int i) @ node) := None)) (nodeMap c)
                   [0..<nat (replicas c)]
         in c\<lparr>nodes := remove1 node (nodes c), nodeMap := m,
              hashRing := filter (\<lambda>hash. m hash \<noteq> None) (hashRing c)\<rparr>))"

text \<open>A missing key of a Go map reads as the zero value, here the empty string.\<close>

definition node_at :: "conhash \<Rightarrow> u32 \<Rightarrow> string" where
  "node_at c h = (case nodeMap c h of Some n \<Rightarrow> n | None \<Rightarrow> '''')"

definition start_index :: "conhash \<Rightarrow> string \<Rightarrow> nat" where
  "start_index c key =
     (let hash = hashFunc c key;
          idx = go_search (length (hashRing c)) (\<lambda>i. hash \<le> hashRing c ! i)
      in if idx = length (hashRing c) then 0 else idx)"

definition ConsistentHash_Get :: "conhash \<Rightarrow> string \<Rightarrow> (hash_error, string) outcome" where
  "ConsistentHash_Get c key =
     (if length (hashRing c) = 0 then Err EmptyRing
      else Ok (node_at c (hashRing c ! start_index c key)))"

partial_function (option) getN_loop ::
    "conhash \<Rightarrow> int \<Rightarrow> nat \<Rightarrow> string list \<Rightarrow> string list \<Rightarrow> string list option" where
  "getN_loop c n idx result visited =
     (if int (length result) < n then
        (let node = node_at c (hashRing c ! idx);
             idx' = (idx + 1) mod length (hashRing c)
         in if node \<notin> set visited then getN_loop c n idx' (result @ [node]) (node # visited)
            else getN_loop c n idx' result visited)
      else Some result)"

definition ConsistentHash_GetN ::
    "conhash \<Rightarrow> string \<Rightarrow> int \<Rightarrow> (hash_error, string list) outcome option" where
  "ConsistentHash_GetN c key n =
     (if length (hashRing c) = 0 then Some (Err EmptyRing)
      else if int (length (nodes c)) < n then
        Some (Err (NotEnoughNodes (int (length (nodes c))) n))
      else map_option Ok (getN_loop c n (start_index c key) [] []))"

definition ConsistentHash_GetNodes :: "conhash \<Rightarrow> string list" where
  "ConsistentHash_GetNodes c = nodes c"

definition ConsistentHash_GetNodeCount :: "conhash \<Rightarrow> nat" where
  "ConsistentHash_GetNodeCount c = length (nodes c)"

definition ConsistentHash_GetVirtualNodeCount :: "conhash \<Rightarrow> nat" where
  "ConsistentHash_GetVirtualNodeCount c = length (hashRing c)"

definition ConsistentHash_GetReplicas :: "conhash \<Rightarrow> int" where
  "ConsistentHash_GetReplicas c = replicas c"

definition ConsistentHash_GetDistribution :: "conhash \<Rightarrow> (string \<rightharpoonup> nat)" where
  "ConsistentHash_GetDistribution c =
     foldl (\<lambda>m h. let node = node_at c h
                  in m(node \<mapsto> (case m node of None \<Rightarrow> 0 | Some k \<Rightarrow> k) + 1))
       (foldl (\<lambda>m node. m(node \<mapsto> 0)) Map.empty (nodes c)) (hashRing c)"

definition ConsistentHash_Reset :: "conhash \<Rightarrow> conhash" where
  "ConsistentHash_Reset c = c\<lparr>hashRing := [], nodeMap := Map.empty, nodes := []\<rparr>"

subsection \<open>Virtual nodes\<close>

definition vhashes :: "conhash \<Rightarrow> string \<Rightarrow> u32 list" where
  "vhashes c node = map (\<lambda>i. hashFunc c (itoa (int i) @ node)) [0..<nat (replicas c)]"

lemma add_virtual_fold:
  "foldl (add_virtual node) c is =
     c\<lparr>hashRing := hashRing c @ map (\<lambda>i. hashFunc c (itoa (int i) @ node)) is,
       nodeMap := (\<lambda>h. if h \<in> set (map (\<lambda>i. hashFunc c (itoa (int i) @ node)) is)
                       then Some node else nodeMap c h)\<rparr>"
  by (induction "is" arbitrary: c) (auto simp: add_virtual_def Let_def fun_eq_iff)

lemma add_virtual_vhashes:
  "foldl (add_virtual node) (c\<lparr>nodes := ns\<rparr>) [0..<nat (replicas c)] =
     c\<lparr>nodes := ns, hashRing := hashRing c @ vhashes c node,
       nodeMap := (\<lambda>h. if h \<in> set (vhashes c node) then Some node else nodeMap c h)\<rparr>"
  by (simp add: add_virtual_fold vhashes_def cong: if_cong)

lemma remove_fold:
  "foldl (\<lambda>m i. m(f i := None)) m is h = (if h \<in> f ` set is then None else m h)"
  by (induction "is" arbitrary: m) auto

subsection \<open>The ring invariant\<close>

text \<open>
  The invariant without the order of the ring, which the loop of \<^verbatim>\<open>Add\<close> restores at its
  end, and the full invariant.
\<close>

definition ring_core :: "conhash \<Rightarrow> bool" where
  "ring_core c \<longleftrightarrow> distinct (nodes c) \<and> set (hashRing c) = dom (nodeMap c) \<and>
     (\<forall>h n. nodeMap c h = Some n \<longrightarrow> n \<in> set (nodes c) \<and> h \<in> set (vhashes c n))"

definition ring_inv :: "conhash \<Rightarrow> bool" where
  "ring_inv c \<longleftrightarrow> sorted (hashRing c) \<and> ring_core c"

lemma vhashes_cong [simp]:
  "vhashes (c\<lparr>hashRing := r\<rparr>) = vhashes c" "vhashes (c\<lparr>nodeMap := m\<rparr>) = vhashes c"
  "vhashes (c\<lparr>nodes := ns\<rparr>) = vhashes c"
  by (simp_all add: vhashes_def fun_eq_iff)

lemma ring_core_add_nodes: "ring_core c \<Longrightarrow> ring_core (add_nodes c ns)"
proof (induction c ns rule: add_nodes.induct)
  case (1 c)
  then show ?case by simp
next
  case (2 c node ns)
  show ?case
  proof (cases "node \<in> set (nodes c)")
    case True
    with 2 show ?thesis by simp
  next
    case False
    let ?c = "foldl (add_virtual node) (c\<lparr>nodes := nodes c @ [node]\<rparr>) [0..<nat (replicas c)]"
    have "ring_core ?c"
      using "2.prems" False unfolding add_virtual_vhashes ring_core_def
      by (auto simp: dom_def split: if_splits)
    with False 2 show ?thesis by simp
  qed
qed

lemma ring_inv_new: "ring_inv (NewConsistentHash r fn)"
  by (simp add: ring_inv_def ring_core_def NewConsistentHash_def)

lemma ring_inv_Add: "ring_inv c \<Longrightarrow> ring_inv (ConsistentHash_Add c ns)"
  using ring_core_add_nodes [of c ns]
  by (simp add: ring_inv_def ring_core_def ConsistentHash_Add_def Let_def)

lemma ring_inv_Remove: "ring_inv c \<Longrightarrow> ring_inv (ConsistentHash_Remove c node)"
  by (auto simp: ring_inv_def ring_core_def ConsistentHash_Remove_def Let_def remove_fold
      vhashes_def dom_def sorted_filter split: if_splits intro: sorted_wrt_filter)

lemma ring_inv_Reset: "ring_inv (ConsistentHash_Reset c)"
  by (simp add: ring_inv_def ring_core_def ConsistentHash_Reset_def)

subsection \<open>Successor lookup\<close>

text \<open>
  The reference meaning of a lookup: the least point at or after the key's hash, wrapping
  around to the least point of all.
\<close>

definition ring_succ :: "u32 \<Rightarrow> u32 set \<Rightarrow> u32" where
  "ring_succ h R = (if \<exists>x\<in>R. h \<le> x then Min {x \<in> R. h \<le> x} else Min R)"

lemma ring_succ_in: "finite R \<Longrightarrow> R \<noteq> {} \<Longrightarrow> ring_succ h R \<in> R"
  using Min_in [of "{x \<in> R. h \<le> x}"] by (auto simp: ring_succ_def)

lemma Min_mid: "finite B \<Longrightarrow> A \<subseteq> B \<Longrightarrow> Min B \<in> A \<Longrightarrow> Min A = Min B"
  by (rule Min_eqI) (auto intro: finite_subset)

text \<open>A point that is the successor in a larger ring is the successor in every part of it.\<close>

lemma ring_succ_sub:
  assumes "finite R'" and "R \<subseteq> R'" and "ring_succ h R' \<in> R"
  shows "ring_succ h R = ring_succ h R'"
proof (cases "\<exists>x\<in>R'. h \<le> x")
  case True
  let ?B = "{x \<in> R'. h \<le> x}"
  from True assms(3) have m: "Min ?B \<in> R" by (simp add: ring_succ_def)
  moreover have "Min ?B \<in> ?B" using True assms(1) by (intro Min_in) auto
  ultimately have "h \<le> Min ?B" by simp
  moreover have "Min {x \<in> R. h \<le> x} = Min ?B"
    using assms(1,2) m \<open>h \<le> Min ?B\<close> by (intro Min_mid) auto
  ultimately show ?thesis using True m by (auto simp: ring_succ_def)
next
  case False
  with assms show ?thesis by (auto simp: ring_succ_def intro: Min_mid)
qed

lemma start_index_succ:
  assumes "sorted (hashRing c)" and "hashRing c \<noteq> []"
  shows "start_index c key < length (hashRing c)"
    and "hashRing c ! start_index c key = ring_succ (hashFunc c key) (set (hashRing c))"
proof -
  let ?xs = "hashRing c" and ?h = "hashFunc c key"
  let ?r = "go_search (length ?xs) (\<lambda>i. ?h \<le> ?xs ! i)"
  have le: "?r \<le> length ?xs" using assms(1) by (rule go_sort.succ_index_le)
  have Min_hd: "Min (set ?xs) = ?xs ! 0"
    using assms by (cases ?xs) (auto intro!: Min_eqI)
  show "start_index c key < length ?xs"
    using le assms(2) by (auto simp: start_index_def Let_def)
  show "?xs ! start_index c key = ring_succ ?h (set ?xs)"
  proof (cases "?r = length ?xs")
    case True
    with go_sort.succ_index_none [OF assms(1) True] show ?thesis
      by (auto simp: start_index_def Let_def ring_succ_def Min_hd)
  next
    case False
    with le have lt: "?r < length ?xs" by simp
    have hit: "?h \<le> ?xs ! ?r"
      using go_sort.search_hit [OF stays_true_sorted [OF assms(1)] lt] .
    with lt have "\<exists>x\<in>set ?xs. ?h \<le> x" by (metis nth_mem)
    with False go_sort.succ_index_Min [OF assms(1) lt] show ?thesis
      by (simp add: start_index_def Let_def ring_succ_def)
  qed
qed

lemma Get_succ:
  "sorted (hashRing c) \<Longrightarrow> hashRing c \<noteq> [] \<Longrightarrow>
     ConsistentHash_Get c key = Ok (node_at c (ring_succ (hashFunc c key) (set (hashRing c))))"
  by (simp add: ConsistentHash_Get_def start_index_succ(2))

lemma ring_invD:
  assumes "ring_inv c"
  shows "sorted (hashRing c)" and "distinct (nodes c)"
    and "h \<in> set (hashRing c) \<Longrightarrow> \<exists>n. nodeMap c h = Some n \<and> n \<in> set (nodes c)"
  using assms by (auto simp: ring_inv_def ring_core_def)

lemma node_at_in: "ring_inv c \<Longrightarrow> h \<in> set (hashRing c) \<Longrightarrow> node_at c h \<in> set (nodes c)"
  by (auto simp: node_at_def dest: ring_invD(3))

lemma succ_in_ring: "hashRing c \<noteq> [] \<Longrightarrow> ring_succ h (set (hashRing c)) \<in> set (hashRing c)"
  by (simp add: ring_succ_in)

subsection \<open>Adding and removing a node\<close>

lemma Add_one:
  assumes "n \<notin> set (nodes c)"
  shows "set (hashRing (ConsistentHash_Add c [n])) = set (hashRing c) \<union> set (vhashes c n)"
    and "nodeMap (ConsistentHash_Add c [n]) =
           (\<lambda>h. if h \<in> set (vhashes c n) then Some n else nodeMap c h)"
    and "hashFunc (ConsistentHash_Add c [n]) = hashFunc c"
    and "nodes (ConsistentHash_Add c [n]) = nodes c @ [n]"
  using assms by (simp_all add: ConsistentHash_Add_def add_virtual_vhashes Let_def)

lemma Remove_one:
  assumes "n \<in> set (nodes c)"
  shows "set (hashRing (ConsistentHash_Remove c n)) =
           {h \<in> set (hashRing c). nodeMap (ConsistentHash_Remove c n) h \<noteq> None}"
    and "nodeMap (ConsistentHash_Remove c n) =
           (\<lambda>h. if h \<in> set (vhashes c n) then None else nodeMap c h)"
    and "hashFunc (ConsistentHash_Remove c n) = hashFunc c"
    and "nodes (ConsistentHash_Remove c n) = remove1 n (nodes c)"
  using assms by (auto simp: ConsistentHash_Remove_def vhashes_def Let_def remove_fold fun_eq_iff)

subsection \<open>The walk of \<^verbatim>\<open>GetN\<close>\<close>

definition owners :: "conhash \<Rightarrow> string set" where
  "owners c = node_at c ` set (hashRing c)"

text \<open>The owners of the \<open>k\<close> points from \<open>idx\<close> on.\<close>

definition arc :: "conhash \<Rightarrow> nat \<Rightarrow> nat \<Rightarrow> string set" where
  "arc c idx k = (\<lambda>j. node_at c (hashRing c ! ((idx + j) mod length (hashRing c)))) ` {..<k}"

lemma arc_0 [simp]: "arc c idx 0 = {}"
  by (simp add: arc_def)

lemma arc_Suc:
  assumes "idx < length (hashRing c)"
  shows "arc c idx (Suc k) =
    insert (node_at c (hashRing c ! idx)) (arc c ((idx + 1) mod length (hashRing c)) k)"
proof -
  have "{..<Suc k} = insert 0 (Suc ` {..<k})" by (auto simp: lessThan_Suc_eq_insert_0)
  then show ?thesis using assms
    by (simp add: arc_def image_image mod_simps)
qed

lemma arc_full:
  assumes "idx < length (hashRing c)"
  shows "arc c idx (length (hashRing c)) = owners c"
proof -
  let ?n = "length (hashRing c)"
  have "\<exists>j<?n. (idx + j) mod ?n = i" if "i < ?n" for i
  proof (cases "idx \<le> i")
    case True
    with that show ?thesis by (intro exI [of _ "i - idx"]) auto
  next
    case False
    with that assms have "(idx + (?n - idx + i)) mod ?n = i" by simp
    with False assms show ?thesis by (intro exI [of _ "?n - idx + i"]) auto
  qed
  moreover have "(idx + j) mod ?n < ?n" for j using assms by (intro mod_less_divisor) auto
  ultimately have "(\<lambda>j. (idx + j) mod ?n) ` {..<?n} = {..<?n}" by fastforce
  then have "arc c idx ?n = (\<lambda>i. node_at c (hashRing c ! i)) ` {..<?n}"
    unfolding arc_def by (metis (no_types, lifting) image_cong image_image)
  also have "\<dots> = owners c"
    by (force simp: owners_def in_set_conv_nth image_iff)
  finally show ?thesis .
qed

lemma getN_loop_returns:
  assumes "idx < length (hashRing c)" and "distinct res" and "set vis = set res"
    and "set res \<union> arc c idx k = owners c" and "n \<le> int (card (owners c))"
    and "int (length res) \<le> max 0 n"
  shows "\<exists>res'. getN_loop c n idx res vis = Some res' \<and> prefix res res' \<and> distinct res'
     \<and> set res' \<subseteq> owners c \<and> int (length res') = max 0 n"
  using assms
proof (induction k arbitrary: idx res vis)
  case 0
  then have "card (owners c) = length res" by (metis arc_0 Un_empty_right distinct_card)
  with 0 show ?case by (subst getN_loop.simps) (auto simp: max_def split: if_splits)
next
  case (Suc k)
  let ?node = "node_at c (hashRing c ! idx)" and ?idx = "(idx + 1) mod length (hashRing c)"
  have idx: "?idx < length (hashRing c)" using Suc.prems(1) by (intro mod_less_divisor) auto
  note arc = arc_Suc [OF Suc.prems(1), of k]
  show ?case
  proof (cases "int (length res) < n")
    case False
    with Suc.prems show ?thesis
      by (subst getN_loop.simps) (auto simp: max_def split: if_splits)
  next
    case lt: True
    show ?thesis
    proof (cases "?node \<in> set vis")
      case True
      then have "getN_loop c n idx res vis = getN_loop c n ?idx res vis"
        using lt by (subst getN_loop.simps) (simp add: Let_def)
      moreover have "set res \<union> arc c ?idx k = owners c"
        using Suc.prems(3,4) True unfolding arc by (simp add: insert_absorb)
      ultimately show ?thesis
        using Suc.IH [OF idx, of res vis] Suc.prems(2,3,5,6) by metis
    next
      case False
      then have step: "getN_loop c n idx res vis = getN_loop c n ?idx (res @ [?node]) (?node # vis)"
        using lt by (subst getN_loop.simps) (simp add: Let_def)
      have "set (res @ [?node]) \<union> arc c ?idx k = owners c"
        using Suc.prems(4) by (auto simp: arc)
      with Suc.IH [OF idx, of "res @ [?node]" "?node # vis"] Suc.prems lt False obtain r where
        "getN_loop c n ?idx (res @ [?node]) (?node # vis) = Some r" "prefix (res @ [?node]) r"
        "distinct r" "set r \<subseteq> owners c" "int (length r) = max 0 n"
        by auto
      then show ?thesis using step append_prefixD by metis
    qed
  qed
qed

lemma getN_loop_hangs:
  assumes ret: "getN_loop c n idx res vis = Some r"
    and "idx < length (hashRing c)" and "distinct res" and "set vis = set res"
    and "set res \<subseteq> owners c"
  shows "n \<le> int (card (owners c))"
proof -
  have "idx < length (hashRing c) \<and> distinct res \<and> set vis = set res \<and> set res \<subseteq> owners c \<longrightarrow>
      n \<le> int (card (owners c))"
  proof (rule getN_loop.raw_induct [OF _ ret])
    fix loop c n idx res vis r
    assume IH: "\<And>c n idx res vis r. loop c n idx res vis = Some r \<Longrightarrow>
        idx < length (hashRing c) \<and> distinct res \<and> set vis = set res \<and> set res \<subseteq> owners c \<longrightarrow>
        n \<le> int (card (owners c))"
      and eq: "(if int (length res) < n then
          let node = node_at c (hashRing c ! idx); idx' = (idx + 1) mod length (hashRing c)
          in if node \<notin> set vis then loop c n idx' (res @ [node]) (node # vis)
             else loop c n idx' res vis
        else Some res) = Some r"
    show "idx < length (hashRing c) \<and> distinct res \<and> set vis = set res \<and> set res \<subseteq> owners c \<longrightarrow>
        n \<le> int (card (owners c))"
    proof (intro impI, elim conjE)
      assume *: "idx < length (hashRing c)" "distinct res" "set vis = set res" "set res \<subseteq> owners c"
      have own: "node_at c (hashRing c ! idx) \<in> owners c" using *(1) by (simp add: owners_def)
      have idx: "(idx + 1) mod length (hashRing c) < length (hashRing c)"
        using *(1) by (intro mod_less_divisor) auto
      have "length res \<le> card (owners c)"
        using *(2,4) by (metis card_mono distinct_card finite_imageI finite_set owners_def)
      with eq * own idx show "n \<le> int (card (owners c))"
        by (auto simp: Let_def split: if_splits dest!: IH)
    qed
  qed
  with assms show ?thesis by blast
qed

subsection \<open>Distribution\<close>

lemma count_fold:
  "foldl (\<lambda>m h. let node = f h in m(node \<mapsto> (case m node of None \<Rightarrow> 0 | Some k \<Rightarrow> k) + 1)) m hs x =
     (if x \<in> f ` set hs then
        Some ((case m x of None \<Rightarrow> 0 | Some k \<Rightarrow> k) + length (filter (\<lambda>h. f h = x) hs))
      else (m x :: nat option))"
proof (induction hs arbitrary: m)
  case Nil
  then show ?case by simp
next
  case (Cons h hs)
  then show ?case
    by (cases "x \<in> f ` set hs")
      (auto simp: Let_def image_iff filter_empty_conv split: option.splits)
qed

lemma zero_fold: "foldl (\<lambda>m node. m(node \<mapsto> 0)) m ns x = (if x \<in> set ns then Some (0::nat) else m x)"
  by (induction ns arbitrary: m) auto

lemma Get_owner:
  assumes "ring_inv c" and "hashRing c \<noteq> []"
  shows "\<exists>n \<in> set (nodes c). ConsistentHash_Get c key = Ok n \<and>
     nodeMap c (ring_succ (hashFunc c key) (set (hashRing c))) = Some n"
proof -
  let ?s = "ring_succ (hashFunc c key) (set (hashRing c))"
  from assms(1) succ_in_ring [OF assms(2)] obtain n where
    n: "nodeMap c ?s = Some n" "n \<in> set (nodes c)" by (blast dest: ring_invD(3))
  with assms show ?thesis by (auto simp: Get_succ ring_invD node_at_def)
qed

subsection \<open>Properties\<close>

datatype ring_op = OpAdd "string list" | OpRemove string | OpReset

fun ring_exec :: "conhash \<Rightarrow> ring_op \<Rightarrow> conhash" where
  "ring_exec c (OpAdd ns) = ConsistentHash_Add c ns"
| "ring_exec c (OpRemove n) = ConsistentHash_Remove c n"
| "ring_exec c OpReset = ConsistentHash_Reset c"

lemma ring_inv_exec: "ring_inv c \<Longrightarrow> ring_inv (ring_exec c a)"
  by (cases a) (auto intro: ring_inv_Add ring_inv_Remove ring_inv_Reset)

lemma ring_inv_foldl: "ring_inv c \<Longrightarrow> ring_inv (foldl ring_exec c as)"
  by (induction "as" arbitrary: c) (auto intro: ring_inv_exec)

text \<open>
  C1: After any sequence of additions, removals and resets of a new ring, the ring is sorted,
  its points are exactly the keys of the node map, every point belongs to a listed node and is
  one of that node's virtual hashes, and no node is listed twice.
\<close>

theorem ring_inv_reachable: "ring_inv (foldl ring_exec (NewConsistentHash r fn) as)"
  by (rule ring_inv_foldl) (rule ring_inv_new)

text \<open>
  C2: On a ring that satisfies the invariant and is not empty, \<^verbatim>\<open>Get\<close> (a binary search) returns
  the owner of the clockwise successor of the key's hash, and that owner is a listed node.
\<close>

theorem Get_correct:
  assumes "ring_inv c" and "hashRing c \<noteq> []"
  shows "\<exists>n \<in> set (nodes c). ConsistentHash_Get c key = Ok n \<and>
     nodeMap c (ring_succ (hashFunc c key) (set (hashRing c))) = Some n"
  using Get_owner [OF assms] .

text \<open>
  C3: Adding a node to a non-empty ring moves keys only to the new node: every key keeps its
  node or is now served by the new one. This holds even when hashes collide.
\<close>

theorem Add_moves_only_to_new:
  assumes "ring_inv c" and "hashRing c \<noteq> []" and "n \<notin> set (nodes c)"
  shows "ConsistentHash_Get (ConsistentHash_Add c [n]) key \<in> {Ok n, ConsistentHash_Get c key}"
proof -
  let ?c = "ConsistentHash_Add c [n]" and ?h = "hashFunc c key"
  note add = Add_one [OF assms(3)]
  let ?s = "ring_succ ?h (set (hashRing ?c))"
  have srt: "sorted (hashRing ?c)" using assms(1) by (intro ring_invD(1) ring_inv_Add)
  have ne: "hashRing ?c \<noteq> []" using add(1) assms(2) by force
  have get: "ConsistentHash_Get ?c key = Ok (node_at ?c ?s)"
    using Get_succ [OF srt ne] add(3) by simp
  show ?thesis
  proof (cases "?s \<in> set (vhashes c n)")
    case True
    then show ?thesis using get add(2) by (simp add: node_at_def)
  next
    case False
    with succ_in_ring [OF ne] add(1) have "?s \<in> set (hashRing c)" by auto
    then have "ring_succ ?h (set (hashRing c)) = ?s"
      by (intro ring_succ_sub) (auto simp: add(1))
    with False get add(2) assms show ?thesis by (simp add: Get_succ ring_invD node_at_def)
  qed
qed

text \<open>
  Removing a node whose virtual hashes collide with no other node's leaves every key that
  the node did not serve where it was.
\<close>

theorem Remove_keeps_others:
  assumes "ring_inv c" and "n \<in> set (nodes c)"
    and "\<forall>h\<in>set (vhashes c n). nodeMap c h \<noteq> None \<longrightarrow> nodeMap c h = Some n"
    and "ConsistentHash_Get c key = Ok m" and "m \<noteq> n"
  shows "ConsistentHash_Get (ConsistentHash_Remove c n) key = Ok m"
proof -
  let ?c = "ConsistentHash_Remove c n" and ?h = "hashFunc c key"
  note rem = Remove_one [OF assms(2)]
  have ne: "hashRing c \<noteq> []" using assms(4) by (auto simp: ConsistentHash_Get_def)
  let ?s = "ring_succ ?h (set (hashRing c))"
  have m: "nodeMap c ?s = Some m"
    using Get_owner [OF assms(1) ne, of key] assms(4) by auto
  with assms(3,5) have keep: "nodeMap ?c ?s = Some m" by (auto simp: rem(2))
  with succ_in_ring [OF ne] have s: "?s \<in> set (hashRing ?c)" by (simp add: rem(1))
  then have "ring_succ ?h (set (hashRing ?c)) = ?s"
    by (intro ring_succ_sub) (auto simp: rem(1))
  moreover have "sorted (hashRing ?c)" using assms(1) by (intro ring_invD(1) ring_inv_Remove)
  moreover have "hashRing ?c \<noteq> []" using s by force
  ultimately show ?thesis using keep by (simp add: Get_succ rem(3) node_at_def)
qed

text \<open>
  C4: When at least \<open>n\<close> different nodes own points of the ring, the walk of \<^verbatim>\<open>GetN\<close> ends, and
  returns exactly \<open>n\<close> different listed nodes, the first being the node that \<^verbatim>\<open>Get\<close> returns.
\<close>

theorem GetN_correct:
  assumes "ring_inv c" and "hashRing c \<noteq> []" and "0 < n" and "n \<le> int (card (owners c))"
  shows "\<exists>res. ConsistentHash_GetN c key n = Some (Ok res) \<and> int (length res) = n \<and> distinct res
     \<and> set res \<subseteq> set (nodes c) \<and> ConsistentHash_Get c key = Ok (hd res)"
proof -
  let ?i = "start_index c key" and ?node = "node_at c (hashRing c ! start_index c key)"
  have i: "?i < length (hashRing c)" using assms by (intro start_index_succ ring_invD)
  have sub: "owners c \<subseteq> set (nodes c)" using assms(1) by (auto simp: owners_def node_at_in)
  then have "card (owners c) \<le> length (nodes c)"
    by (meson card_length card_mono finite_set order_trans)
  with assms(4) have len: "n \<le> int (length (nodes c))" by simp
  have "getN_loop c n ?i [] [] = getN_loop c n ((?i + 1) mod length (hashRing c)) [?node] [?node]"
    using assms(3) by (subst getN_loop.simps) (simp add: Let_def)
  moreover have "\<exists>res. getN_loop c n ((?i + 1) mod length (hashRing c)) [?node] [?node] = Some res
      \<and> prefix [?node] res \<and> distinct res \<and> set res \<subseteq> owners c \<and> int (length res) = max 0 n"
  proof (rule getN_loop_returns)
    show "(?i + 1) mod length (hashRing c) < length (hashRing c)"
      using i by (intro mod_less_divisor) auto
    have "?node \<in> owners c" using i by (simp add: owners_def)
    then show "set [?node] \<union> arc c ((?i + 1) mod length (hashRing c)) (length (hashRing c)) = owners c"
      using i by (subst arc_full) (auto intro: mod_less_divisor)
  qed (use assms in auto)
  ultimately obtain res where "getN_loop c n ?i [] [] = Some res" "prefix [?node] res"
    "distinct res" "set res \<subseteq> owners c" "int (length res) = n" using assms(3) by auto
  moreover from this(2) have "hd res = ?node" by (auto simp: prefix_def)
  ultimately show ?thesis
    using sub len assms(2) by (auto simp: ConsistentHash_GetN_def ConsistentHash_Get_def)
qed

text \<open>
  When fewer than \<open>n\<close> nodes own points (virtual hashes have collided, or the ring has no
  replicas) but at least \<open>n\<close> nodes are listed, the guard of \<^verbatim>\<open>GetN\<close> passes and its walk never
  returns.
\<close>

theorem GetN_hangs:
  assumes "ring_inv c" and "hashRing c \<noteq> []" and "n \<le> int (length (nodes c))"
    and "int (card (owners c)) < n"
  shows "ConsistentHash_GetN c key n = None"
proof -
  have "start_index c key < length (hashRing c)" using assms by (intro start_index_succ ring_invD)
  then have "getN_loop c n (start_index c key) [] [] = None"
    using getN_loop_hangs [of c n "start_index c key" "[]" "[]"] assms(4)
    by (cases "getN_loop c n (start_index c key) [] []") auto
  with assms show ?thesis by (simp add: ConsistentHash_GetN_def)
qed

text \<open>
  \<^verbatim>\<open>GetDistribution\<close> reports for every listed node how many points of the ring it owns (zero
  when it owns none), and nothing else.
\<close>

theorem GetDistribution_counts:
  assumes "ring_inv c"
  shows "ConsistentHash_GetDistribution c n =
    (if n \<in> set (nodes c) then Some (length (filter (\<lambda>h. node_at c h = n) (hashRing c))) else None)"
proof -
  have "n \<in> set (nodes c)" if "n \<in> node_at c ` set (hashRing c)"
    using that assms by (auto simp: node_at_in)
  then show ?thesis
    unfolding ConsistentHash_GetDistribution_def count_fold zero_fold
    by (auto simp: filter_empty_conv)
qed

subsection \<open>Concrete rings\<close>

text \<open>
  A ring of two nodes under the hash that reads the last byte of its input, and a ring of two
  nodes whose virtual hashes collide.
\<close>

definition last_byte_hash :: "string \<Rightarrow> u32" where
  "last_byte_hash s = (if s = [] then 0 else of_nat (of_char (last s)))"

definition ring2 :: conhash where
  "ring2 = ConsistentHash_Add (NewConsistentHash 1 (Some last_byte_hash)) [''a'', ''c'']"

definition ring_collided :: conhash where
  "ring_collided = ConsistentHash_Add (NewConsistentHash 1 (Some (\<lambda>_. 7))) [''a'', ''b'']"

lemma ring_inv_ring2: "ring_inv ring2" "ring_inv ring_collided"
  unfolding ring2_def ring_collided_def by (intro ring_inv_Add ring_inv_new)+

lemma ring2_eval:
  "ring2 = \<lparr>hashFunc = last_byte_hash, replicas = 1, hashRing = [97, 99],
     nodeMap = [97 \<mapsto> ''a'', 99 \<mapsto> ''c''], nodes = [''a'', ''c'']\<rparr>"
  by (simp add: ring2_def ConsistentHash_Add_def NewConsistentHash_def add_virtual_def
      last_byte_hash_def)

lemma ring_collided_eval:
  "ring_collided = \<lparr>hashFunc = (\<lambda>_. 7), replicas = 1, hashRing = [7, 7],
     nodeMap = [7 \<mapsto> ''b''], nodes = [''a'', ''b'']\<rparr>"
  by (simp add: ring_collided_def ConsistentHash_Add_def NewConsistentHash_def add_virtual_def)

lemma owners_ring2: "owners ring2 = {''a'', ''c''}" "owners ring_collided = {''b''}"
  by (auto simp: owners_def ring2_eval ring_collided_eval node_at_def)

lemma start_index_ring2: "start_index ring2 ''b'' = 1"
  by (simp add: start_index_def ring2_eval go_search_def go_search_loop.simps last_byte_hash_def)

lemma Get_ring2: "ConsistentHash_Get ring2 ''b'' = Ok ''c''"
  unfolding ConsistentHash_Get_def start_index_ring2 by (simp add: ring2_eval node_at_def)

theorem Get_correct_witness:
  "ring_inv ring2 \<and> hashRing ring2 \<noteq> [] \<and>
   (\<exists>n \<in> set (nodes ring2). ConsistentHash_Get ring2 ''b'' = Ok n \<and>
      nodeMap ring2 (ring_succ (hashFunc ring2 ''b'') (set (hashRing ring2))) = Some n)"
proof -
  have ne: "hashRing ring2 \<noteq> []" by (simp add: ring2_eval)
  show ?thesis using ring_inv_ring2(1) ne Get_correct [OF ring_inv_ring2(1) ne, of "''b''"] by blast
qed

theorem Add_moves_only_to_new_witness:
  "ring_inv ring2 \<and> ''d'' \<notin> set (nodes ring2) \<and>
   ConsistentHash_Get (ConsistentHash_Add ring2 [''d'']) ''b'' \<in> {Ok ''d'', Ok ''c''}"
proof -
  have ne: "hashRing ring2 \<noteq> []" and nin: "''d'' \<notin> set (nodes ring2)" by (simp_all add: ring2_eval)
  show ?thesis
    using ring_inv_ring2(1) nin Add_moves_only_to_new [OF ring_inv_ring2(1) ne nin, of "''b''"]
    by (simp add: Get_ring2)
qed

theorem Remove_keeps_others_witness:
  "ConsistentHash_Get (ConsistentHash_Remove ring2 ''a'') ''b'' = Ok ''c''"
proof (rule Remove_keeps_others [OF ring_inv_ring2(1) _ _ Get_ring2])
  show "\<forall>h\<in>set (vhashes ring2 ''a''). nodeMap ring2 h \<noteq> None \<longrightarrow> nodeMap ring2 h = Some ''a''"
    by (simp add: ring2_eval vhashes_def last_byte_hash_def)
qed (simp_all add: ring2_eval)

theorem GetN_correct_witness:
  "\<exists>res. ConsistentHash_GetN ring2 ''b'' 2 = Some (Ok res) \<and> int (length res) = 2 \<and> distinct res
     \<and> set res \<subseteq> set (nodes ring2) \<and> ConsistentHash_Get ring2 ''b'' = Ok (hd res)"
  by (rule GetN_correct [OF ring_inv_ring2(1)]) (simp_all add: owners_ring2, simp add: ring2_eval)

theorem GetN_hangs_witness: "ConsistentHash_GetN ring_collided ''k'' 2 = None"
  by (rule GetN_hangs [OF ring_inv_ring2(2)]) (simp_all add: owners_ring2, simp_all add: ring_collided_eval)

theorem GetDistribution_counts_witness:
  "ConsistentHash_GetDistribution ring_collided ''a'' = Some 0 \<and>
   ConsistentHash_GetDistribution ring_collided ''b'' = Some 2"
  using GetDistribution_counts [OF ring_inv_ring2(2), of "''a''"]
    GetDistribution_counts [OF ring_inv_ring2(2), of "''b''"]
  by (simp add: ring_collided_eval node_at_def)

text \<open>
  On the colliding ring, removing one node deletes the other node's only point: the ring is
  empty although a node is still listed.
\<close>

lemma Remove_drops_other_node:
  "hashRing (ConsistentHash_Remove ring_collided ''b'') = []"
  "nodes (ConsistentHash_Remove ring_collided ''b'') = [''a'']"
  by (simp_all add: ring_collided_eval ConsistentHash_Remove_def)

end
