(* ===== verification/Raft_Log.thy ===== *)
theory Raft_Log
  imports Go_Prelude
begin

text \<open>
  The replicated log of \<^verbatim>\<open>broker/internal/models/log.go\<close>. Indices and terms are 64-bit words,
  as in the code, because the code subtracts and compares them unsigned. The file system is
  a map from paths to contents. The JSON codec and the outcome of each operating-system call
  are a parameter of the operations that use them (record \<open>log_io\<close>), so that every failure
  of a call is a case of the model.

  Slicing \<^verbatim>\<open>xs[:k]\<close> beyond the length of \<^verbatim>\<open>xs\<close> panics in Go unless the spare capacity of the
  slice happens to cover it; the model has no capacities and reports it as \<^term>\<open>Panic\<close>.
\<close>

subsection \<open>Data\<close>

datatype log_type = LogCommand | LogConfiguration | LogNoop

record 'c log_entry =
  le_Term :: u64
  le_Index :: u64
  le_Command :: 'c
  le_Type :: log_type

record 'c raft_log =
  entries :: "'c log_entry list"
  commitIndex :: u64
  lastApplied :: u64
  storePath :: string

type_synonym disk = "string \<rightharpoonup> string"

datatype io_error = MarshalFailed | WriteFailed | RenameFailed | ReadFailed | UnmarshalFailed
  | MkdirFailed | SnapshotBeyondLog u64 u64

text \<open>
  A write either succeeds or leaves whatever it got to in the file (possibly nothing).
\<close>

datatype write_result = Written | Torn "string option"

record 'c log_io =
  json_Marshal :: "'c log_entry list \<Rightarrow> string option"
  json_Unmarshal :: "string \<Rightarrow> 'c log_entry list option"
  os_WriteFile :: "string \<Rightarrow> write_result"
  os_Rename :: "string \<Rightarrow> bool"
  os_ReadFile :: "string \<Rightarrow> bool"
  os_MkdirAll :: bool

subsection \<open>Reading\<close>

definition Log_getLastIndex :: "'c raft_log \<Rightarrow> u64" where
  "Log_getLastIndex l = (if length (entries l) = 0 then 0 else le_Index (last (entries l)))"

definition Log_GetLastTerm :: "'c raft_log \<Rightarrow> u64" where
  "Log_GetLastTerm l = (if length (entries l) = 0 then 0 else le_Term (last (entries l)))"

definition Log_getEntry :: "'c raft_log \<Rightarrow> u64 \<Rightarrow> 'c log_entry option" where
  "Log_getEntry l index =
     (if index = 0 \<or> Log_getLastIndex l < index then None
      else (let adjustedIndex = index - 1
            in if of_nat (length (entries l)) \<le> adjustedIndex then None
               else Some (entries l ! unat adjustedIndex)))"

text \<open>
  \<^verbatim>\<open>make\<close> with a capacity that does not fit an \<^verbatim>\<open>int\<close> panics; counting up to the largest
  64-bit index would never stop.
\<close>

definition Log_GetEntries ::
    "'c raft_log \<Rightarrow> u64 \<Rightarrow> u64 \<Rightarrow> (io_error, 'c log_entry list) outcome" where
  "Log_GetEntries l startIndex endIndex =
     (if Log_getLastIndex l < startIndex then Ok []
      else (let endIndex = (if Log_getLastIndex l < endIndex then Log_getLastIndex l else endIndex)
            in if 2 ^ 63 \<le> unat (endIndex - startIndex + 1) then Panic
               else if endIndex = - 1 \<and> startIndex \<le> endIndex then Blocks
               else Ok (List.map_filter (\<lambda>i. Log_getEntry l (of_nat i))
                          [unat startIndex..<Suc (unat endIndex)])))"

definition Log_GetLastIndex :: "'c raft_log \<Rightarrow> u64" where
  "Log_GetLastIndex l = Log_getLastIndex l"

definition Log_GetEntry :: "'c raft_log \<Rightarrow> u64 \<Rightarrow> 'c log_entry option" where
  "Log_GetEntry l index = Log_getEntry l index"

definition Log_GetCommitIndex :: "'c raft_log \<Rightarrow> u64" where
  "Log_GetCommitIndex l = commitIndex l"

definition Log_GetLastApplied :: "'c raft_log \<Rightarrow> u64" where
  "Log_GetLastApplied l = lastApplied l"

definition Log_SetCommitIndex :: "'c raft_log \<Rightarrow> u64 \<Rightarrow> 'c raft_log" where
  "Log_SetCommitIndex l index =
     l\<lparr>commitIndex := (if Log_getLastIndex l < index then Log_getLastIndex l else index)\<rparr>"

definition Log_SetLastApplied :: "'c raft_log \<Rightarrow> u64 \<Rightarrow> 'c raft_log" where
  "Log_SetLastApplied l index = l\<lparr>lastApplied := index\<rparr>"

subsection \<open>Persistence\<close>

definition write_and_rename ::
    "'c log_io \<Rightarrow> string \<Rightarrow> string \<Rightarrow> disk \<Rightarrow> disk \<times> io_error option" where
  "write_and_rename io path data fs =
     (let tempFile = path @ ''.tmp''
      in case os_WriteFile io tempFile of
           Torn left \<Rightarrow> (fs(tempFile := left), Some WriteFailed)
         | Written \<Rightarrow>
             (let fs = fs(tempFile \<mapsto> data)
              in if os_Rename io path then (fs(path \<mapsto> data, tempFile := None), None)
                 else (fs, Some RenameFailed)))"

definition Log_save :: "'c log_io \<Rightarrow> 'c raft_log \<Rightarrow> disk \<Rightarrow> disk \<times> io_error option" where
  "Log_save io l fs =
     (case json_Marshal io (entries l) of
        None \<Rightarrow> (fs, Some MarshalFailed)
      | Some data \<Rightarrow> write_and_rename io (storePath l) data fs)"

definition Log_load :: "'c log_io \<Rightarrow> 'c raft_log \<Rightarrow> disk \<Rightarrow> 'c raft_log \<times> io_error option" where
  "Log_load io l fs =
     (case fs (storePath l) of
        None \<Rightarrow> (l, None)
      | Some data \<Rightarrow>
          if \<not> os_ReadFile io (storePath l) then (l, Some ReadFailed)
          else if length data = 0 then (l, None)
          else (case json_Unmarshal io data of
                  None \<Rightarrow> (l, Some UnmarshalFailed)
                | Some es \<Rightarrow> (l\<lparr>entries := es\<rparr>, None)))"

text \<open>A failure to create the directory or to load is printed, and the log is returned anyway.\<close>

definition NewLog :: "'c log_io \<Rightarrow> string \<Rightarrow> disk \<Rightarrow> 'c raft_log" where
  "NewLog io path fs =
     fst (Log_load io \<lparr>entries = [], commitIndex = 0, lastApplied = 0, storePath = path\<rparr> fs)"

subsection \<open>Writing\<close>

definition Log_Append ::
    "'c log_io \<Rightarrow> 'c raft_log \<Rightarrow> 'c log_entry \<Rightarrow> disk \<Rightarrow> 'c raft_log \<times> u64 \<times> disk" where
  "Log_Append io l entry fs =
     (let entry = entry\<lparr>le_Index := (if 0 < length (entries l)
                                    then le_Index (last (entries l)) + 1 else 1)\<rparr>;
          l = l\<lparr>entries := entries l @ [entry]\<rparr>
      in (l, le_Index entry, fst (Log_save io l fs)))"

text \<open>The loop of \<^verbatim>\<open>AppendEntries\<close>; \<open>index\<close> is \<^verbatim>\<open>prevLogIndex + uint64(i) + 1\<close>.\<close>

fun append_loop :: "u64 \<Rightarrow> 'c raft_log \<Rightarrow> 'c log_entry list \<Rightarrow> (io_error, 'c raft_log) outcome" where
  "append_loop index l [] = Ok l"
| "append_loop index l (entry # rest) =
     (if index \<le> Log_getLastIndex l then
        (case Log_getEntry l index of
           None \<Rightarrow> Panic
         | Some existingEntry \<Rightarrow>
             if le_Term existingEntry \<noteq> le_Term entry then
               append_loop (index + 1)
                 (l\<lparr>entries := take (unat (index - 1)) (entries l) @ [entry]\<rparr>) rest
             else append_loop (index + 1) l rest)
      else append_loop (index + 1) (l\<lparr>entries := entries l @ [entry]\<rparr>) rest)"

definition Log_AppendEntries ::
    "'c log_io \<Rightarrow> 'c raft_log \<Rightarrow> u64 \<Rightarrow> u64 \<Rightarrow> 'c log_entry list \<Rightarrow> disk \<Rightarrow>
     (io_error, 'c raft_log \<times> (u64 \<times> bool) \<times> disk) outcome" where
  "Log_AppendEntries io l prevLogIndex prevLogTerm es fs =
     (if 0 < prevLogIndex \<and>
         (case Log_getEntry l prevLogIndex of
            None \<Rightarrow> True | Some prevEntry \<Rightarrow> le_Term prevEntry \<noteq> prevLogTerm)
      then Ok (l, (0, False), fs)
      else if length es = 0 then Ok (l, (Log_getLastIndex l, True), fs)
      else (case append_loop (prevLogIndex + 1) l es of
              Ok l' \<Rightarrow> Ok (l', (Log_getLastIndex l', True), fst (Log_save io l' fs))
            | Err e \<Rightarrow> Err e | Panic \<Rightarrow> Panic | Blocks \<Rightarrow> Blocks))"

definition Log_Truncate ::
    "'c log_io \<Rightarrow> 'c raft_log \<Rightarrow> u64 \<Rightarrow> disk \<Rightarrow> (io_error, 'c raft_log \<times> disk) outcome" where
  "Log_Truncate io l index fs =
     (if Log_getLastIndex l \<le> index then Ok (l, fs)
      else if length (entries l) < unat index then Panic
      else (let l = l\<lparr>entries := take (unat index) (entries l)\<rparr>
            in Ok (l, fst (Log_save io l fs))))"

text \<open>
  \<^verbatim>\<open>Snapshot\<close> returns the error of its last save after it has cut the log, so the new log is
  part of the result either way.
\<close>

definition Log_Snapshot ::
    "'c log_io \<Rightarrow> 'c raft_log \<Rightarrow> u64 \<Rightarrow> string \<Rightarrow> disk \<Rightarrow>
     (io_error, 'c raft_log \<times> disk \<times> io_error option) outcome" where
  "Log_Snapshot io l snapshotIndex snapshotPath fs =
     (if Log_getLastIndex l < snapshotIndex then
        Err (SnapshotBeyondLog snapshotIndex (Log_getLastIndex l))
      else if length (entries l) < unat snapshotIndex then Panic
      else (case json_Marshal io (take (unat snapshotIndex) (entries l)) of
              None \<Rightarrow> Ok (l, fs, Some MarshalFailed)
            | Some data \<Rightarrow>
                if \<not> os_MkdirAll io then Ok (l, fs, Some MkdirFailed)
                else (case write_and_rename io snapshotPath data fs of
                        (fs, Some e) \<Rightarrow> Ok (l, fs, Some e)
                      | (fs, None) \<Rightarrow>
                          (let l = l\<lparr>entries := drop (unat snapshotIndex) (entries l)\<rparr>;
                               (fs, e) = Log_save io l fs
                           in Ok (l, fs, e)))))"

subsection \<open>Well-numbered logs\<close>

text \<open>
  The log that every operation but \<^verbatim>\<open>Snapshot\<close> assumes: the entry in slot \<open>i\<close> has index
  \<open>i + 1\<close>.
\<close>

definition numbered_from :: "nat \<Rightarrow> 'c log_entry list \<Rightarrow> bool" where
  "numbered_from n es \<longleftrightarrow> n + length es < 2 ^ 64 \<and>
     (\<forall>i<length es. unat (le_Index (es ! i)) = n + i + 1)"

abbreviation log_wf :: "'c raft_log \<Rightarrow> bool" where
  "log_wf l \<equiv> numbered_from 0 (entries l)"

lemma numbered_from_append:
  "numbered_from n (es @ fs) \<longleftrightarrow> numbered_from n es \<and> numbered_from (n + length es) fs"
proof
  assume a: "numbered_from n (es @ fs)"
  have "unat (le_Index (fs ! i)) = n + length es + i + 1" if "i < length fs" for i
    using that a [unfolded numbered_from_def, THEN conjunct2, rule_format, of "length es + i"]
    by simp
  moreover have "unat (le_Index (es ! i)) = n + i + 1" if "i < length es" for i
  proof -
    from that a have "unat (le_Index ((es @ fs) ! i)) = n + i + 1"
      unfolding numbered_from_def by auto
    with that show ?thesis by (simp add: nth_append)
  qed
  ultimately show "numbered_from n es \<and> numbered_from (n + length es) fs"
    using a by (simp add: numbered_from_def)
next
  assume "numbered_from n es \<and> numbered_from (n + length es) fs"
  then show "numbered_from n (es @ fs)"
    by (auto simp: numbered_from_def nth_append)
qed

lemma numbered_from_Nil [simp]: "numbered_from n [] \<longleftrightarrow> n < 2 ^ 64"
  by (simp add: numbered_from_def)

lemma numbered_from_Cons:
  "numbered_from n (e # es) \<longleftrightarrow> unat (le_Index e) = n + 1 \<and> numbered_from (Suc n) es"
proof -
  have "numbered_from n [e] \<longleftrightarrow> unat (le_Index e) = n + 1 \<and> Suc n < 2 ^ 64"
    by (auto simp: numbered_from_def)
  moreover have "numbered_from (Suc n) es \<Longrightarrow> Suc n < 2 ^ 64"
    by (simp add: numbered_from_def)
  ultimately show ?thesis
    using numbered_from_append [of n "[e]" es] by auto
qed

lemma numbered_take: "numbered_from n es \<Longrightarrow> numbered_from n (take k es)"
  by (metis append_take_drop_id numbered_from_append)

lemma numbered_drop: "numbered_from n es \<Longrightarrow> k \<le> length es \<Longrightarrow> numbered_from (n + k) (drop k es)"
  by (metis append_take_drop_id length_take min.absorb2 numbered_from_append)

lemma last_index_wf: "log_wf l \<Longrightarrow> unat (Log_getLastIndex l) = length (entries l)"
  by (auto simp: Log_getLastIndex_def numbered_from_def last_conv_nth)

lemma unat_of_length: "n < 2 ^ 64 \<Longrightarrow> unat (of_nat n :: u64) = n"
  by (simp add: unat_of_nat take_bit_nat_eq_self)

lemma unat_pred: "index \<noteq> 0 \<Longrightarrow> unat (index - 1 :: u64) = unat index - 1"
  by (rule unat_minus_one)

lemma getEntry_wf:
  assumes "log_wf l"
  shows "Log_getEntry l index =
    (if 0 < unat index \<and> unat index \<le> length (entries l)
     then Some (entries l ! (unat index - 1)) else None)"
proof -
  have "length (entries l) < 2 ^ 64" using assms by (simp add: numbered_from_def)
  then have le: "of_nat (length (entries l)) \<le> index - 1 \<longleftrightarrow> length (entries l) \<le> unat index - 1"
    if "index \<noteq> 0" using that by (simp add: word_le_nat_alt unat_of_length unat_pred)
  have "Log_getLastIndex l < index \<longleftrightarrow> length (entries l) < unat index"
    using last_index_wf [OF assms] by (simp add: word_less_nat_alt)
  moreover have "0 < unat index" if "index \<noteq> 0" using that by (simp add: unat_gt_0)
  ultimately show ?thesis using le
    by (cases "index = 0") (auto simp: Log_getEntry_def Let_def unat_pred)
qed

subsection \<open>AppendEntries against its specification\<close>

text \<open>
  What Raft asks of the entries after the previous index: keep the existing ones while their
  terms agree with the new ones, and replace everything from the first disagreement on.
\<close>

fun merge_entries :: "'c log_entry list \<Rightarrow> 'c log_entry list \<Rightarrow> 'c log_entry list" where
  "merge_entries old [] = old"
| "merge_entries [] new = new"
| "merge_entries (x # old) (e # new) =
     (if le_Term x = le_Term e then x # merge_entries old new else e # new)"

lemma merge_Nil_left [simp]: "merge_entries [] new = new"
  by (cases new) simp_all

lemma numbered_merge:
  "numbered_from n old \<Longrightarrow> numbered_from n new \<Longrightarrow> numbered_from n (merge_entries old new)"
  by (induction old new arbitrary: n rule: merge_entries.induct)
    (auto simp: numbered_from_Cons)

lemma merge_step:
  assumes "p \<le> length es"
  shows "take (Suc p) (take p es @ merge_entries (drop p es) [e]) @
      merge_entries (drop (Suc p) (take p es @ merge_entries (drop p es) [e])) new
    = take p es @ merge_entries (drop p es) (e # new)"
  using assms by (cases "drop p es") (auto simp: min_def)

lemma append_loop_step:
  assumes "log_wf l" and "unat index = Suc p" and "p \<le> length (entries l)"
  shows "append_loop index l (e # new) = append_loop (index + 1)
    (l\<lparr>entries := take p (entries l) @ merge_entries (drop p (entries l)) [e]\<rparr>) new"
proof (cases "p < length (entries l)")
  case True
  then have "drop p (entries l) = entries l ! p # drop (Suc p) (entries l)"
    by (rule Cons_nth_drop_Suc [symmetric])
  moreover have "Log_getEntry l index = Some (entries l ! p)"
    using True assms(2) by (simp add: getEntry_wf [OF assms(1)])
  moreover have "index \<le> Log_getLastIndex l"
    using True assms(2) last_index_wf [OF assms(1)] by (simp add: word_le_nat_alt)
  moreover have "unat (index - 1) = p" using assms(2) by (subst unat_pred) auto
  moreover have "l\<lparr>entries := take p (entries l) @ entries l ! p # drop (Suc p) (entries l)\<rparr> = l"
    using True by (simp add: id_take_nth_drop [symmetric])
  ultimately show ?thesis by simp
next
  case False
  with assms(2,3) last_index_wf [OF assms(1)] show ?thesis by (simp add: word_le_nat_alt)
qed

lemma append_loop_merge:
  assumes "log_wf l" and "unat index = Suc p" and "p \<le> length (entries l)" and "numbered_from p new"
  shows "append_loop index l new =
    Ok (l\<lparr>entries := take p (entries l) @ merge_entries (drop p (entries l)) new\<rparr>)"
  using assms
proof (induction new arbitrary: index l p)
  case Nil
  then show ?case by simp
next
  case (Cons e new)
  let ?es = "take p (entries l) @ merge_entries (drop p (entries l)) [e]"
  let ?l = "l\<lparr>entries := ?es\<rparr>"
  note step = append_loop_step [OF Cons.prems(1-3), of e new]
  from Cons.prems(4) have e: "numbered_from p [e]" "numbered_from (Suc p) new"
    by (auto simp: numbered_from_Cons numbered_from_def)
  have wf: "log_wf ?l"
    using Cons.prems(1,3) e(1) numbered_drop [OF Cons.prems(1,3)]
    by (simp add: numbered_from_append numbered_take numbered_merge)
  have len: "Suc p \<le> length ?es"
    using Cons.prems(3) by (cases "drop p (entries l)") auto
  show ?case
  proof (cases new)
    case Nil
    with step show ?thesis by simp
  next
    case (Cons e' new')
    then have "Suc p < 2 ^ 64 - 1" using e(2) by (auto simp: numbered_from_def)
    then have idx: "unat (index + 1) = Suc (Suc p)"
      using Cons.prems(2) by (simp add: unat_word_ariths)
    show ?thesis
      using Cons.IH [OF wf idx _ e(2)] len merge_step [OF Cons.prems(3), of e new] step by simp
  qed
qed

lemma prev_check_wf:
  assumes "log_wf l"
  shows "(0 < prev \<and> (case Log_getEntry l prev of None \<Rightarrow> True | Some x \<Rightarrow> le_Term x \<noteq> pt)) \<longleftrightarrow>
    \<not> (prev = 0 \<or> unat prev \<le> length (entries l) \<and> le_Term (entries l ! (unat prev - 1)) = pt)"
  using getEntry_wf [OF assms, of prev] by (auto simp: word_neq_0_conv unat_gt_0 split: option.splits)

lemma merge_full: "length new \<le> length old \<Longrightarrow> (\<forall>i<length new. le_Term (old ! i) = le_Term (new ! i)) \<Longrightarrow>
    merge_entries old new = old"
proof (induction old new rule: merge_entries.induct)
  case (3 x old e new)
  from "3.prems"(2) have hd: "le_Term x = le_Term e" by fastforce
  moreover have "\<forall>i<length new. le_Term (old ! i) = le_Term (new ! i)"
    using "3.prems"(2) by fastforce
  ultimately show ?case using "3.IH" "3.prems"(1) by simp
qed auto

text \<open>
  The log matching property of two logs: entries with the same index and term sit on the same
  prefix.
\<close>

definition log_matching :: "'c log_entry list \<Rightarrow> 'c log_entry list \<Rightarrow> bool" where
  "log_matching L F \<longleftrightarrow> (\<forall>i. i < length L \<longrightarrow> i < length F \<longrightarrow> le_Term (L ! i) = le_Term (F ! i) \<longrightarrow>
     take (Suc i) L = take (Suc i) F)"

lemma log_matching_take: "log_matching L (take n L)"
  by (auto simp: log_matching_def min_def)

lemma merge_matching:
  assumes "log_matching L F" and "take p L = take p F" and "p \<le> length F" and "p + m \<le> length L"
  shows "take (p + m) (take p F @ merge_entries (drop p F) (take m (drop p L))) = take (p + m) L \<and>
    log_matching L (take p F @ merge_entries (drop p F) (take m (drop p L)))"
  using assms
proof (induction m arbitrary: p)
  case 0
  then show ?case by simp
next
  case (Suc m)
  then have pL: "p < length L" by simp
  have dL: "take (Suc m) (drop p L) = L ! p # take m (drop (Suc p) L)"
    using pL by (simp add: Cons_nth_drop_Suc [symmetric])
  have all: "take p F @ take (Suc m) (drop p L) = take (p + Suc m) L"
    using Suc.prems(2) by (metis take_add)
  show ?case
  proof (cases "p < length F \<and> le_Term (F ! p) = le_Term (L ! p)")
    case True
    then have eq: "take (Suc p) L = take (Suc p) F"
      using Suc.prems(1) pL by (simp add: log_matching_def)
    have "drop p F = F ! p # drop (Suc p) F"
      using True by (simp add: Cons_nth_drop_Suc [symmetric])
    then have "take p F @ merge_entries (drop p F) (take (Suc m) (drop p L)) =
        take (Suc p) F @ merge_entries (drop (Suc p) F) (take m (drop (Suc p) L))"
      using True dL by (simp add: take_Suc_conv_app_nth)
    with Suc.IH [OF Suc.prems(1) eq] True Suc.prems(4) show ?thesis by simp
  next
    case False
    then have "merge_entries (drop p F) (take (Suc m) (drop p L)) = take (Suc m) (drop p L)"
    proof (cases "p < length F")
      case True
      then have "drop p F = F ! p # drop (Suc p) F"
        by (simp add: Cons_nth_drop_Suc [symmetric])
      with False True show ?thesis by (simp only: dL) simp
    qed simp
    with all show ?thesis using log_matching_take by (simp only:) simp
  qed
qed

lemma AppendEntries_spec:
  assumes "log_wf l" and "numbered_from (unat prev) es" and "es \<noteq> []"
  shows "if prev = 0 \<or> unat prev \<le> length (entries l) \<and> le_Term (entries l ! (unat prev - 1)) = pt
    then \<exists>l'. Log_AppendEntries io l prev pt es fs =
        Ok (l', (Log_getLastIndex l', True), fst (Log_save io l' fs)) \<and> log_wf l' \<and>
        l' = l\<lparr>entries := take (unat prev) (entries l) @
                 merge_entries (drop (unat prev) (entries l)) es\<rparr>
    else Log_AppendEntries io l prev pt es fs = Ok (l, (0, False), fs)"
proof (cases "prev = 0 \<or> unat prev \<le> length (entries l) \<and> le_Term (entries l ! (unat prev - 1)) = pt")
  case True
  let ?l = "l\<lparr>entries := take (unat prev) (entries l) @ merge_entries (drop (unat prev) (entries l)) es\<rparr>"
  have p: "unat prev \<le> length (entries l)" using True by auto
  have "unat prev < 2 ^ 64 - 1" using assms(2,3) by (cases es) (auto simp: numbered_from_def)
  then have "unat (prev + 1) = Suc (unat prev)" by (simp add: unat_word_ariths)
  then have "append_loop (prev + 1) l es = Ok ?l"
    using assms p by (intro append_loop_merge) auto
  moreover have "log_wf ?l"
    using assms p numbered_drop [OF assms(1) p]
    by (simp add: numbered_from_append numbered_take numbered_merge)
  ultimately show ?thesis
    using True assms(3) prev_check_wf [OF assms(1), of prev pt]
    by (auto simp: Log_AppendEntries_def)
next
  case False
  then show ?thesis
    using prev_check_wf [OF assms(1), of prev pt] by (simp add: Log_AppendEntries_def)
qed

lemma write_and_rename_cases:
  "write_and_rename io path data fs = (fs', e) \<Longrightarrow>
     (e = None \<and> fs' path = Some data) \<or> (e \<noteq> None \<and> fs' path = fs path)"
  by (auto simp: write_and_rename_def Let_def split: write_result.splits if_splits)

lemma Append_wf:
  assumes "log_wf l" and "length (entries l) < 2 ^ 64 - 1" and "Log_Append io l e fs = (l', i, fs')"
  shows "entries l' = entries l @ [e\<lparr>le_Index := i\<rparr>] \<and> unat i = Suc (length (entries l)) \<and> log_wf l'"
proof -
  let ?i = "if 0 < length (entries l) then le_Index (last (entries l)) + 1 else 1 :: u64"
  have i: "i = ?i" and l': "l' = l\<lparr>entries := entries l @ [e\<lparr>le_Index := i\<rparr>]\<rparr>"
    using assms(3) by (auto simp: Log_Append_def Let_def)
  have ui: "unat i = Suc (length (entries l))"
    using last_index_wf [OF assms(1)] assms(2) unfolding i
    by (auto simp: Log_getLastIndex_def unat_word_ariths)
  moreover have "log_wf l'"
    using assms(1,2) ui unfolding l' by (simp add: numbered_from_append numbered_from_Cons)
  ultimately show ?thesis using l' by simp
qed

lemma GetEntries_capacity:
  fixes e a :: u64
  assumes "unat e < 2 ^ 63"
  shows "unat a < 2 ^ 63 \<Longrightarrow> 0 < unat a \<Longrightarrow> 2 ^ 63 \<le> unat (e - a + 1) \<longleftrightarrow> Suc (unat e) < unat a" and "e \<noteq> - 1"
proof -
  assume a: "unat a < 2 ^ 63" "0 < unat a"
  have e1: "unat (e + 1) = Suc (unat e)" using assms by (simp add: unat_word_ariths)
  have "unat (e - a + 1) = unat ((e + 1) - a)" by (simp add: algebra_simps)
  also have "\<dots> = (if unat a \<le> Suc (unat e) then Suc (unat e) - unat a
      else 2 ^ 64 + Suc (unat e) - unat a)"
    unfolding unat_sub_if_size word_le_nat_alt e1 word_size by simp
  finally show "2 ^ 63 \<le> unat (e - a + 1) \<longleftrightarrow> Suc (unat e) < unat a"
    using a assms by (simp split: if_splits)
next
  have "unat (- 1 :: u64) = 2 ^ 64 - 1" by (simp add: unsigned_minus_1_eq_mask mask_eq_exp_minus_1)
  then show "e \<noteq> - 1" using assms by auto
qed

lemma map_filter_slice:
  assumes "log_wf l" and "0 < a" and "b \<le> length (entries l)" and "a \<le> Suc b"
  shows "List.map_filter (\<lambda>i. Log_getEntry l (of_nat i)) [a..<Suc b] =
    take (Suc b - a) (drop (a - 1) (entries l))"
proof -
  have lt: "length (entries l) < 2 ^ 64" using assms(1) by (simp add: numbered_from_def)
  have "Log_getEntry l (of_nat i) = Some (entries l ! (i - 1))" if "i \<in> set [a..<Suc b]" for i
  proof -
    from that assms lt have "i < 2 ^ 64" by auto
    then have "unat (of_nat i :: u64) = i" by (rule unat_of_length)
    moreover have "0 < i" "i \<le> length (entries l)" using that assms by auto
    ultimately show ?thesis using assms(1) by (simp add: getEntry_wf)
  qed
  then have "List.map_filter (\<lambda>i. Log_getEntry l (of_nat i)) [a..<Suc b] =
      map (\<lambda>i. entries l ! (i - 1)) [a..<Suc b]"
    by (simp add: List.map_filter_def filter_True)
  also have "\<dots> = take (Suc b - a) (drop (a - 1) (entries l))"
    by (rule nth_equalityI) (use assms in \<open>auto simp del: upt_Suc\<close>)
  finally show ?thesis .
qed

subsection \<open>A concrete log\<close>

definition ex_entry :: "u64 \<Rightarrow> u64 \<Rightarrow> string log_entry" where
  "ex_entry t i = \<lparr>le_Term = t, le_Index = i, le_Command = ''x'', le_Type = LogCommand\<rparr>"

definition ex_log :: "string raft_log" where
  "ex_log = \<lparr>entries = [ex_entry 1 1, ex_entry 1 2, ex_entry 2 3], commitIndex = 0, lastApplied = 0,
     storePath = ''raft.log''\<rparr>"

definition ex_leader :: "string log_entry list" where
  "ex_leader = [ex_entry 1 1, ex_entry 1 2, ex_entry 3 3, ex_entry 3 4]"

text \<open>A codec that is right on \<^term>\<open>ex_log\<close>, over a file system whose calls succeed.\<close>

definition ex_io :: "string log_io" where
  "ex_io = \<lparr>json_Marshal = (\<lambda>es. Some (if es = entries ex_log then ''[..]'' else ''[]'')),
     json_Unmarshal = (\<lambda>d. Some (if d = ''[..]'' then entries ex_log else [])),
     os_WriteFile = (\<lambda>_. Written), os_Rename = (\<lambda>_. True), os_ReadFile = (\<lambda>_. True),
     os_MkdirAll = True\<rparr>"

lemmas ex_log_defs = ex_log_def ex_leader_def ex_entry_def ex_io_def

lemma ex_log_wf [simp]: "log_wf ex_log"
  by (simp add: ex_log_defs numbered_from_Cons numbered_from_Nil)

lemma ex_leader_numbered [simp]: "numbered_from 0 ex_leader"
  by (simp add: ex_log_defs numbered_from_Cons numbered_from_Nil)

lemma ex_log_matching [simp]: "log_matching ex_leader (entries ex_log)"
  by (auto simp: log_matching_def ex_log_defs less_Suc_eq)

subsection \<open>Properties\<close>

text \<open>
  C5: On a well-numbered log \<^verbatim>\<open>AppendEntries\<close> never panics. It rejects the request and changes
  nothing when the entry before the new ones is missing or has another term; otherwise it
  keeps the entries up to the previous index and merges the rest as Raft prescribes, and the
  new log is well-numbered again.
\<close>

theorem AppendEntries_correct:
  assumes "log_wf l" and "numbered_from (unat prev) es" and "es \<noteq> []"
  shows "if prev = 0 \<or> unat prev \<le> length (entries l) \<and> le_Term (entries l ! (unat prev - 1)) = pt
    then \<exists>l'. Log_AppendEntries io l prev pt es fs =
        Ok (l', (Log_getLastIndex l', True), fst (Log_save io l' fs)) \<and> log_wf l' \<and>
        l' = l\<lparr>entries := take (unat prev) (entries l) @
                 merge_entries (drop (unat prev) (entries l)) es\<rparr>
    else Log_AppendEntries io l prev pt es fs = Ok (l, (0, False), fs)"
  by (rule AppendEntries_spec [OF assms])

theorem AppendEntries_correct_witness:
  "\<exists>l'. Log_AppendEntries ex_io ex_log 2 1 [ex_entry 3 3, ex_entry 3 4] Map.empty =
      Ok (l', (Log_getLastIndex l', True), fst (Log_save ex_io l' Map.empty)) \<and> log_wf l' \<and>
      map le_Term (entries l') = [1, 1, 3, 3]"
proof -
  have "numbered_from (unat (2 :: u64)) [ex_entry 3 3, ex_entry 3 4]"
    by (simp add: ex_entry_def numbered_from_Cons numbered_from_Nil)
  from AppendEntries_correct [OF ex_log_wf this, of 1 ex_io Map.empty] show ?thesis
    by (auto simp: ex_log_def ex_entry_def)
qed

text \<open>
  C6: \<^verbatim>\<open>AppendEntries\<close> preserves the log matching property: when a follower accepts a segment
  of the leader's log, it agrees with the leader up to the end of that segment and the two
  logs still match.
\<close>

theorem AppendEntries_log_matching:
  assumes "log_wf l" and "numbered_from 0 L" and "log_matching L (entries l)"
    and "unat prev + m \<le> length L" and "0 < m"
    and "prev \<noteq> 0 \<longrightarrow> pt = le_Term (L ! (unat prev - 1))"
    and "Log_AppendEntries io l prev pt (take m (drop (unat prev) L)) fs = Ok (l', (i, True), fs')"
  shows "take (unat prev + m) (entries l') = take (unat prev + m) L \<and> log_matching L (entries l')"
proof -
  let ?p = "unat prev" and ?es = "take m (drop (unat prev) L)"
  have num: "numbered_from ?p ?es"
    using numbered_drop [OF assms(2), of ?p] assms(4) by (simp add: numbered_take)
  have ne: "?es \<noteq> []" using assms(4,5) by auto
  have ok: "prev = 0 \<or> ?p \<le> length (entries l) \<and> le_Term (entries l ! (?p - 1)) = pt"
    and l': "l' = l\<lparr>entries := take ?p (entries l) @ merge_entries (drop ?p (entries l)) ?es\<rparr>"
    using AppendEntries_spec [OF assms(1) num ne, of pt io fs] assms(7) by (auto split: if_splits)
  have "take ?p L = take ?p (entries l)"
  proof (cases "prev = 0")
    case False
    then have "0 < ?p" by (simp add: unat_gt_0)
    with ok False assms(3,4,6) show ?thesis
      by (auto simp: log_matching_def dest!: spec [of _ "?p - 1"])
  qed simp
  with merge_matching [OF assms(3), of ?p m] ok assms(4) l' show ?thesis by auto
qed

theorem AppendEntries_log_matching_witness:
  "\<exists>l' i fs'. Log_AppendEntries ex_io ex_log 2 1 (take 2 (drop 2 ex_leader)) Map.empty = Ok (l', (i, True), fs') \<and>
     take 4 (entries l') = take 4 ex_leader \<and> log_matching ex_leader (entries l')"
proof -
  have seg: "take 2 (drop (unat (2 :: u64)) ex_leader) = [ex_entry 3 3, ex_entry 3 4]"
    by (simp add: ex_leader_def)
  have "numbered_from (unat (2 :: u64)) [ex_entry 3 3, ex_entry 3 4]"
    by (simp add: ex_entry_def numbered_from_Cons numbered_from_Nil)
  from AppendEntries_spec [OF ex_log_wf this, of 1 ex_io Map.empty] obtain l' i fs' where r:
    "Log_AppendEntries ex_io ex_log 2 1 (take 2 (drop (unat (2 :: u64)) ex_leader)) Map.empty =
     Ok (l', (i, True), fs')"
    unfolding seg by (auto simp: ex_log_def ex_entry_def)
  from AppendEntries_log_matching [OF ex_log_wf ex_leader_numbered ex_log_matching _ _ _ r]
  have "take (unat (2 :: u64) + 2) (entries l') = take (unat (2 :: u64) + 2) ex_leader \<and>
      log_matching ex_leader (entries l')"
    by (simp add: ex_leader_def ex_entry_def)
  with r show ?thesis by auto
qed

text \<open>
  Appending to a well-numbered log gives the entry the next index, keeps the log
  well-numbered, and looking the returned index up gives the entry back.
\<close>

theorem Append_lookup:
  assumes "log_wf l" and "length (entries l) < 2 ^ 64 - 1" and "Log_Append io l e fs = (l', i, fs')"
  shows "log_wf l' \<and> unat i = length (entries l) + 1 \<and> Log_getLastIndex l' = i \<and>
    Log_getEntry l' i = Some (e\<lparr>le_Index := i\<rparr>) \<and>
    (\<forall>j. unat j \<le> length (entries l) \<longrightarrow> Log_getEntry l' j = Log_getEntry l j)"
proof -
  from Append_wf [OF assms] have a: "entries l' = entries l @ [e\<lparr>le_Index := i\<rparr>]"
    "unat i = Suc (length (entries l))" "log_wf l'" by auto
  then show ?thesis
    using assms(1) by (auto simp: getEntry_wf Log_getLastIndex_def nth_append)
qed

theorem Append_lookup_witness:
  "\<exists>l' fs'. Log_Append ex_io ex_log (ex_entry 2 0) Map.empty = (l', 4, fs') \<and> log_wf l' \<and>
     Log_getEntry l' 4 = Some (ex_entry 2 4)"
  using Append_lookup [of ex_log ex_io "ex_entry 2 0" Map.empty]
  by (simp add: Log_Append_def ex_log_defs Let_def numbered_from_Cons numbered_from_Nil)

text \<open>
  C7: Saving is atomic: whatever call fails, the log file afterwards holds either exactly what
  it held before (and an error is reported) or the complete new contents (and none is).
\<close>

theorem save_atomic:
  assumes "Log_save io l fs = (fs', e)"
  shows "(e = None \<and> (\<exists>data. json_Marshal io (entries l) = Some data \<and> fs' (storePath l) = Some data)) \<or>
    (e \<noteq> None \<and> fs' (storePath l) = fs (storePath l))"
  using assms write_and_rename_cases [of io "storePath l" _ fs fs' e]
  by (auto simp: Log_save_def split: option.splits)

theorem save_atomic_witness:
  "fst (Log_save ex_io ex_log Map.empty) (storePath ex_log) = Some ''[..]'' \<and>
   fst (Log_save (ex_io\<lparr>os_Rename := \<lambda>_. False\<rparr>) ex_log [''raft.log'' \<mapsto> ''old'']) (storePath ex_log) = Some ''old''"
  using save_atomic [of ex_io ex_log Map.empty "fst (Log_save ex_io ex_log Map.empty)"
      "snd (Log_save ex_io ex_log Map.empty)"]
    save_atomic [of "ex_io\<lparr>os_Rename := \<lambda>_. False\<rparr>" ex_log "[''raft.log'' \<mapsto> ''old'']"
      "fst (Log_save (ex_io\<lparr>os_Rename := \<lambda>_. False\<rparr>) ex_log [''raft.log'' \<mapsto> ''old''])"
      "snd (Log_save (ex_io\<lparr>os_Rename := \<lambda>_. False\<rparr>) ex_log [''raft.log'' \<mapsto> ''old''])"]
  by (simp add: ex_log_defs Log_save_def write_and_rename_def)

text \<open>
  C8: A restart recovers what was saved: if the save succeeded, the file can be read and the
  codec decodes what it encoded for this log, then a new log opened on the same path has the
  same entries.
\<close>

theorem save_restart:
  assumes "Log_save io l fs = (fs', None)" and "os_ReadFile io (storePath l)"
    and "json_Marshal io (entries l) = Some data" and "data \<noteq> []"
    and "json_Unmarshal io data = Some (entries l)"
  shows "entries (NewLog io (storePath l) fs') = entries l"
  using assms write_and_rename_cases [of io "storePath l" data fs fs' None]
  by (simp add: Log_save_def NewLog_def Log_load_def)

theorem save_restart_witness:
  "entries (NewLog ex_io ''raft.log'' (fst (Log_save ex_io ex_log Map.empty))) = entries ex_log"
  using save_restart [of ex_io ex_log Map.empty "fst (Log_save ex_io ex_log Map.empty)" "''[..]''"]
  by (simp add: ex_log_defs Log_save_def write_and_rename_def)

text \<open>
  \<^verbatim>\<open>Snapshot\<close> cuts the front of the entries but the other operations keep computing slots as
  index minus one. After a snapshot at \<open>s\<close> of a well-numbered log, every entry that a lookup
  returns is the entry whose index is \<open>s\<close> higher than the one asked for, and the last index
  the log reports cannot be looked up.
\<close>

theorem Snapshot_shifts_lookup:
  assumes "log_wf l" and "0 < s" and "Log_Snapshot io l s path fs = Ok (l', fs', e)" and "l' \<noteq> l"
  shows "(\<forall>i x. Log_getEntry l' i = Some x \<longrightarrow> unat (le_Index x) = unat i + unat s) \<and>
    Log_getEntry l' (Log_getLastIndex l') = None"
proof -
  have l': "l' = l\<lparr>entries := drop (unat s) (entries l)\<rparr>" and s: "unat s \<le> length (entries l)"
    using assms(3,4) by (auto simp: Log_Snapshot_def Let_def split: if_splits option.splits prod.splits)
  have su: "0 < unat s" using assms(2) by (simp add: unat_gt_0 word_neq_0_conv)
  have num: "numbered_from (unat s) (entries l')"
    using numbered_drop [OF assms(1) s] by (simp add: l')
  have lt: "length (entries l') < 2 ^ 64" using num by (simp add: numbered_from_def)
  have slot: "i \<noteq> 0 \<and> \<not> Log_getLastIndex l' < i \<and> unat i - 1 < length (entries l')
      \<and> x = entries l' ! (unat i - 1)" if "Log_getEntry l' i = Some x" for i x
    using that lt by (auto simp: Log_getEntry_def Let_def word_le_nat_alt unat_of_length unat_pred
        not_le split: if_splits)
  have "unat (le_Index x) = unat i + unat s" if "Log_getEntry l' i = Some x" for i x
    using slot [OF that] num by (auto simp: numbered_from_def unat_gt_0)
  moreover have "Log_getEntry l' (Log_getLastIndex l') = None"
  proof (cases "entries l' = []")
    case True
    then show ?thesis by (simp add: Log_getLastIndex_def Log_getEntry_def)
  next
    case False
    then have "unat (Log_getLastIndex l') = unat s + length (entries l')"
      using num by (auto simp: Log_getLastIndex_def last_conv_nth numbered_from_def)
    then show ?thesis using slot [of "Log_getLastIndex l'"] su
      by (cases "Log_getEntry l' (Log_getLastIndex l')") auto
  qed
  ultimately show ?thesis by blast
qed

theorem Snapshot_shifts_lookup_witness:
  "\<exists>l' fs' e. Log_Snapshot ex_io ex_log 1 ''snap'' Map.empty = Ok (l', fs', e) \<and>
     Log_getEntry l' 1 = Some (ex_entry 1 2) \<and> unat (le_Index (ex_entry 1 2)) = unat (1 :: u64) + unat (1 :: u64) \<and>
     Log_getEntry l' (Log_getLastIndex l') = None"
proof -
  obtain fs' e where r: "Log_Snapshot ex_io ex_log 1 ''snap'' Map.empty =
      Ok (ex_log\<lparr>entries := [ex_entry 1 2, ex_entry 2 3]\<rparr>, fs', e)"
    by (simp add: Log_Snapshot_def Log_getLastIndex_def ex_log_defs Let_def write_and_rename_def Log_save_def)
  then show ?thesis
    using Snapshot_shifts_lookup [OF ex_log_wf _ r]
    by (simp add: Log_getEntry_def Log_getLastIndex_def ex_log_defs)
qed

text \<open>
  On a well-numbered log \<^verbatim>\<open>GetEntries\<close> returns exactly the requested slice, with the end
  clipped to the log; but a request whose start lies inside the log and more than one past
  its end makes the capacity wrap around and panics.
\<close>

theorem GetEntries_slice:
  assumes "log_wf l" and "length (entries l) < 2 ^ 63" and "0 < a"
  shows "Log_GetEntries l a b =
    (if length (entries l) < unat a then Ok []
     else if Suc (unat b) < unat a then Panic
     else Ok (take (Suc (min (unat b) (length (entries l))) - unat a)
                (drop (unat a - 1) (entries l))))"
proof -
  note last = last_index_wf [OF assms(1)]
  define e where "e = (if Log_getLastIndex l < b then Log_getLastIndex l else b)"
  have ue: "unat e = min (unat b) (length (entries l))"
    using last by (auto simp: e_def word_less_nat_alt)
  have ua: "0 < unat a" using assms(3) by (simp add: unat_gt_0 word_neq_0_conv)
  have lt: "Log_getLastIndex l < a \<longleftrightarrow> length (entries l) < unat a"
    using last by (simp add: word_less_nat_alt)
  have e: "unat e < 2 ^ 63" using ue assms(2) by simp
  show ?thesis
  proof (cases "length (entries l) < unat a")
    case True
    then show ?thesis using lt by (simp add: Log_GetEntries_def)
  next
    case False
    then have eb: "Suc (unat e) < unat a \<longleftrightarrow> Suc (unat b) < unat a" using ue by auto
    have "unat a < 2 ^ 63" using False assms(2) by simp
    from GetEntries_capacity(1) [OF e this ua] have "Log_GetEntries l a b =
        (if Suc (unat e) < unat a then Panic
         else Ok (List.map_filter (\<lambda>i. Log_getEntry l (of_nat i)) [unat a..<Suc (unat e)]))"
      using False lt GetEntries_capacity(2) [OF e]
      by (simp only: Log_GetEntries_def e_def [symmetric] Let_def if_False simp_thms)
    with False eb map_filter_slice [OF assms(1) ua, of "unat e"] ue show ?thesis
      by (simp del: upt_Suc)
  qed
qed

theorem GetEntries_slice_witness:
  "Log_GetEntries ex_log 2 9 = Ok [ex_entry 1 2, ex_entry 2 3] \<and> Log_GetEntries ex_log 3 1 = Panic"
  using GetEntries_slice [OF ex_log_wf, of 2 9] GetEntries_slice [OF ex_log_wf, of 3 1]
  by (simp add: ex_log_def)

end
