(* ===== verification/Cluster_Node.thy ===== *)
theory Cluster_Node
  imports Go_Prelude
begin

text \<open>
  The node and cluster descriptions of \<^verbatim>\<open>broker/internal/models/node.go\<close>. The cluster's node
  table is only looked up, changed and counted, so its entries are kept as a Go map
  (association list with distinct keys). A \<^verbatim>\<open>*Node\<close> stored in the table is the node itself:
  nothing in this file changes a node through a second pointer. In the status, the uptime
  and the heartbeat are the values that the code prints, not their printed form.
\<close>

subsection \<open>Data and operations\<close>

datatype node_state = NodeStateFollower | NodeStateCandidate | NodeStateLeader | NodeStateOther int

fun NodeState_String :: "node_state \<Rightarrow> string" where
  "NodeState_String NodeStateFollower = ''Follower''"
| "NodeState_String NodeStateCandidate = ''Candidate''"
| "NodeState_String NodeStateLeader = ''Leader''"
| "NodeState_String (NodeStateOther _) = ''Unknown''"

record node =
  node_ID :: string
  node_Address :: string
  node_State :: node_state
  node_Term :: u64
  node_VotedFor :: string
  node_LeaderID :: string
  node_LastLogIndex :: u64
  node_LastLogTerm :: u64
  node_CommitIndex :: u64
  node_LastApplied :: u64
  node_JoinTime :: time
  node_LastHeartbeat :: time

text \<open>The two clock readings of \<^verbatim>\<open>NewNode\<close> are its last arguments.\<close>

definition NewNode :: "string \<Rightarrow> string \<Rightarrow> time \<Rightarrow> time \<Rightarrow> node" where
  "NewNode nid address now1 now2 = \<lparr>node_ID = nid, node_Address = address,
     node_State = NodeStateFollower, node_Term = 0, node_VotedFor = '''', node_LeaderID = '''',
     node_LastLogIndex = 0, node_LastLogTerm = 0, node_CommitIndex = 0, node_LastApplied = 0,
     node_JoinTime = now1, node_LastHeartbeat = now2\<rparr>"

record node_status =
  ns_ID :: string
  ns_Address :: string
  ns_State :: string
  ns_Term :: u64
  ns_LeaderID :: string
  ns_LastLogIndex :: u64
  ns_CommitIndex :: u64
  ns_LastApplied :: u64
  ns_Uptime :: duration
  ns_LastHeartbeat :: time

definition Node_ToStatus :: "node \<Rightarrow> time \<Rightarrow> node_status" where
  "Node_ToStatus n now = \<lparr>ns_ID = node_ID n, ns_Address = node_Address n,
     ns_State = NodeState_String (node_State n), ns_Term = node_Term n,
     ns_LeaderID = node_LeaderID n, ns_LastLogIndex = node_LastLogIndex n,
     ns_CommitIndex = node_CommitIndex n, ns_LastApplied = node_LastApplied n,
     ns_Uptime = now - node_JoinTime n, ns_LastHeartbeat = node_LastHeartbeat n\<rparr>"

record cluster =
  cl_Nodes :: "(string, node) gomap"
  cl_LeaderID :: string
  cl_Term :: u64
  cl_CommitIndex :: u64

definition NewCluster :: cluster where
  "NewCluster = \<lparr>cl_Nodes = [], cl_LeaderID = '''', cl_Term = 0, cl_CommitIndex = 0\<rparr>"

definition Cluster_AddNode :: "cluster \<Rightarrow> node \<Rightarrow> cluster" where
  "Cluster_AddNode c n = c\<lparr>cl_Nodes := gm_put (node_ID n) n (cl_Nodes c)\<rparr>"

definition Cluster_RemoveNode :: "cluster \<Rightarrow> string \<Rightarrow> cluster" where
  "Cluster_RemoveNode c nid = c\<lparr>cl_Nodes := gm_del nid (cl_Nodes c)\<rparr>"

definition Cluster_GetNode :: "cluster \<Rightarrow> string \<Rightarrow> node option" where
  "Cluster_GetNode c nid = map_of (cl_Nodes c) nid"

definition Cluster_GetLeader :: "cluster \<Rightarrow> node option" where
  "Cluster_GetLeader c =
     (if cl_LeaderID c = '''' then None else map_of (cl_Nodes c) (cl_LeaderID c))"

definition Cluster_GetNodeCount :: "cluster \<Rightarrow> nat" where
  "Cluster_GetNodeCount c = length (cl_Nodes c)"

definition Cluster_GetQuorum :: "cluster \<Rightarrow> nat" where
  "Cluster_GetQuorum c = length (cl_Nodes c) div 2 + 1"

subsection \<open>Invariant and member sets\<close>

definition cluster_wf :: "cluster \<Rightarrow> bool" where
  "cluster_wf c \<longleftrightarrow> gm_wf (cl_Nodes c) \<and> (\<forall>k n. map_of (cl_Nodes c) k = Some n \<longrightarrow> node_ID n = k)"

definition members :: "cluster \<Rightarrow> string set" where
  "members c = fst ` set (cl_Nodes c)"

lemma cluster_wf_New [simp]: "cluster_wf NewCluster"
  by (simp add: cluster_wf_def NewCluster_def)

lemma cluster_wf_Add: "cluster_wf c \<Longrightarrow> cluster_wf (Cluster_AddNode c n)"
  unfolding cluster_wf_def Cluster_AddNode_def
  by (auto simp: distinct_update)

lemma cluster_wf_Remove: "cluster_wf c \<Longrightarrow> cluster_wf (Cluster_RemoveNode c nid)"
  unfolding cluster_wf_def Cluster_RemoveNode_def
  by (auto simp: distinct_delete)

lemma card_members: "cluster_wf c \<Longrightarrow> card (members c) = length (cl_Nodes c)"
  by (simp add: members_def cluster_wf_def distinct_card flip: set_map)

lemma members_Add [simp]: "members (Cluster_AddNode c n) = insert (node_ID n) (members c)"
  by (simp add: members_def Cluster_AddNode_def dom_update flip: dom_map_of_conv_image_fst)

lemma members_Remove [simp]: "members (Cluster_RemoveNode c nid) = members c - {nid}"
  by (simp add: members_def Cluster_RemoveNode_def flip: dom_map_of_conv_image_fst)

lemma finite_members [simp]: "finite (members c)"
  by (simp add: members_def)

definition is_quorum :: "cluster \<Rightarrow> string set \<Rightarrow> bool" where
  "is_quorum c Q \<longleftrightarrow> Q \<subseteq> members c \<and> Cluster_GetQuorum c \<le> card Q"

lemma majority_overlap:
  assumes "finite A" and "finite B" and "P \<subseteq> A" and "Q \<subseteq> B"
    and "card (A \<union> B) < card P + card Q"
  shows "P \<inter> Q \<noteq> {}"
proof
  assume "P \<inter> Q = {}"
  with assms have "card (P \<union> Q) = card P + card Q"
    by (intro card_Un_disjoint) (auto intro: finite_subset)
  moreover have "card (P \<union> Q) \<le> card (A \<union> B)" using assms by (intro card_mono) auto
  ultimately show False using assms(5) by simp
qed

subsection \<open>Properties\<close>

text \<open>
  C9: Quorums intersect, also across a change of one member: any two sets of nodes that
  reach the quorum of a cluster share a node, and so do a quorum of the cluster and a
  quorum of the cluster after one \<^verbatim>\<open>AddNode\<close> or one \<^verbatim>\<open>RemoveNode\<close>.
\<close>

theorem quorums_intersect:
  assumes "cluster_wf c" and "c' \<in> {c, Cluster_AddNode c n, Cluster_RemoveNode c nid}"
    and "is_quorum c P" and "is_quorum c' Q"
  shows "P \<inter> Q \<noteq> {}"
proof (rule majority_overlap)
  have wf': "cluster_wf c'" using assms(1,2) cluster_wf_Add cluster_wf_Remove by auto
  note card = card_members [OF assms(1)] card_members [OF wf']
  have "card (members c \<union> members c') \<le> max (card (members c)) (card (members c'))
      \<and> card (members c') \<le> Suc (card (members c)) \<and> card (members c) \<le> Suc (card (members c'))"
    using assms(2) by (auto simp: card_insert_if insert_absorb Un_absorb1 Un_absorb2 card_Diff_singleton_if)
  then show "card (members c \<union> members c') < card P + card Q"
    using assms(3,4) card unfolding is_quorum_def Cluster_GetQuorum_def by linarith
qed (use assms(3,4) in \<open>auto simp: is_quorum_def\<close>)

theorem quorums_intersect_witness:
  "let c = Cluster_AddNode (Cluster_AddNode NewCluster (NewNode ''a'' [] 0 0)) (NewNode ''b'' [] 0 0)
   in {''a'', ''b''} \<inter> {''b'', ''c''} \<noteq> ({} :: string set) \<and>
      is_quorum c {''a'', ''b''} \<and> is_quorum (Cluster_AddNode c (NewNode ''c'' [] 0 0)) {''b'', ''c''}"
proof -
  define c where "c = Cluster_AddNode (Cluster_AddNode NewCluster (NewNode ''a'' [] 0 0)) (NewNode ''b'' [] 0 0)"
  let ?c' = "Cluster_AddNode c (NewNode ''c'' [] 0 0)"
  have "cluster_wf c" by (simp add: c_def cluster_wf_Add)
  moreover have q: "is_quorum c {''a'', ''b''}" "is_quorum ?c' {''b'', ''c''}"
    by (simp_all add: is_quorum_def c_def)
      (simp_all add: Cluster_AddNode_def Cluster_GetQuorum_def NewNode_def NewCluster_def members_def)
  ultimately have "{''a'', ''b''} \<inter> {''b'', ''c''} \<noteq> ({} :: string set)"
    by (intro quorums_intersect [where c = c and c' = ?c' and n = "NewNode ''c'' [] 0 0"]) auto
  with q show ?thesis by (simp add: c_def [symmetric])
qed

end
