(* ===== verification/Json_Data.thy ===== *)
theory Json_Data
  imports Complex_Main Go_Prelude
begin

text \<open>
  The values that \<^verbatim>\<open>encoding/json\<close> gives to Go code that decodes into \<^verbatim>\<open>interface{}\<close>, the type
  assertions the modelled packages make on them, and the broker's metrics record
  (\<^verbatim>\<open>broker/internal/models/models.go\<close>). A \<^verbatim>\<open>float64\<close> is a real number: rounding is not modelled.
\<close>

subsection \<open>Decoded values\<close>

datatype json = JNull | JBool bool | JNum real | JStr string | JArr "json list"
  | JObj "(string \<times> json) list"

text \<open>
  Type assertions \<^verbatim>\<open>m[k].(T)\<close>; a missing key gives the nil interface, on which every
  assertion fails.
\<close>

fun as_string :: "json option \<Rightarrow> string option" where
  "as_string (Some (JStr s)) = Some s"
| "as_string _ = None"

fun as_float :: "json option \<Rightarrow> real option" where
  "as_float (Some (JNum x)) = Some x"
| "as_float _ = None"

fun as_array :: "json option \<Rightarrow> json list option" where
  "as_array (Some (JArr xs)) = Some xs"
| "as_array _ = None"

fun as_object :: "json option \<Rightarrow> (string \<times> json) list option" where
  "as_object (Some (JObj m)) = Some m"
| "as_object _ = None"

text \<open>\<^verbatim>\<open>x, _ := v.(T)\<close>: the zero value when the assertion fails.\<close>

definition string_or_empty :: "json option \<Rightarrow> string" where
  "string_or_empty v = (case as_string v of None \<Rightarrow> [] | Some s \<Rightarrow> s)"

definition float_or_zero :: "json option \<Rightarrow> real" where
  "float_or_zero v = (case as_float v of None \<Rightarrow> 0 | Some x \<Rightarrow> x)"

text \<open>\<^verbatim>\<open>int64(x)\<close> drops the fraction (for values in range).\<close>

definition go_int64 :: "real \<Rightarrow> int" where
  "go_int64 x = (if 0 \<le> x then \<lfloor>x\<rfloor> else \<lceil>x\<rceil>)"

lemma go_int64_of_int [simp]: "go_int64 (of_int i) = i"
  by (simp add: go_int64_def)

subsection \<open>Metrics\<close>

record metrics_data =
  md_HostID :: string
  md_Timestamp :: int
  md_Metrics :: "(string, json) gomap"
  md_Tags :: "(string, string) gomap"

end
