(* ===== verification/Raft_FSM.thy ===== *)
theory Raft_FSM
  imports Json_Data
begin

text \<open>
  The replicated state machine of \<^verbatim>\<open>broker/internal/raft/fsm.go\<close>. Log entries come from the
  Raft library as an index, a term and bytes. The JSON codec is a parameter (record
  \<open>fsm_codec\<close>), and so is the metrics store: its state is part of the machine, and
  \<open>SaveMetricsData\<close> is a function on that state that can succeed, fail or panic. The mutex
  makes every operation atomic. The data map is never nil: a snapshot is encoded from a made
  map, so it is an object and not \<^verbatim>\<open>null\<close>.
\<close>

subsection \<open>Data\<close>

text \<open>\<^verbatim>\<open>CommandType\<close> is an integer; the named constants are 0 to 4.\<close>

definition CommandSet :: int where "CommandSet = 0"
definition CommandDelete :: int where "CommandDelete = 1"
definition CommandUpdate :: int where "CommandUpdate = 2"
definition CommandIncrement :: int where "CommandIncrement = 3"
definition CommandExpire :: int where "CommandExpire = 4"

lemmas command_types = CommandSet_def CommandDelete_def CommandUpdate_def CommandIncrement_def
  CommandExpire_def

record fsm_command =
  cmd_Type :: int
  cmd_Key :: string
  cmd_Value :: string
  cmd_TTL :: duration
  cmd_Meta :: "(string, json) gomap"

record fsm_codec =
  parse_json :: "string \<Rightarrow> json option"
  parse_command :: "string \<Rightarrow> fsm_command option"
  parse_int :: "string \<Rightarrow> int option"
  print_json :: "json \<Rightarrow> string option"
  print_int :: "int \<Rightarrow> string"
  encode_data :: "(string \<rightharpoonup> string) \<Rightarrow> string option"
  decode_data :: "string \<Rightarrow> (string \<rightharpoonup> string) option"

datatype save_result = Saved | SaveFailed string | SavePanicked

datatype fsm_error = BadCommand | BadGeneric | UnknownGeneric string | InvalidBatch
  | StorageError string | StoragePanic | DecodeError | EncodeError | CloseError

record 'r fsm =
  fsm_data :: "string \<rightharpoonup> string"
  fsm_lastIndex :: u64
  fsm_lastTerm :: u64
  fsm_storage :: "'r option"

record raft_entry =
  re_Index :: u64
  re_Term :: u64
  re_Data :: string

type_synonym 'r saver = "metrics_data \<Rightarrow> 'r \<Rightarrow> 'r \<times> save_result"

subsection \<open>Operations\<close>

definition NewFSM :: "'r option \<Rightarrow> 'r fsm" where
  "NewFSM st = \<lparr>fsm_data = Map.empty, fsm_lastIndex = 0, fsm_lastTerm = 0, fsm_storage = st\<rparr>"

text \<open>Decoding into a \<^verbatim>\<open>map[string]interface{}\<close>: an object, or \<^verbatim>\<open>null\<close> which leaves the map nil.\<close>

definition parse_map :: "fsm_codec \<Rightarrow> string \<Rightarrow> (string \<times> json) list option" where
  "parse_map cd d = (case parse_json cd d of
     Some (JObj m) \<Rightarrow> Some m | Some JNull \<Rightarrow> Some [] | _ \<Rightarrow> None)"

definition marshal :: "fsm_codec \<Rightarrow> json \<Rightarrow> string" where
  "marshal cd j = (case print_json cd j of None \<Rightarrow> [] | Some d \<Rightarrow> d)"

text \<open>The host, the timestamp and the key of one batch item.\<close>

definition item_host :: "(string \<times> json) list \<Rightarrow> string" where
  "item_host m =
     (let hostID = string_or_empty (map_of m ''hostId'')
      in if hostID = [] then string_or_empty (map_of m ''host_id'') else hostID)"

definition item_time :: "(string \<times> json) list \<Rightarrow> int" where
  "item_time m = go_int64 (float_or_zero (map_of m ''timestamp''))"

definition metrics_key :: "string \<Rightarrow> int \<Rightarrow> string" where
  "metrics_key hostID ts = ''monitor:metrics:'' @ hostID @ '':'' @ itoa ts"

definition metric_value :: "(string \<times> json) list \<Rightarrow> json option" where
  "metric_value metric =
     (case as_string (map_of metric ''value'') of
        Some s \<Rightarrow> Some (JStr s)
      | None \<Rightarrow> (case as_float (map_of metric ''value'') of Some x \<Rightarrow> Some (JNum x) | None \<Rightarrow> None))"

definition put_metric :: "json \<Rightarrow> (string, json) gomap \<Rightarrow> (string, json) gomap" where
  "put_metric j acc = (case as_object (Some j) of
     None \<Rightarrow> acc
   | Some metric \<Rightarrow>
       (let name = string_or_empty (map_of metric ''name'');
            name = (if name = [] then string_or_empty (map_of metric ''Name'') else name);
            unit = string_or_empty (map_of metric ''unit'')
        in case metric_value metric of
             None \<Rightarrow> acc
           | Some val \<Rightarrow>
               if name \<noteq> [] then gm_put name (JObj [(''value'', val), (''unit'', JStr unit)]) acc
               else acc))"

definition put_tag :: "json \<Rightarrow> (string, string) gomap \<Rightarrow> (string, string) gomap" where
  "put_tag j acc = (case as_object (Some j) of
     None \<Rightarrow> acc
   | Some tag \<Rightarrow>
       (let key = string_or_empty (map_of tag ''key''); value = string_or_empty (map_of tag ''value'')
        in if key \<noteq> [] \<and> value \<noteq> [] then gm_put key value acc else acc))"

definition item_metrics :: "(string \<times> json) list \<Rightarrow> metrics_data" where
  "item_metrics m = \<lparr>md_HostID = item_host m, md_Timestamp = item_time m,
     md_Metrics = (case as_array (map_of m ''metrics'') of
                     None \<Rightarrow> [] | Some xs \<Rightarrow> fold put_metric xs []),
     md_Tags = (case as_array (map_of m ''tags'') of None \<Rightarrow> [] | Some xs \<Rightarrow> fold put_tag xs [])\<rparr>"

fun batch_loop ::
    "fsm_codec \<Rightarrow> 'r saver \<Rightarrow> 'r fsm \<Rightarrow> json list \<Rightarrow> 'r fsm \<times> fsm_error option" where
  "batch_loop cd save f [] = (f, None)"
| "batch_loop cd save f (item # rest) =
     (case as_object (Some item) of
        None \<Rightarrow> batch_loop cd save f rest
      | Some m \<Rightarrow>
          (let f = f\<lparr>fsm_data := (fsm_data f)(metrics_key (item_host m) (item_time m) \<mapsto>
                                              marshal cd (JObj m))\<rparr>
           in case fsm_storage f of
                None \<Rightarrow> batch_loop cd save f rest
              | Some r \<Rightarrow>
                  (case save (item_metrics m) r of
                     (r', res) \<Rightarrow>
                       (let f = f\<lparr>fsm_storage := Some r'\<rparr>
                        in case res of
                             Saved \<Rightarrow> batch_loop cd save f rest
                           | SaveFailed e \<Rightarrow> (f, Some (StorageError e))
                           | SavePanicked \<Rightarrow> (f, Some StoragePanic)))))"

definition FSM_applyBatchMetrics ::
    "fsm_codec \<Rightarrow> 'r saver \<Rightarrow> 'r fsm \<Rightarrow> (string \<times> json) list \<Rightarrow> 'r fsm \<times> fsm_error option" where
  "FSM_applyBatchMetrics cd save f cmd = (case as_array (map_of cmd ''batch'') of
     None \<Rightarrow> (f, Some InvalidBatch)
   | Some batch \<Rightarrow> batch_loop cd save f batch)"

definition FSM_applyHostRegistration ::
    "fsm_codec \<Rightarrow> 'r fsm \<Rightarrow> (string \<times> json) list \<Rightarrow> 'r fsm \<times> fsm_error option" where
  "FSM_applyHostRegistration cd f cmd =
     (let hostID = string_or_empty (map_of cmd ''host_id'')
      in (f\<lparr>fsm_data := (fsm_data f)(''host:'' @ hostID \<mapsto> marshal cd (JObj cmd))\<rparr>, None))"

definition FSM_applyConfigUpdate ::
    "fsm_codec \<Rightarrow> 'r fsm \<Rightarrow> (string \<times> json) list \<Rightarrow> 'r fsm \<times> fsm_error option" where
  "FSM_applyConfigUpdate cd f cmd =
     (f\<lparr>fsm_data := (fsm_data f)(''config:current'' \<mapsto> marshal cd (JObj cmd))\<rparr>, None)"

text \<open>The assertion \<^verbatim>\<open>genericCmd["type"].(string)\<close> has no second result: it panics when it fails.\<close>

definition FSM_applyGenericCommand ::
    "fsm_codec \<Rightarrow> 'r saver \<Rightarrow> 'r fsm \<Rightarrow> string \<Rightarrow> (unit, 'r fsm \<times> fsm_error option) outcome" where
  "FSM_applyGenericCommand cd save f rawData = (case parse_map cd rawData of
     None \<Rightarrow> Ok (f, Some BadGeneric)
   | Some cmd \<Rightarrow>
       (case as_string (map_of cmd ''type'') of
          None \<Rightarrow> Panic
        | Some cmdType \<Rightarrow>
            if cmdType = ''batch_metrics'' then Ok (FSM_applyBatchMetrics cd save f cmd)
            else if cmdType = ''host_registration'' then Ok (FSM_applyHostRegistration cd f cmd)
            else if cmdType = ''config_update'' then Ok (FSM_applyConfigUpdate cd f cmd)
            else Ok (f, Some (UnknownGeneric cmdType))))"

definition increment_value :: "fsm_codec \<Rightarrow> string \<Rightarrow> string \<Rightarrow> string" where
  "increment_value cd val value = (case parse_int cd val of
     None \<Rightarrow> val
   | Some current \<Rightarrow> (case parse_int cd value of
       None \<Rightarrow> val
     | Some increment \<Rightarrow> print_int cd (add64 current increment)))"

text \<open>The \<^verbatim>\<open>switch\<close> of \<^verbatim>\<open>Apply\<close> on a standard command.\<close>

definition apply_command :: "fsm_codec \<Rightarrow> (string \<rightharpoonup> string) \<Rightarrow> fsm_command \<Rightarrow> string \<rightharpoonup> string" where
  "apply_command cd d cmd =
     (if cmd_Type cmd = CommandSet then d(cmd_Key cmd \<mapsto> cmd_Value cmd)
      else if cmd_Type cmd = CommandDelete then d(cmd_Key cmd := None)
      else if cmd_Type cmd = CommandUpdate then
        (case d (cmd_Key cmd) of None \<Rightarrow> d | Some _ \<Rightarrow> d(cmd_Key cmd \<mapsto> cmd_Value cmd))
      else if cmd_Type cmd = CommandIncrement then
        (case d (cmd_Key cmd) of
           None \<Rightarrow> d | Some val \<Rightarrow> d(cmd_Key cmd \<mapsto> increment_value cd val (cmd_Value cmd)))
      else d(cmd_Key cmd := None))"

definition is_generic :: "fsm_codec \<Rightarrow> string \<Rightarrow> bool" where
  "is_generic cd d = (case parse_map cd d of
     None \<Rightarrow> False
   | Some m \<Rightarrow> (case as_string (map_of m ''type'') of None \<Rightarrow> False | Some t \<Rightarrow> t \<noteq> []))"

definition FSM_Apply ::
    "fsm_codec \<Rightarrow> 'r saver \<Rightarrow> 'r fsm \<Rightarrow> raft_entry \<Rightarrow> (unit, 'r fsm \<times> fsm_error option) outcome" where
  "FSM_Apply cd save f logEntry =
     (let f = f\<lparr>fsm_lastIndex := re_Index logEntry, fsm_lastTerm := re_Term logEntry\<rparr>
      in if is_generic cd (re_Data logEntry) then FSM_applyGenericCommand cd save f (re_Data logEntry)
         else (case parse_command cd (re_Data logEntry) of
                 None \<Rightarrow> Ok (f, Some BadCommand)
               | Some cmd \<Rightarrow>
                   if CommandSet \<le> cmd_Type cmd \<and> cmd_Type cmd \<le> CommandExpire
                   then Ok (f\<lparr>fsm_data := apply_command cd (fsm_data f) cmd\<rparr>, None)
                   else FSM_applyGenericCommand cd save f (re_Data logEntry)))"

definition FSM_Snapshot :: "'r fsm \<Rightarrow> string \<rightharpoonup> string" where
  "FSM_Snapshot f = fsm_data f"

text \<open>
  \<^verbatim>\<open>Persist\<close> writes to the sink and closes it, or cancels it. The sink's write and close can fail.
\<close>

datatype sink = SinkOpen | SinkClosed string | SinkCancelled

definition FSMSnapshot_Persist ::
    "fsm_codec \<Rightarrow> bool \<Rightarrow> bool \<Rightarrow> (string \<rightharpoonup> string) \<Rightarrow> sink \<times> fsm_error option" where
  "FSMSnapshot_Persist cd write_ok close_ok d = (case encode_data cd d of
     None \<Rightarrow> (SinkCancelled, Some EncodeError)
   | Some bytes \<Rightarrow>
       if \<not> write_ok then (SinkCancelled, Some EncodeError)
       else if close_ok then (SinkClosed bytes, None)
       else (SinkOpen, Some CloseError))"

definition FSM_Restore :: "fsm_codec \<Rightarrow> 'r fsm \<Rightarrow> string \<Rightarrow> 'r fsm \<times> fsm_error option" where
  "FSM_Restore cd f rc = (case decode_data cd rc of
     None \<Rightarrow> (f, Some DecodeError)
   | Some d \<Rightarrow> (f\<lparr>fsm_data := d\<rparr>, None))"

definition FSM_Get :: "'r fsm \<Rightarrow> string \<Rightarrow> string option" where
  "FSM_Get f key = fsm_data f key"

definition FSM_GetLastIndex :: "'r fsm \<Rightarrow> u64" where
  "FSM_GetLastIndex f = fsm_lastIndex f"

definition FSM_GetLastTerm :: "'r fsm \<Rightarrow> u64" where
  "FSM_GetLastTerm f = fsm_lastTerm f"

subsection \<open>Batches\<close>

lemma metrics_key_inject: "metrics_key h t = metrics_key h' t' \<longleftrightarrow> h = h' \<and> t = t'"
proof
  assume "metrics_key h t = metrics_key h' t'"
  then have "h @ CHR '':'' # itoa t = h' @ CHR '':'' # itoa t'" by (simp add: metrics_key_def)
  then show "h = h' \<and> t = t'" using append_sep_inject [of h _ "itoa t" h' "itoa t'"] itoa_inj by simp
qed simp

text \<open>The objects of a batch, and the data after a list of them has been stored in order.\<close>

definition batch_objects :: "json list \<Rightarrow> (string \<times> json) list list" where
  "batch_objects items = List.map_filter (\<lambda>j. as_object (Some j)) items"

definition store_item :: "fsm_codec \<Rightarrow> (string \<times> json) list \<Rightarrow> (string \<rightharpoonup> string) \<Rightarrow> (string \<rightharpoonup> string)" where
  "store_item cd m d = d(metrics_key (item_host m) (item_time m) \<mapsto> marshal cd (JObj m))"

lemma batch_objects_simps [simp]:
  "batch_objects [] = []"
  "batch_objects (j # js) = (case as_object (Some j) of None \<Rightarrow> batch_objects js | Some m \<Rightarrow> m # batch_objects js)"
  by (simp_all add: batch_objects_def List.map_filter_def split: option.splits)

lemma batch_loop_step:
  assumes "batch_loop cd save f (j # js) = (f', e)" and "as_object (Some j) = Some m"
  shows "\<exists>g. fsm_data g = store_item cd m (fsm_data f) \<and>
    fsm_lastIndex g = fsm_lastIndex f \<and> fsm_lastTerm g = fsm_lastTerm f \<and>
    (batch_loop cd save g js = (f', e) \<or>
     f' = g \<and> e \<in> {Some StoragePanic} \<union> Some ` range StorageError)"
proof (cases "fsm_storage f")
  case None
  with assms show ?thesis
    by (intro exI [of _ "f\<lparr>fsm_data := store_item cd m (fsm_data f)\<rparr>"])
      (auto simp: Let_def store_item_def simp del: fun_upd_apply)
next
  case (Some r)
  obtain r' res where "save (item_metrics m) r = (r', res)" by fastforce
  with Some assms show ?thesis
    by (intro exI [of _ "f\<lparr>fsm_data := store_item cd m (fsm_data f), fsm_storage := Some r'\<rparr>"])
      (auto simp: Let_def store_item_def split: save_result.splits)
qed

lemma batch_loop_prefix:
  "batch_loop cd save f items = (f', e) \<Longrightarrow>
     \<exists>n \<le> length (batch_objects items). fsm_data f' = fold (store_item cd) (take n (batch_objects items)) (fsm_data f) \<and>
       (e = None \<longrightarrow> n = length (batch_objects items)) \<and>
       e \<in> {None, Some StoragePanic} \<union> Some ` range StorageError \<and>
       fsm_lastIndex f' = fsm_lastIndex f \<and> fsm_lastTerm f' = fsm_lastTerm f"
proof (induction items arbitrary: f)
  case Nil
  then show ?case by simp
next
  case (Cons j js)
  show ?case
  proof (cases "as_object (Some j)")
    case None
    with Cons show ?thesis by simp
  next
    case (Some m)
    from batch_loop_step [OF Cons.prems Some] obtain g where
      g: "fsm_data g = store_item cd m (fsm_data f)" "fsm_lastIndex g = fsm_lastIndex f"
        "fsm_lastTerm g = fsm_lastTerm f"
      and nxt: "batch_loop cd save g js = (f', e) \<or>
        f' = g \<and> e \<in> {Some StoragePanic} \<union> Some ` range StorageError" by blast
    from nxt show ?thesis
    proof
      assume "batch_loop cd save g js = (f', e)"
      from Cons.IH [OF this] obtain n where "n \<le> length (batch_objects js)"
        "fsm_data f' = fold (store_item cd) (take n (batch_objects js)) (fsm_data g)"
        "e = None \<longrightarrow> n = length (batch_objects js)"
        "e \<in> {None, Some StoragePanic} \<union> Some ` range StorageError"
        "fsm_lastIndex f' = fsm_lastIndex g" "fsm_lastTerm f' = fsm_lastTerm g" by blast
      with g Some show ?thesis by (intro exI [of _ "Suc n"]) auto
    next
      assume "f' = g \<and> e \<in> {Some StoragePanic} \<union> Some ` range StorageError"
      with g Some show ?thesis by (intro exI [of _ 1]) auto
    qed
  qed
qed

lemma fold_store_item:
  "fold (store_item cd) ms d k =
    (case find (\<lambda>m. metrics_key (item_host m) (item_time m) = k) (rev ms) of
       None \<Rightarrow> d k | Some m \<Rightarrow> Some (marshal cd (JObj m)))"
  by (induction ms arbitrary: d rule: rev_induct) (auto simp: store_item_def split: option.splits)

lemma batch_loop_saved:
  assumes "batch_loop cd save f items = (f', None)"
  shows "fsm_data f' = fold (store_item cd) (batch_objects items) (fsm_data f)"
  using batch_loop_prefix [OF assms] by auto

definition storage_error :: "fsm_error option \<Rightarrow> bool" where
  "storage_error e = (case e of
     Some (StorageError _) \<Rightarrow> True | Some StoragePanic \<Rightarrow> True | _ \<Rightarrow> False)"

lemma batch_no_storage_error:
  assumes "batch_loop cd save f items = (f', e)" and "\<not> storage_error e"
  shows "e = None \<and> fsm_data f' = fold (store_item cd) (batch_objects items) (fsm_data f)"
  using batch_loop_prefix [OF assms(1)] assms(2) by (auto simp: storage_error_def)

lemma generic_index:
  "FSM_applyGenericCommand cd save f d = Ok (f', e) \<Longrightarrow>
     fsm_lastIndex f' = fsm_lastIndex f \<and> fsm_lastTerm f' = fsm_lastTerm f"
  by (auto simp: FSM_applyGenericCommand_def FSM_applyHostRegistration_def FSM_applyConfigUpdate_def
      FSM_applyBatchMetrics_def Let_def split: option.splits if_splits dest!: batch_loop_prefix)

lemma Apply_index:
  "FSM_Apply cd save f en = Ok (f', e) \<Longrightarrow>
     fsm_lastIndex f' = re_Index en \<and> fsm_lastTerm f' = re_Term en"
  by (auto simp: FSM_Apply_def Let_def split: if_splits option.splits dest!: generic_index)

lemma generic_agree:
  assumes "fsm_data f = fsm_data g"
    and "FSM_applyGenericCommand cd save f d = Ok (f', e)" and "\<not> storage_error e"
    and "FSM_applyGenericCommand cd save' g d = Ok (g', e')" and "\<not> storage_error e'"
  shows "fsm_data f' = fsm_data g' \<and> e = e'"
  using assms
  by (auto simp: FSM_applyGenericCommand_def FSM_applyHostRegistration_def FSM_applyConfigUpdate_def
      FSM_applyBatchMetrics_def Let_def split: option.splits if_splits
      dest!: batch_no_storage_error)

subsection \<open>A concrete batch\<close>

definition ex_items :: "json list" where
  "ex_items = [JObj [(''hostId'', JStr ''h''), (''timestamp'', JNum 7)],
     JObj [(''host_id'', JStr ''h''), (''timestamp'', JNum 7)]]"

definition ex_batch :: "(string \<times> json) list" where
  "ex_batch = [(''type'', JStr ''batch_metrics''), (''batch'', JArr ex_items)]"

definition ex_codec :: fsm_codec where
  "ex_codec = \<lparr>parse_json = (\<lambda>d. if d = ''batch'' then Some (JObj ex_batch) else None),
     parse_command = (\<lambda>_. None), parse_int = (\<lambda>_. None),
     print_json = (\<lambda>j. Some (if j = hd ex_items then ''A'' else ''B'')), print_int = itoa,
     encode_data = (\<lambda>d. if d = Map.empty then Some ''{}'' else None),
     decode_data = (\<lambda>b. if b = ''{}'' then Some Map.empty else None)\<rparr>"

definition ex_accept :: "unit saver" where
  "ex_accept md r = (r, Saved)"

definition ex_reject :: "unit saver" where
  "ex_reject md r = (r, SaveFailed ''connection refused'')"

definition ex_batch_entry :: raft_entry where
  "ex_batch_entry = \<lparr>re_Index = 1, re_Term = 1, re_Data = ''batch''\<rparr>"

lemma ex_objects:
  "batch_objects ex_items = [[(''hostId'', JStr ''h''), (''timestamp'', JNum 7)],
     [(''host_id'', JStr ''h''), (''timestamp'', JNum 7)]]"
  by (simp add: ex_items_def)

lemma go_int64_numeral [simp]: "go_int64 (numeral n) = numeral n"
  using go_int64_of_int [of "numeral n"] by simp

lemma ex_fields:
  "item_host [(''hostId'', JStr ''h''), (''timestamp'', JNum 7)] = ''h''"
  "item_host [(''host_id'', JStr ''h''), (''timestamp'', JNum 7)] = ''h''"
  "item_time [(''hostId'', JStr ''h''), (''timestamp'', JNum 7)] = 7"
  "item_time [(''host_id'', JStr ''h''), (''timestamp'', JNum 7)] = 7"
  by (simp_all add: item_host_def item_time_def string_or_empty_def float_or_zero_def)

lemma ex_batch_accept:
  "\<exists>f'. FSM_applyBatchMetrics ex_codec ex_accept f ex_batch = (f', None)"
  by (cases "fsm_storage f")
    (simp_all add: FSM_applyBatchMetrics_def ex_batch_def ex_items_def ex_accept_def)

lemma ex_Apply_generic:
  "FSM_Apply ex_codec save f ex_batch_entry =
     Ok (FSM_applyBatchMetrics ex_codec save (f\<lparr>fsm_lastIndex := 1, fsm_lastTerm := 1\<rparr>) ex_batch)"
  by (simp add: FSM_Apply_def is_generic_def parse_map_def FSM_applyGenericCommand_def ex_codec_def
      ex_batch_def ex_batch_entry_def)

subsection \<open>Properties\<close>

text \<open>
  C10: Replicas that apply the same log entry to the same data agree on the new data and on the
  response, whatever their metrics stores are, as long as neither store fails.
\<close>

theorem replicas_agree:
  fixes f :: "'r fsm" and g :: "'s fsm"
  assumes "fsm_data f = fsm_data g"
    and "FSM_Apply cd save f en = Ok (f', e)" and "\<not> storage_error e"
    and "FSM_Apply cd save' g en = Ok (g', e')" and "\<not> storage_error e'"
  shows "fsm_data f' = fsm_data g' \<and> e = e' \<and> FSM_GetLastIndex f' = FSM_GetLastIndex g'"
proof -
  have "fsm_lastIndex f' = re_Index en" "fsm_lastIndex g' = re_Index en"
    using Apply_index [OF assms(2)] Apply_index [OF assms(4)] by auto
  moreover have "fsm_data f' = fsm_data g' \<and> e = e'"
    using assms
    by (auto simp: FSM_Apply_def Let_def split: if_splits option.splits
        dest: generic_agree [rotated 1])
  ultimately show ?thesis by (simp add: FSM_GetLastIndex_def)
qed

theorem replicas_agree_witness:
  "\<exists>f' g'. FSM_Apply ex_codec ex_accept (NewFSM (Some ())) ex_batch_entry = Ok (f', None) \<and>
     FSM_Apply ex_codec ex_accept (NewFSM (None :: unit option)) ex_batch_entry = Ok (g', None) \<and>
     fsm_data f' = fsm_data g' \<and> FSM_GetLastIndex f' = FSM_GetLastIndex g'"
proof -
  obtain f' g' where r: "FSM_Apply ex_codec ex_accept (NewFSM (Some ())) ex_batch_entry = Ok (f', None)"
    "FSM_Apply ex_codec ex_accept (NewFSM (None :: unit option)) ex_batch_entry = Ok (g', None)"
    using ex_batch_accept by (metis ex_Apply_generic)
  have "fsm_data (NewFSM (Some ())) = fsm_data (NewFSM (None :: unit option))" by (simp add: NewFSM_def)
  from replicas_agree [OF this r(1) _ r(2)] r show ?thesis by (simp add: storage_error_def)
qed

text \<open>
  A batch stores its objects in order. Whatever the store answers, some first part of the
  batch has been stored, all of it when no error is returned, and then a lookup gives the
  last object of that part with the key's host and timestamp; every other key is as before.
\<close>

theorem batch_lookup:
  assumes "FSM_applyBatchMetrics cd save f cmd = (f', e)" and "map_of cmd ''batch'' = Some (JArr items)"
  shows "\<exists>n \<le> length (batch_objects items). (e = None \<longrightarrow> n = length (batch_objects items)) \<and>
    (\<forall>h t. FSM_Get f' (metrics_key h t) =
      (case find (\<lambda>m. item_host m = h \<and> item_time m = t) (rev (take n (batch_objects items))) of
         None \<Rightarrow> FSM_Get f (metrics_key h t) | Some m \<Rightarrow> Some (marshal cd (JObj m)))) \<and>
    (\<forall>k. (\<nexists>h t. k = metrics_key h t) \<longrightarrow> FSM_Get f' k = FSM_Get f k)"
proof -
  from assms have "batch_loop cd save f items = (f', e)" by (simp add: FSM_applyBatchMetrics_def)
  from batch_loop_prefix [OF this] obtain n where n: "n \<le> length (batch_objects items)"
    "e = None \<longrightarrow> n = length (batch_objects items)"
    "fsm_data f' = fold (store_item cd) (take n (batch_objects items)) (fsm_data f)" by blast
  have other: "find (\<lambda>m. metrics_key (item_host m) (item_time m) = k) ms = None"
    if "\<nexists>h t. k = metrics_key h t" for k ms using that by (auto simp: find_None_iff)
  show ?thesis
    by (rule exI [of _ n]) (use n other in \<open>simp add: FSM_Get_def fold_store_item metrics_key_inject cong: option.case_cong\<close>)
qed

theorem batch_lookup_witness:
  "FSM_Get (fst (FSM_applyBatchMetrics ex_codec ex_accept (NewFSM (Some ())) ex_batch)) (metrics_key ''h'' 7) =
     Some ''B''"
proof -
  obtain f' where r: "FSM_applyBatchMetrics ex_codec ex_accept (NewFSM (Some ())) ex_batch = (f', None)"
    using ex_batch_accept by blast
  have "map_of ex_batch ''batch'' = Some (JArr ex_items)" by (simp add: ex_batch_def)
  from batch_lookup [OF r this] r show ?thesis
    by (simp add: ex_objects ex_fields marshal_def ex_codec_def ex_items_def)
qed

text \<open>
  C11: Applying an entry crashes exactly when it decodes as a command whose type number is none of
  the five known ones and its \<^verbatim>\<open>"type"\<close> field is not a string: the unchecked assertion in
  \<^verbatim>\<open>applyGenericCommand\<close> fails. No other entry makes \<^verbatim>\<open>Apply\<close> panic, and none blocks it.
\<close>

theorem Apply_panics_iff:
  "(FSM_Apply cd save f en = Panic \<longleftrightarrow>
      (\<exists>cmd m. parse_command cd (re_Data en) = Some cmd \<and> cmd_Type cmd \<notin> {0..4} \<and>
         parse_map cd (re_Data en) = Some m \<and> as_string (map_of m ''type'') = None)) \<and>
   FSM_Apply cd save f en \<noteq> Blocks"
proof -
  have "FSM_applyGenericCommand cd save g d = Panic \<longleftrightarrow>
      (\<exists>m. parse_map cd d = Some m \<and> as_string (map_of m ''type'') = None)"
    "FSM_applyGenericCommand cd save g d \<noteq> Blocks" for g d
    by (auto simp: FSM_applyGenericCommand_def split: option.splits)
  then show ?thesis
    by (auto simp: FSM_Apply_def Let_def is_generic_def command_types split: option.splits)
qed



text \<open>
  Replicas whose stores answer differently diverge: the one whose store rejects the first
  object never stores the second one, although both applied the same entry to the same data.
\<close>

lemma replicas_diverge:
  "\<exists>f' g' e. FSM_Apply ex_codec ex_accept (NewFSM (Some ())) ex_batch_entry = Ok (f', None) \<and>
     FSM_Apply ex_codec ex_reject (NewFSM (Some ())) ex_batch_entry = Ok (g', Some e) \<and>
     fsm_data f' \<noteq> fsm_data g'"
proof -
  have "fst (FSM_applyBatchMetrics ex_codec ex_reject f ex_batch) =
      f\<lparr>fsm_data := (fsm_data f)(metrics_key ''h'' 7 \<mapsto> ''A'')\<rparr> \<and>
    snd (FSM_applyBatchMetrics ex_codec ex_reject f ex_batch) = Some (StorageError ''connection refused'')"
    if "fsm_storage f = Some ()" for f
    using that by (simp add: FSM_applyBatchMetrics_def ex_batch_def ex_items_def ex_reject_def
      ex_fields ex_codec_def marshal_def Let_def)
  moreover have "fsm_data (fst (FSM_applyBatchMetrics ex_codec ex_accept f ex_batch)) (metrics_key ''h'' 7) = Some ''B'' \<and>
    snd (FSM_applyBatchMetrics ex_codec ex_accept f ex_batch) = None" if "fsm_storage f = Some ()" for f
    using that by (simp add: FSM_applyBatchMetrics_def ex_batch_def ex_items_def ex_accept_def
      ex_fields ex_codec_def marshal_def Let_def)
  moreover have "fsm_storage (NewFSM (Some ())\<lparr>fsm_lastIndex := 1, fsm_lastTerm := 1\<rparr>) = Some ()"
    by (simp add: NewFSM_def)
  ultimately show ?thesis
    unfolding ex_Apply_generic outcome.inject prod_eq_iff fst_conv snd_conv by fastforce
qed

end
