(* ===== verification/Time_Wheel.thy ===== *)
theory Time_Wheel
  imports Go_Prelude
begin

text \<open>
  The hierarchical time wheel of \<^verbatim>\<open>pkg/algorithm/time_wheel.go\<close>. A wheel and the wheels that
  \<^verbatim>\<open>nextTimeWheel\<close> leads to are a list of levels. The slots and the task map of a level share
  pointers to task elements, and the code marks an element removed through one and reads the
  mark through the other; so the elements of a level live in a store (\<open>heap\<close>) and slots, map
  and channel hold their addresses. Elements are never shared between levels. A task that a
  tick starts (\<^verbatim>\<open>go task.task.Execute()\<close>) is reported by its address.

  The mutex of a level makes each locked section one step. A send on a full channel waits; the
  operation then has the outcome \<^term>\<open>Blocks\<close>.
\<close>

subsection \<open>Data\<close>

record ('k, 't) task_element =
  te_task :: 't
  te_delay :: duration
  te_key :: 'k
  te_circle :: int
  te_removed :: bool

record ('k, 't) level =
  interval :: duration
  slots :: "nat list list"
  currentPos :: nat
  slotNum :: nat
  addTaskChan :: "nat chan"
  taskMap :: "('k, nat) gomap"
  heap :: "('k, 't) task_element list"
  runners :: nat

type_synonym ('k, 't) time_wheel = "('k, 't) level list"

definition NewTimeWheel :: "duration \<Rightarrow> int \<Rightarrow> ('k, 't) level option" where
  "NewTimeWheel iv n =
     (if iv \<le> 0 \<or> n \<le> 0 then None
      else Some \<lparr>interval = iv, slots = replicate (nat n) [], currentPos = 0, slotNum = nat n,
                 addTaskChan = chan_make 1000, taskMap = [], heap = [], runners = 0\<rparr>)"

subsection \<open>Operations\<close>

text \<open>\<open>runners\<close> counts the goroutines that execute \<^verbatim>\<open>run\<close> for the level.\<close>

definition TimeWheel_Start :: "('k, 't) level \<Rightarrow> ('k, 't) level" where
  "TimeWheel_Start w = w\<lparr>runners := runners w + 1\<rparr>"

text \<open>The send on the unbuffered stop channel waits for a \<^verbatim>\<open>run\<close> to receive it and return.\<close>

definition TimeWheel_Stop :: "('k, 't) level \<Rightarrow> (unit, ('k, 't) level) outcome" where
  "TimeWheel_Stop w = (if runners w = 0 then Blocks else Ok (w\<lparr>runners := runners w - 1\<rparr>))"

text \<open>The locked section that \<^verbatim>\<open>AddTask\<close> and \<^verbatim>\<open>RemoveTask\<close> begin with, and the send of \<^verbatim>\<open>AddTask\<close>.\<close>

definition unregister :: "('k, 't) level \<Rightarrow> 'k \<Rightarrow> ('k, 't) level" where
  "unregister w key = (case map_of (taskMap w) key of
     None \<Rightarrow> w
   | Some a \<Rightarrow> w\<lparr>heap := (heap w)[a := (heap w ! a)\<lparr>te_removed := True\<rparr>],
                 taskMap := gm_del key (taskMap w)\<rparr>)"

definition send_task :: "('k, 't) level \<Rightarrow> duration \<Rightarrow> 'k \<Rightarrow> 't \<Rightarrow> (unit, ('k, 't) level) outcome" where
  "send_task w delay key task =
     (case chan_send (length (heap w)) (addTaskChan w) of
        Ok c \<Rightarrow> Ok (w\<lparr>addTaskChan := c,
          heap := heap w @ [\<lparr>te_task = task, te_delay = delay, te_key = key, te_circle = 0,
                             te_removed = False\<rparr>]\<rparr>)
      | Err e \<Rightarrow> Err e | Panic \<Rightarrow> Panic | Blocks \<Rightarrow> Blocks)"

definition TimeWheel_AddTask ::
    "('k, 't) level \<Rightarrow> duration \<Rightarrow> 'k \<Rightarrow> 't \<Rightarrow> (unit, ('k, 't) level) outcome" where
  "TimeWheel_AddTask w delay key task =
     (if delay < 0 then Ok w else send_task (unregister w key) delay key task)"

fun TimeWheel_RemoveTask :: "('k, 't) time_wheel \<Rightarrow> 'k \<Rightarrow> ('k, 't) time_wheel" where
  "TimeWheel_RemoveTask [] key = []"
| "TimeWheel_RemoveTask (w # ws) key = unregister w key # TimeWheel_RemoveTask ws key"

fun TimeWheel_HasTask :: "('k, 't) time_wheel \<Rightarrow> 'k \<Rightarrow> bool" where
  "TimeWheel_HasTask [] key = False"
| "TimeWheel_HasTask (w # ws) key =
     (if map_of (taskMap w) key = None then TimeWheel_HasTask ws key else True)"

fun TimeWheel_GetTaskCount :: "('k, 't) time_wheel \<Rightarrow> nat" where
  "TimeWheel_GetTaskCount [] = 0"
| "TimeWheel_GetTaskCount (w # ws) = length (taskMap w) + TimeWheel_GetTaskCount ws"

text \<open>
  The walk over the current slot: the elements that stay, the level with its task map and
  circles updated, and the elements that are executed.
\<close>

fun tick_loop :: "nat list \<Rightarrow> ('k, 't) level \<Rightarrow> nat list \<times> ('k, 't) level \<times> nat list" where
  "tick_loop [] w = ([], w, [])"
| "tick_loop (a # as) w =
     (let task = heap w ! a
      in if te_removed task then tick_loop as w
         else if 0 < te_circle task then
           (let (keep, w', run) =
                  tick_loop as (w\<lparr>heap := (heap w)[a := task\<lparr>te_circle := te_circle task - 1\<rparr>]\<rparr>)
            in (a # keep, w', run))
         else
           (let (keep, w', run) = tick_loop as (w\<lparr>taskMap := gm_del (te_key task) (taskMap w)\<rparr>)
            in (keep, w', a # run)))"

definition TimeWheel_tickHandler :: "('k, 't) level \<Rightarrow> ('k, 't) level \<times> nat list" where
  "TimeWheel_tickHandler w =
     (let (keep, w', run) = tick_loop (slots w ! currentPos w) w
      in (w'\<lparr>slots := (slots w)[currentPos w := keep],
             currentPos := (currentPos w + 1) mod slotNum w\<rparr>, run))"

definition delaySlots :: "('k, 't) level \<Rightarrow> nat \<Rightarrow> nat" where
  "delaySlots w a = nat (go_div (te_delay (heap w ! a)) (interval w))"

text \<open>The second half of \<^verbatim>\<open>addTask\<close>, when the delay fits this level.\<close>

definition place :: "('k, 't) level \<Rightarrow> nat \<Rightarrow> ('k, 't) level" where
  "place w a =
     (let pos = (currentPos w + delaySlots w a) mod slotNum w;
          circle = delaySlots w a div slotNum w;
          task = (heap w ! a)\<lparr>te_circle := int circle\<rparr>
      in w\<lparr>heap := (heap w)[a := task], slots := (slots w)[pos := slots w ! pos @ [a]],
           taskMap := gm_put (te_key task) a (taskMap w)\<rparr>)"

text \<open>\<^verbatim>\<open>addTask\<close> on a level and the levels after it; a missing next level is created and started.\<close>

definition next_levels :: "('k, 't) level \<Rightarrow> ('k, 't) time_wheel \<Rightarrow> ('k, 't) time_wheel" where
  "next_levels w ws = (case ws of
     [] \<Rightarrow> (case NewTimeWheel (mul64 (interval w) (int (slotNum w))) (int (slotNum w)) of
              None \<Rightarrow> [] | Some n \<Rightarrow> [TimeWheel_Start n])
   | _ \<Rightarrow> ws)"

definition TimeWheel_addTask ::
    "('k, 't) level \<Rightarrow> ('k, 't) time_wheel \<Rightarrow> nat \<Rightarrow> (unit, ('k, 't) time_wheel) outcome" where
  "TimeWheel_addTask w ws a =
     (if slotNum w \<le> delaySlots w a then
        (case next_levels w ws of
           [] \<Rightarrow> Panic
         | n # rest \<Rightarrow>
             (let task = heap w ! a
              in case TimeWheel_AddTask n (te_delay task) (te_key task) (te_task task) of
                   Ok n' \<Rightarrow> Ok (w # n' # rest)
                 | Err e \<Rightarrow> Err e | Panic \<Rightarrow> Panic | Blocks \<Rightarrow> Blocks))
      else Ok (place w a # ws))"

text \<open>Receiving from the channel: the level without the first element of its buffer.\<close>

definition receive :: "('k, 't) level \<Rightarrow> ('k, 't) level" where
  "receive w = w\<lparr>addTaskChan := (addTaskChan w)\<lparr>ch_buf := tl (ch_buf (addTaskChan w))\<rparr>\<rparr>"

subsection \<open>Steps\<close>

text \<open>
  What can happen to a wheel: the two halves of a caller's \<^verbatim>\<open>AddTask\<close>, a \<^verbatim>\<open>RemoveTask\<close>, \<^verbatim>\<open>Start\<close>,
  \<^verbatim>\<open>Stop\<close>, and for each level with a running \<^verbatim>\<open>run\<close> a tick or the receipt of an element. A step
  lists the tasks it executes, each as its level and address.
\<close>

datatype ('k, 't) tw_event = EvUnregister 'k | EvSend duration 'k 't | EvRemove 'k | EvStart | EvStop
  | EvTick nat | EvReceive nat

inductive tw_step ::
    "('k, 't) time_wheel \<Rightarrow> ('k, 't) tw_event \<Rightarrow> (nat \<times> nat) list \<Rightarrow> ('k, 't) time_wheel \<Rightarrow> bool" where
  step_unregister: "tw_step (w # ws) (EvUnregister key) [] (unregister w key # ws)"
| step_send: "0 \<le> delay \<Longrightarrow> send_task w delay key task = Ok w' \<Longrightarrow>
    tw_step (w # ws) (EvSend delay key task) [] (w' # ws)"
| step_remove: "tw_step ws (EvRemove key) [] (TimeWheel_RemoveTask ws key)"
| step_start: "tw_step (w # ws) EvStart [] (TimeWheel_Start w # ws)"
| step_stop: "TimeWheel_Stop w = Ok w' \<Longrightarrow> tw_step (w # ws) EvStop [] (w' # ws)"
| step_tick: "i < length ws \<Longrightarrow> 0 < runners (ws ! i) \<Longrightarrow> TimeWheel_tickHandler (ws ! i) = (w', run) \<Longrightarrow>
    tw_step ws (EvTick i) (map (Pair i) run) (ws[i := w'])"
| step_receive: "i < length ws \<Longrightarrow> 0 < runners (ws ! i) \<Longrightarrow> ch_buf (addTaskChan (ws ! i)) = a # rest \<Longrightarrow>
    TimeWheel_addTask (receive (ws ! i)) (drop (Suc i) ws) a = Ok ws' \<Longrightarrow>
    tw_step ws (EvReceive i) [] (take i ws @ ws')"

inductive tw_run ::
    "('k, 't) time_wheel \<Rightarrow> ('k, 't) tw_event list \<Rightarrow> (nat \<times> nat) list \<Rightarrow> ('k, 't) time_wheel \<Rightarrow> bool" where
  run_nil: "tw_run ws [] [] ws"
| run_snoc: "tw_run ws evs xs ws' \<Longrightarrow> tw_step ws' ev ys ws'' \<Longrightarrow> tw_run ws (evs @ [ev]) (xs @ ys) ws''"

inductive_cases tw_stepE: "tw_step ws ev xs ws'"

subsection \<open>Invariant of a level\<close>

definition in_slot :: "('k, 't) level \<Rightarrow> nat \<Rightarrow> nat \<Rightarrow> bool" where
  "in_slot w a p \<longleftrightarrow> p < slotNum w \<and> a \<in> set (slots w ! p)"

definition waiting :: "('k, 't) level \<Rightarrow> nat list" where
  "waiting w = ch_buf (addTaskChan w)"

definition registered :: "('k, 't) level \<Rightarrow> 'k \<Rightarrow> nat \<Rightarrow> bool" where
  "registered w k a \<longleftrightarrow> map_of (taskMap w) k = Some a"

text \<open>The element at an address of the store; an address beyond the store has none.\<close>

definition elem_ok :: "('k, 't) task_element \<Rightarrow> bool" where
  "elem_ok e \<longleftrightarrow> te_circle e = 0 \<and> 0 \<le> te_delay e"

definition shape_ok :: "('k, 't) level \<Rightarrow> bool" where
  "shape_ok w \<longleftrightarrow> 0 < interval w \<and> 0 < slotNum w \<and> length (slots w) = slotNum w \<and>
     currentPos w < slotNum w \<and> (\<forall>a < length (heap w). elem_ok (heap w ! a))"

definition slots_ok :: "('k, 't) level \<Rightarrow> bool" where
  "slots_ok w \<longleftrightarrow> (\<forall>p < slotNum w. distinct (slots w ! p)) \<and>
     (\<forall>a p q. in_slot w a p \<longrightarrow> in_slot w a q \<longrightarrow> p = q) \<and>
     (\<forall>a p. in_slot w a p \<longrightarrow> a < length (heap w)) \<and>
     distinct (waiting w) \<and>
     (\<forall>a \<in> set (waiting w). a < length (heap w) \<and> \<not> te_removed (heap w ! a) \<and> (\<forall>p. \<not> in_slot w a p))"

definition map_ok :: "('k, 't) level \<Rightarrow> bool" where
  "map_ok w \<longleftrightarrow> gm_wf (taskMap w) \<and>
     (\<forall>k a. registered w k a \<longrightarrow>
        (\<exists>p. in_slot w a p) \<and> \<not> te_removed (heap w ! a) \<and> te_key (heap w ! a) = k)"

definition lv_inv :: "('k, 't) level \<Rightarrow> bool" where
  "lv_inv w \<longleftrightarrow> shape_ok w \<and> slots_ok w \<and> map_ok w"

lemmas lv_inv_defs = lv_inv_def shape_ok_def slots_ok_def map_ok_def

lemma NewTimeWheel_inv: "NewTimeWheel iv n = Some w \<Longrightarrow> lv_inv w"
  by (auto simp: NewTimeWheel_def lv_inv_defs in_slot_def waiting_def registered_def chan_make_def
      split: if_splits)

text \<open>The steps of one level that are not ticks.\<close>

inductive quiet :: "('k, 't) level \<Rightarrow> ('k, 't) level \<Rightarrow> bool" where
  quiet_unregister: "quiet w (unregister w key)"
| quiet_send: "0 \<le> delay \<Longrightarrow> send_task w delay key task = Ok w' \<Longrightarrow> quiet w w'"
| quiet_runners: "quiet w (w\<lparr>runners := n\<rparr>)"
| quiet_place: "waiting w = a # rest \<Longrightarrow> delaySlots w a < slotNum w \<Longrightarrow> quiet w (place (receive w) a)"
| quiet_forward: "waiting w = a # rest \<Longrightarrow> quiet w (receive w)"

lemma unregister_simps [simp]:
  "slots (unregister w key) = slots w" "currentPos (unregister w key) = currentPos w"
  "slotNum (unregister w key) = slotNum w" "interval (unregister w key) = interval w"
  "in_slot (unregister w key) = in_slot w" "waiting (unregister w key) = waiting w"
  "length (heap (unregister w key)) = length (heap w)" "runners (unregister w key) = runners w"
  by (simp_all add: unregister_def in_slot_def waiting_def fun_eq_iff split: option.split)

lemma registered_unregister [simp]:
  "registered (unregister w key) k a \<longleftrightarrow> k \<noteq> key \<and> registered w k a"
  by (auto simp: unregister_def registered_def split: option.split)

lemma heap_unregister:
  "a < length (heap w) \<Longrightarrow> heap (unregister w key) ! a = (if registered w key a
     then (heap w ! a)\<lparr>te_removed := True\<rparr> else heap w ! a)"
  by (auto simp: unregister_def registered_def nth_list_update split: option.split)

lemma gm_wf_unregister: "gm_wf (taskMap w) \<Longrightarrow> gm_wf (taskMap (unregister w key))"
  by (simp add: unregister_def distinct_delete split: option.split)

lemma send_task_fields:
  assumes "send_task w delay key task = Ok w'"
  shows "heap w' = heap w @ [\<lparr>te_task = task, te_delay = delay, te_key = key, te_circle = 0,
      te_removed = False\<rparr>]"
    and "slots w' = slots w" "currentPos w' = currentPos w" "slotNum w' = slotNum w"
      "interval w' = interval w" "taskMap w' = taskMap w" "in_slot w' = in_slot w"
      "registered w' = registered w" "waiting w' = waiting w @ [length (heap w)]" "runners w' = runners w"
  using assms by (auto simp: send_task_def waiting_def in_slot_def registered_def fun_eq_iff
      split: outcome.splits dest: chan_send_buf)

lemma receive_simps [simp]:
  "heap (receive w) = heap w" "slots (receive w) = slots w" "currentPos (receive w) = currentPos w"
  "slotNum (receive w) = slotNum w" "interval (receive w) = interval w" "taskMap (receive w) = taskMap w"
  "waiting (receive w) = tl (waiting w)" "delaySlots (receive w) = delaySlots w"
  "in_slot (receive w) = in_slot w" "runners (receive w) = runners w" "registered (receive w) = registered w"
  by (simp_all add: receive_def waiting_def delaySlots_def in_slot_def registered_def fun_eq_iff)

lemma runners_simps [simp]:
  "in_slot (w\<lparr>runners := n\<rparr>) = in_slot w" "waiting (w\<lparr>runners := n\<rparr>) = waiting w"
  "registered (w\<lparr>runners := n\<rparr>) = registered w"
  by (simp_all add: in_slot_def waiting_def registered_def fun_eq_iff)

lemma receive_inv: "lv_inv w \<Longrightarrow> lv_inv (receive w)"
  by (cases "waiting w") (auto simp: lv_inv_defs)

lemma waiting_head:
  assumes "lv_inv w" and "waiting w = a # rest"
  shows "a < length (heap w)" "\<not> te_removed (heap w ! a)" "\<forall>p. \<not> in_slot w a p" "a \<notin> set rest"
  using assms by (auto simp: lv_inv_def slots_ok_def)

lemma elem_ok_update: "elem_ok e \<Longrightarrow> e\<lparr>te_circle := 0\<rparr> = e"
  by (cases e) (simp add: elem_ok_def)

lemma place_simps [simp]:
  "waiting (place w a) = waiting w" "interval (place w a) = interval w" "slotNum (place w a) = slotNum w"
  "currentPos (place w a) = currentPos w" "length (slots (place w a)) = length (slots w)"
  "length (heap (place w a)) = length (heap w)" "runners (place w a) = runners w"
  by (simp_all add: place_def Let_def waiting_def)

lemma registered_place [simp]:
  "registered (place w a) k b \<longleftrightarrow> (if k = te_key (heap w ! a) then b = a else registered w k b)"
  by (auto simp: place_def Let_def registered_def)

lemma place_fields:
  assumes "shape_ok w" and "a < length (heap w)" and "delaySlots w a < slotNum w"
  shows "heap (place w a) = heap w"
    and "in_slot (place w a) b p \<longleftrightarrow> in_slot w b p \<or> b = a \<and> p = (currentPos w + delaySlots w a) mod slotNum w"
    and "gm_wf (taskMap w) \<Longrightarrow> gm_wf (taskMap (place w a))"
  using assms
  by (auto simp: place_def Let_def in_slot_def shape_ok_def nth_list_update elem_ok_update distinct_update)

lemma place_distinct:
  assumes "shape_ok w" and "\<forall>p < slotNum w. distinct (slots w ! p)" and "\<forall>p. \<not> in_slot w a p" and "p < slotNum w"
  shows "distinct (slots (place w a) ! p)"
  using assms by (auto simp: place_def Let_def in_slot_def shape_ok_def nth_list_update)

lemma place_inv:
  assumes "lv_inv w" and "a < length (heap w)" and "delaySlots w a < slotNum w"
    and "a \<notin> set (waiting w)" and "\<forall>p. \<not> in_slot w a p" and "\<not> te_removed (heap w ! a)"
  shows "lv_inv (place w a)"
proof -
  have sh: "shape_ok w" using assms(1) by (simp add: lv_inv_def)
  note f = place_fields [OF sh assms(2,3)] place_distinct [OF sh _ assms(5)]
  have "slots_ok (place w a)" using assms by (auto simp: lv_inv_def slots_ok_def f)
  moreover have "map_ok (place w a)" using assms by (auto simp: lv_inv_def map_ok_def f) blast
  ultimately show ?thesis using sh f(1) by (simp add: lv_inv_def shape_ok_def)
qed

lemma quiet_inv:
  assumes "quiet w w'" and "lv_inv w"
  shows "lv_inv w'"
  using assms(1)
proof cases
  case (quiet_unregister key)
  have le: "a < length (heap w)" if "registered w k a" for k a
    using that assms(2) by (auto simp: lv_inv_def slots_ok_def map_ok_def)
  have "slots_ok (unregister w key)" using assms(2)
    by (auto simp: lv_inv_def slots_ok_def map_ok_def heap_unregister) blast
  moreover have "heap (unregister w key) ! a = heap w ! a" if "k \<noteq> key \<and> registered w k a" for k a
    using that assms(2) le [of k a] by (auto simp: lv_inv_def map_ok_def heap_unregister)
  then have "map_ok (unregister w key)" using assms(2)
    by (auto simp: lv_inv_def map_ok_def gm_wf_unregister)
  moreover have "shape_ok (unregister w key)" using assms(2)
    by (auto simp: lv_inv_def shape_ok_def heap_unregister elem_ok_def)
  ultimately show ?thesis using quiet_unregister by (simp add: lv_inv_def)
next
  case (quiet_send delay key task)
  note f = send_task_fields [OF quiet_send(2)]
  then show ?thesis using assms(2) quiet_send(1)
    by (auto simp: lv_inv_defs f nth_append elem_ok_def less_Suc_eq)
next
  case (quiet_runners n)
  then show ?thesis using assms(2) by (simp add: lv_inv_defs)
next
  case (quiet_place a rest)
  note h = waiting_head [OF assms(2) quiet_place(2)]
  have "lv_inv (place (receive w) a)"
    by (rule place_inv [OF receive_inv [OF assms(2)]]) (use quiet_place h in simp_all)
  then show ?thesis by (simp add: quiet_place)
next
  case (quiet_forward a rest)
  then show ?thesis using assms(2) by (simp add: receive_inv)
qed

subsection \<open>Ticks\<close>

lemma tick_loop_eq:
  "\<forall>a \<in> set as. te_circle (heap w ! a) = 0 \<Longrightarrow>
   tick_loop as w = ([], w\<lparr>taskMap := fold (\<lambda>a. gm_del (te_key (heap w ! a)))
       (filter (\<lambda>a. \<not> te_removed (heap w ! a)) as) (taskMap w)\<rparr>,
     filter (\<lambda>a. \<not> te_removed (heap w ! a)) as)"
  by (induction as arbitrary: w) (auto simp: Let_def)

lemma fold_del:
  "map_of (fold (\<lambda>a. gm_del (f a)) as m) k = (if k \<in> f ` set as then None else map_of m k)"
  "gm_wf m \<Longrightarrow> gm_wf (fold (\<lambda>a. gm_del (f a)) as m)"
  by (induction as arbitrary: m) (auto simp: distinct_delete)

lemma tick_fields:
  assumes "lv_inv w" and "TimeWheel_tickHandler w = (w', run)"
  shows "run = filter (\<lambda>a. \<not> te_removed (heap w ! a)) (slots w ! currentPos w)"
    and "heap w' = heap w" "waiting w' = waiting w" "interval w' = interval w" "slotNum w' = slotNum w"
      "runners w' = runners w"
    and "currentPos w' = Suc (currentPos w) mod slotNum w"
    and "slots w' = (slots w)[currentPos w := []]"
    and "in_slot w' a p \<longleftrightarrow> in_slot w a p \<and> p \<noteq> currentPos w"
    and "gm_wf (taskMap w')"
    and "registered w' k a \<Longrightarrow> registered w k a \<and> \<not> in_slot w a (currentPos w)"
proof -
  have "\<forall>a \<in> set (slots w ! currentPos w). te_circle (heap w ! a) = 0"
    using assms(1) by (auto simp: lv_inv_def shape_ok_def slots_ok_def in_slot_def elem_ok_def)
  note eq = tick_loop_eq [OF this]
  show "run = filter (\<lambda>a. \<not> te_removed (heap w ! a)) (slots w ! currentPos w)"
    "heap w' = heap w" "waiting w' = waiting w" "interval w' = interval w" "slotNum w' = slotNum w"
    "runners w' = runners w" "currentPos w' = Suc (currentPos w) mod slotNum w"
    "slots w' = (slots w)[currentPos w := []]"
    using assms(2) by (auto simp: TimeWheel_tickHandler_def eq waiting_def)
  show "in_slot w' a p \<longleftrightarrow> in_slot w a p \<and> p \<noteq> currentPos w"
    using assms by (auto simp: TimeWheel_tickHandler_def eq in_slot_def lv_inv_def shape_ok_def nth_list_update
        split: if_splits)
  show "gm_wf (taskMap w')"
    using assms by (auto simp: TimeWheel_tickHandler_def eq lv_inv_def map_ok_def fold_del)
  show "registered w k a \<and> \<not> in_slot w a (currentPos w)" if "registered w' k a"
  proof
    let ?live = "filter (\<lambda>a. \<not> te_removed (heap w ! a)) (slots w ! currentPos w)"
    have "map_of (taskMap w') k = (if k \<in> (\<lambda>a. te_key (heap w ! a)) ` set ?live then None else map_of (taskMap w) k)"
      using assms(2) fold_del(1) [of "\<lambda>a. te_key (heap w ! a)" ?live "taskMap w" k]
      by (auto simp: TimeWheel_tickHandler_def eq)
    with that have k: "k \<notin> (\<lambda>a. te_key (heap w ! a)) ` set ?live" and r: "registered w k a"
      by (auto simp: registered_def split: if_splits)
    show "registered w k a" by (rule r)
    have "\<not> te_removed (heap w ! a)" "te_key (heap w ! a) = k"
      using assms(1) r by (auto simp: lv_inv_def map_ok_def)
    with k show "\<not> in_slot w a (currentPos w)" by (force simp: in_slot_def)
  qed
qed

lemma tick_inv:
  assumes "lv_inv w" and "TimeWheel_tickHandler w = (w', run)"
  shows "lv_inv w'"
proof -
  note f = tick_fields [OF assms]
  have "shape_ok w'" using assms(1) by (simp add: lv_inv_def shape_ok_def f)
  moreover have "slots_ok w'" using assms(1)
    by (auto simp: lv_inv_def slots_ok_def shape_ok_def f nth_list_update)
  moreover have "map_ok w'" using assms(1) f(10,11)
    unfolding lv_inv_def map_ok_def f(2,9) by metis
  ultimately show ?thesis by (simp add: lv_inv_def)
qed

subsection \<open>The life of one task element\<close>

text \<open>
  An element that sits \<open>d\<close> slots ahead of the current position; an element that has left the
  slots and the channel and will not come back.
\<close>

definition ahead :: "('k, 't) level \<Rightarrow> nat \<Rightarrow> nat \<Rightarrow> bool" where
  "ahead w a d \<longleftrightarrow> d < slotNum w \<and> in_slot w a ((currentPos w + d) mod slotNum w)"

definition gone :: "('k, 't) level \<Rightarrow> nat \<Rightarrow> bool" where
  "gone w a \<longleftrightarrow> a < length (heap w) \<and> (\<forall>p. \<not> in_slot w a p) \<and> a \<notin> set (waiting w)"

lemma quiet_static:
  assumes "quiet w w'"
  shows "slotNum w' = slotNum w" "currentPos w' = currentPos w" "interval w' = interval w"
    and "length (heap w) \<le> length (heap w')"
  using assms by (cases; simp add: send_task_fields)+

lemma quiet_ahead:
  assumes "quiet w w'" and "lv_inv w" and "ahead w a d"
  shows "ahead w' a d"
  using assms(1)
proof cases
  case (quiet_place b rest)
  then have "b < length (heap w)" using waiting_head(1) [OF assms(2)] by simp
  with quiet_place assms place_fields(2) [of "receive w" b] receive_inv [OF assms(2)] show ?thesis
    by (simp add: ahead_def lv_inv_def)
qed (use assms in \<open>auto simp: ahead_def send_task_fields\<close>)

lemma quiet_gone:
  assumes "quiet w w'" and "lv_inv w" and "gone w a"
  shows "gone w' a"
  using assms(1)
proof cases
  case (quiet_place b rest)
  then have "b < length (heap w)" using waiting_head(1) [OF assms(2)] by simp
  with quiet_place assms place_fields(2) [of "receive w" b] receive_inv [OF assms(2)] show ?thesis
    by (auto simp: gone_def lv_inv_def)
next
  case (quiet_runners n)
  then show ?thesis using assms(3) by (simp add: gone_def)
next
  case (quiet_forward b rest)
  then show ?thesis using assms(3) by (auto simp: gone_def)
qed (use assms in \<open>auto simp: gone_def send_task_fields\<close>)

lemma quiet_removed:
  assumes "quiet w w'" and "lv_inv w" and "a < length (heap w)" and "te_removed (heap w ! a)"
  shows "te_removed (heap w' ! a)"
  using assms(1)
proof cases
  case (quiet_place b rest)
  then have "b < length (heap w)" using waiting_head(1) [OF assms(2)] by simp
  with quiet_place assms place_fields(1) [of "receive w" b] receive_inv [OF assms(2)] show ?thesis
    by (simp add: lv_inv_def)
qed (use assms in \<open>auto simp: send_task_fields heap_unregister nth_append\<close>)

lemma count_list_distinct: "distinct xs \<Longrightarrow> count_list xs x = (if x \<in> set xs then 1 else 0)"
  by (induction xs) auto

lemma mod_ahead: "c < (n :: nat) \<Longrightarrow> d < n \<Longrightarrow> (c + d) mod n = c \<longleftrightarrow> d = 0"
  by (auto simp: mod_if)

lemma tick_ahead:
  assumes "lv_inv w" and "TimeWheel_tickHandler w = (w', run)" and "ahead w a d"
  shows "if d = 0 then gone w' a \<and> (\<not> te_removed (heap w ! a) \<longrightarrow> count_list run a = 1)
    else ahead w' a (d - 1) \<and> count_list run a = 0"
proof -
  note f = tick_fields [OF assms(1,2)]
  have c: "currentPos w < slotNum w" "d < slotNum w" using assms by (auto simp: lv_inv_def shape_ok_def ahead_def)
  have uniq: "in_slot w a p \<longleftrightarrow> p = (currentPos w + d) mod slotNum w" for p
    using assms(1,3) by (auto simp: lv_inv_def slots_ok_def ahead_def)
  have cur: "a \<in> set (slots w ! currentPos w) \<longleftrightarrow> d = 0"
    using uniq [of "currentPos w"] mod_ahead [OF c] c(1) unfolding in_slot_def by metis
  show ?thesis
  proof (cases "d = 0")
    case True
    have "distinct run" using assms(1) c by (simp add: f lv_inv_def slots_ok_def)
    then have "\<not> te_removed (heap w ! a) \<Longrightarrow> count_list run a = 1"
      using cur True by (simp add: count_list_distinct f(1))
    moreover have "in_slot w a (currentPos w)" using uniq True c by simp
    then have "a < length (heap w)" "a \<notin> set (waiting w)"
      using assms(1) unfolding lv_inv_def slots_ok_def by blast+
    then have "gone w' a" using uniq True c by (simp add: gone_def f)
    ultimately show ?thesis using True by simp
  next
    case False
    have "(Suc (currentPos w) mod slotNum w + (d - 1)) mod slotNum w = (currentPos w + d) mod slotNum w"
      using False mod_add_left_eq [of "Suc (currentPos w)" "slotNum w" "d - 1"] by simp
    then have "ahead w' a (d - 1)" using uniq [of "(currentPos w + d) mod slotNum w"] mod_ahead [OF c] c False
      unfolding ahead_def f by simp
    moreover have "count_list run a = 0" using cur False by (simp add: f(1) count_list_0_iff)
    ultimately show ?thesis using False by simp
  qed
qed

lemma tick_gone:
  assumes "lv_inv w" and "TimeWheel_tickHandler w = (w', run)" and "gone w a"
  shows "gone w' a \<and> count_list run a = 0"
  using assms(1,3) tick_fields [OF assms(1,2)]
  by (auto simp: gone_def count_list_0_iff in_slot_def lv_inv_def shape_ok_def)

subsection \<open>Steps of a wheel, seen from one level\<close>

definition ran_at :: "nat \<Rightarrow> (nat \<times> nat) list \<Rightarrow> nat list" where
  "ran_at i xs = map snd (filter (\<lambda>x. fst x = i) xs)"

lemma ran_at_simps [simp]:
  "ran_at i [] = []" "ran_at i (xs @ ys) = ran_at i xs @ ran_at i ys"
  "ran_at i (map (Pair j) run) = (if i = j then run else [])"
  by (auto simp: ran_at_def comp_def)

definition level_move ::
    "nat \<Rightarrow> ('k, 't) level \<Rightarrow> ('k, 't) tw_event \<Rightarrow> (nat \<times> nat) list \<Rightarrow> ('k, 't) level \<Rightarrow> bool" where
  "level_move i w ev xs w' \<longleftrightarrow>
     (if ev = EvTick i then TimeWheel_tickHandler w = (w', ran_at i xs)
      else quiet\<^sup>*\<^sup>* w w' \<and> ran_at i xs = [])"

lemma quiets:
  assumes "quiet\<^sup>*\<^sup>* w w'" and "lv_inv w"
  shows "lv_inv w'" "ahead w a d \<Longrightarrow> ahead w' a d" "gone w a \<Longrightarrow> gone w' a"
    and "a < length (heap w) \<Longrightarrow> te_removed (heap w ! a) \<Longrightarrow> te_removed (heap w' ! a)"
    and "length (heap w) \<le> length (heap w')" "slotNum w' = slotNum w" "interval w' = interval w"
proof -
  have "lv_inv w' \<and> (ahead w a d \<longrightarrow> ahead w' a d) \<and> (gone w a \<longrightarrow> gone w' a) \<and>
    (a < length (heap w) \<longrightarrow> te_removed (heap w ! a) \<longrightarrow> te_removed (heap w' ! a)) \<and>
    length (heap w) \<le> length (heap w') \<and> slotNum w' = slotNum w \<and> interval w' = interval w"
    using assms
  proof (induction rule: rtranclp_induct)
    case base
    then show ?case by simp
  next
    case (step w' w'')
    then show ?case
      using quiet_inv [of w' w''] quiet_ahead [of w' w'' a d] quiet_gone [of w' w'' a]
        quiet_removed [of w' w'' a] quiet_static [of w' w''] by auto
  qed
  then show "lv_inv w'" "ahead w a d \<Longrightarrow> ahead w' a d" "gone w a \<Longrightarrow> gone w' a"
    "a < length (heap w) \<Longrightarrow> te_removed (heap w ! a) \<Longrightarrow> te_removed (heap w' ! a)"
    "length (heap w) \<le> length (heap w')" "slotNum w' = slotNum w" "interval w' = interval w" by auto
qed

lemma AddTask_quiet: "TimeWheel_AddTask w delay key task = Ok w' \<Longrightarrow> quiet\<^sup>*\<^sup>* w w'"
  by (auto simp: TimeWheel_AddTask_def not_less split: if_splits
      intro: quiet_unregister quiet_send rtranclp.rtrancl_into_rtrancl)

lemma RemoveTask_nth:
  "i < length ws \<Longrightarrow> TimeWheel_RemoveTask ws key ! i = unregister (ws ! i) key"
  "length (TimeWheel_RemoveTask ws key) = length ws"
  by (induction ws arbitrary: i) (auto simp: nth_Cons split: nat.splits)

lemma addTask_cases:
  assumes "TimeWheel_addTask w ws a = Ok ws'"
  obtains (placed) "delaySlots w a < slotNum w" "ws' = place w a # ws"
  | (forwarded) n n' rest where "next_levels w ws = n # rest" "quiet\<^sup>*\<^sup>* n n'" "ws' = w # n' # rest"
  using assms by (auto simp: TimeWheel_addTask_def Let_def split: if_splits list.splits outcome.splits
      dest!: AddTask_quiet)

lemma next_levels_cases:
  assumes "next_levels w ws = n # rest"
  obtains (old) "ws = n # rest"
  | (new) n0 where "ws = []" "rest = []" "n = TimeWheel_Start n0"
      "NewTimeWheel (mul64 (interval w) (int (slotNum w))) (int (slotNum w)) = Some n0"
  using assms by (auto simp: next_levels_def split: list.splits option.splits)

lemma step_length: "tw_step ws ev xs ws' \<Longrightarrow> length ws \<le> length ws'"
  by (erule tw_stepE) (auto simp: RemoveTask_nth elim!: addTask_cases next_levels_cases
      dest!: arg_cong [of "drop _ _" _ length])

lemma step_level:
  assumes "tw_step ws ev xs ws'" and "i < length ws"
  shows "level_move i (ws ! i) ev xs (ws' ! i)"
  using assms(1)
proof cases
  case (step_unregister w ws0 key)
  then show ?thesis by (cases i) (auto simp: level_move_def intro: quiet_unregister)
next
  case (step_send delay w key task w' ws0)
  then show ?thesis by (cases i) (auto simp: level_move_def intro: quiet_send)
next
  case (step_remove key)
  then show ?thesis using assms(2) by (auto simp: level_move_def RemoveTask_nth intro: quiet_unregister)
next
  case (step_start w ws0)
  then show ?thesis by (cases i) (auto simp: level_move_def TimeWheel_Start_def intro: quiet_runners)
next
  case (step_stop w w' ws0)
  then show ?thesis
    by (cases i) (auto simp: level_move_def TimeWheel_Stop_def split: if_splits intro: quiet_runners)
next
  case (step_tick j w' run)
  then show ?thesis using assms(2) by (auto simp: level_move_def)
next
  case (step_receive j a rest ws0)
  have w: "waiting (ws ! j) = a # rest" using step_receive by (simp add: waiting_def)
  have "quiet\<^sup>*\<^sup>* (ws ! i) (ws' ! i)" using step_receive(7)
  proof (cases rule: addTask_cases)
    case placed
    then show ?thesis using step_receive assms(2) quiet_place [OF w]
      by (cases i j rule: linorder_cases) (auto simp: nth_append nth_Cons' )
  next
    case (forwarded n n' more)
    have r: "quiet (ws ! j) (receive (ws ! j))" by (rule quiet_forward [OF w])
    from forwarded(1) show ?thesis
    proof (cases rule: next_levels_cases)
      case old
      from id_take_nth_drop [OF step_receive(4)] old have "ws = take j ws @ ws ! j # n # more" by simp
      then obtain pre x where ws: "ws = pre @ x # n # more" "length pre = j"
        using step_receive(4) by (metis length_take min.absorb4)
      have "ws' = pre @ receive x # n' # more"
        using step_receive(3) forwarded(3) ws by (auto simp: nth_append)
      then show ?thesis using forwarded(2) r ws by (auto simp: nth_append nth_Cons')
    next
      case (new n0)
      then have "length ws \<le> Suc j" by simp
      with assms(2) have "i < j \<or> i = j" by linarith
      then show ?thesis using step_receive forwarded r assms(2)
        by (auto simp: nth_append nth_Cons' less_Suc_eq)
    qed
  qed
  then show ?thesis using step_receive by (simp add: level_move_def)
qed


lemma step_new_level:
  assumes "tw_step ws ev xs ws'" and "length ws \<le> i" and "i < length ws'"
  shows "ws \<noteq> [] \<and> i = length ws \<and> lv_inv (ws' ! i) \<and> slotNum (ws' ! i) = slotNum (last ws) \<and>
    interval (ws' ! i) = mul64 (interval (last ws)) (int (slotNum (last ws)))"
  using assms(1)
proof cases
  case (step_receive j a rest ws0)
  from step_receive(7) show ?thesis
  proof (cases rule: addTask_cases)
    case placed
    then show ?thesis using step_receive assms(2,3) by simp
  next
    case (forwarded n n' more)
    from forwarded(1) show ?thesis
    proof (cases rule: next_levels_cases)
      case old
      then have "length (drop (Suc j) ws) = Suc (length more)" by simp
      then have "length ws = j + 2 + length more" unfolding length_drop by arith
      then show ?thesis using step_receive forwarded assms(2,3) by simp
    next
      case (new n0)
      then have l: "length ws = Suc j" using step_receive by simp
      then have "last ws = ws ! j" by (cases ws rule: rev_cases) (auto simp: nth_append)
      moreover have "lv_inv n" using new(3) NewTimeWheel_inv [OF new(4)] quiet_inv [OF quiet_runners]
        by (simp add: TimeWheel_Start_def)
      moreover have "slotNum n = slotNum (ws ! j)" "interval n = mul64 (interval (ws ! j)) (int (slotNum (ws ! j)))"
        using new(3,4) by (auto simp: TimeWheel_Start_def NewTimeWheel_def split: if_splits)
      ultimately show ?thesis using l step_receive forwarded new assms(2,3) quiets [OF forwarded(2)]
        by (auto simp: nth_append)
    qed
  qed
qed (use assms in \<open>auto simp: RemoveTask_nth\<close>)

subsection \<open>Runs\<close>

definition chain_ok :: "('k, 't) time_wheel \<Rightarrow> bool" where
  "chain_ok ws \<longleftrightarrow> ws \<noteq> [] \<and> (\<forall>i < length ws. lv_inv (ws ! i)) \<and>
     (\<forall>i. Suc i < length ws \<longrightarrow> slotNum (ws ! Suc i) = slotNum (ws ! i) \<and>
        interval (ws ! Suc i) = mul64 (interval (ws ! i)) (int (slotNum (ws ! i))))"

lemma level_move_static:
  assumes "level_move i w ev xs w'" and "lv_inv w"
  shows "lv_inv w'" "slotNum w' = slotNum w" "interval w' = interval w" "length (heap w) \<le> length (heap w')"
  using assms quiets [of w w'] tick_inv [of w w'] tick_fields [of w w']
  by (auto simp: level_move_def split: if_splits)

lemma step_chain_ok:
  assumes "tw_step ws ev xs ws'" and "chain_ok ws"
  shows "chain_ok ws'"
proof -
  note len = step_length [OF assms(1)]
  have old: "lv_inv (ws' ! i)" "slotNum (ws' ! i) = slotNum (ws ! i)" "interval (ws' ! i) = interval (ws ! i)"
    if "i < length ws" for i
    using level_move_static [OF step_level [OF assms(1) that]] assms(2) that by (auto simp: chain_ok_def)
  note new = step_new_level [OF assms(1)]
  have "lv_inv (ws' ! i)" if "i < length ws'" for i
    using old [of i] new [of i] that by (cases "i < length ws") auto
  moreover have "slotNum (ws' ! Suc i) = slotNum (ws' ! i) \<and>
      interval (ws' ! Suc i) = mul64 (interval (ws' ! i)) (int (slotNum (ws' ! i)))"
    if "Suc i < length ws'" for i
  proof (cases "Suc i < length ws")
    case True
    then show ?thesis using old [of i] old [of "Suc i"] assms(2) by (simp add: chain_ok_def)
  next
    case False
    with new [of "Suc i"] that have "length ws = Suc i" "ws \<noteq> []" by auto
    then have "last ws = ws ! i" by (simp add: last_conv_nth)
    with new [of "Suc i"] old [of i] that False \<open>length ws = Suc i\<close> show ?thesis by simp
  qed
  ultimately show ?thesis using assms(2) len by (auto simp: chain_ok_def)
qed

lemma run_chain_ok: "tw_run ws evs xs ws' \<Longrightarrow> chain_ok ws \<Longrightarrow> chain_ok ws' \<and> length ws \<le> length ws'"
  by (induction rule: tw_run.induct) (auto dest: step_chain_ok step_length)

text \<open>An element that is marked removed, or has left the level, is not executed any more.\<close>

lemma move_dead:
  assumes "level_move i w ev xs w'" and "lv_inv w" and "a < length (heap w)"
    and "te_removed (heap w ! a) \<or> gone w a"
  shows "(te_removed (heap w' ! a) \<or> gone w' a) \<and> count_list (ran_at i xs) a = 0"
proof (cases "ev = EvTick i")
  case True
  then have t: "TimeWheel_tickHandler w = (w', ran_at i xs)" using assms(1) by (simp add: level_move_def)
  show ?thesis using assms(4) tick_fields(1,2) [OF assms(2) t] tick_gone [OF assms(2) t, of a]
    by (auto simp: count_list_0_iff)
next
  case False
  then show ?thesis using assms quiets [of w w'] by (auto simp: level_move_def)
qed

lemma move_removed:
  assumes "level_move i w ev xs w'" and "lv_inv w" and "a < length (heap w)" and "te_removed (heap w ! a)"
  shows "te_removed (heap w' ! a)"
  using assms quiets(4) [of w w' a] tick_fields(2) [of w w']
  by (auto simp: level_move_def split: if_splits)

lemma run_dead:
  assumes "tw_run ws evs xs ws'" and "chain_ok ws" and "i < length ws" and "a < length (heap (ws ! i))"
    and "te_removed (heap (ws ! i) ! a) \<or> gone (ws ! i) a"
  shows "count_list (ran_at i xs) a = 0 \<and> (te_removed (heap (ws' ! i) ! a) \<or> gone (ws' ! i) a) \<and>
    a < length (heap (ws' ! i))"
  using assms
proof (induction rule: tw_run.induct)
  case (run_nil ws)
  then show ?case by simp
next
  case (run_snoc ws evs xs ws' ev ys ws'')
  then have i: "i < length ws'" and inv: "lv_inv (ws' ! i)"
    using run_chain_ok [OF run_snoc(1)] by (auto simp: chain_ok_def)
  note mv = step_level [OF run_snoc(2) i]
  show ?case using run_snoc move_dead [OF mv inv, of a] level_move_static(4) [OF mv inv]
    by auto
qed

lemma run_heap:
  "tw_run ws evs xs ws' \<Longrightarrow> chain_ok ws \<Longrightarrow> i < length ws \<Longrightarrow> length (heap (ws ! i)) \<le> length (heap (ws' ! i))"
proof (induction rule: tw_run.induct)
  case (run_nil ws)
  then show ?case by simp
next
  case (run_snoc ws evs xs ws' ev ys ws'')
  then have i: "i < length ws'" and inv: "lv_inv (ws' ! i)"
    using run_chain_ok [OF run_snoc(1)] by (auto simp: chain_ok_def)
  show ?case using run_snoc level_move_static(4) [OF step_level [OF run_snoc(2) i] inv] by simp
qed

text \<open>How many ticks of a level a run contains.\<close>

definition ticks :: "nat \<Rightarrow> ('k, 't) tw_event list \<Rightarrow> nat" where
  "ticks i evs = length (filter (\<lambda>ev. ev = EvTick i) evs)"

lemma move_ahead:
  assumes "level_move i w ev xs w'" and "lv_inv w" and "ahead w a d" and "\<not> te_removed (heap w' ! a)"
  shows "if ev \<noteq> EvTick i then ahead w' a d \<and> count_list (ran_at i xs) a = 0
    else if d = 0 then gone w' a \<and> count_list (ran_at i xs) a = 1
    else ahead w' a (d - 1) \<and> count_list (ran_at i xs) a = 0"
proof (cases "ev = EvTick i")
  case True
  then have t: "TimeWheel_tickHandler w = (w', ran_at i xs)" using assms(1) by (simp add: level_move_def)
  show ?thesis using True assms(4) tick_ahead [OF assms(2) t assms(3)] tick_fields(2) [OF assms(2) t]
    by (auto split: if_splits)
next
  case False
  then show ?thesis using assms quiets [of w w'] by (auto simp: level_move_def)
qed

lemma run_ahead:
  assumes "tw_run ws evs xs ws'" and "chain_ok ws" and "i < length ws" and "ahead (ws ! i) a d"
    and "\<not> te_removed (heap (ws' ! i) ! a)"
  shows "if ticks i evs \<le> d then ahead (ws' ! i) a (d - ticks i evs) \<and> count_list (ran_at i xs) a = 0
    else gone (ws' ! i) a \<and> count_list (ran_at i xs) a = 1"
  using assms
proof (induction rule: tw_run.induct)
  case (run_nil ws)
  then show ?case by (simp add: ticks_def)
next
  case (run_snoc ws evs xs ws' ev ys ws'')
  then have i: "i < length ws'" and inv: "lv_inv (ws' ! i)"
    using run_chain_ok [OF run_snoc(1)] by (auto simp: chain_ok_def)
  note mv = step_level [OF run_snoc(2) i]
  have "a < length (heap (ws ! i))" using run_snoc.prems
    by (auto simp: chain_ok_def lv_inv_def slots_ok_def ahead_def)
  then have "a < length (heap (ws' ! i))" using run_heap [OF run_snoc(1) run_snoc.prems(1,2)] by simp
  note dead = move_dead [OF mv inv this] and rem = move_removed [OF mv inv this]
  show ?case
  proof (cases "ticks i evs \<le> d")
    case True
    with run_snoc.IH run_snoc.prems rem have
      "ahead (ws' ! i) a (d - ticks i evs)" "count_list (ran_at i xs) a = 0" by auto
    with True move_ahead [OF mv inv this(1) run_snoc.prems(4)] show ?thesis
      by (cases "ev = EvTick i") (auto simp: ticks_def split: if_splits)
  next
    case False
    with run_snoc.IH run_snoc.prems rem have "gone (ws' ! i) a" "count_list (ran_at i xs) a = 1" by auto
    with False dead run_snoc.prems(4) show ?thesis by (auto simp: ticks_def)
  qed
qed

lemma chain_ok_new: "NewTimeWheel iv n = Some w \<Longrightarrow> chain_ok [w]"
  by (simp add: chain_ok_def NewTimeWheel_inv)

lemma HasTask_registered: "TimeWheel_HasTask ws key \<longleftrightarrow> (\<exists>i < length ws. \<exists>a. registered (ws ! i) key a)"
proof (induction ws)
  case (Cons w ws)
  have "(\<exists>i < Suc (length ws). \<exists>a. registered ((w # ws) ! i) key a) \<longleftrightarrow>
      (\<exists>a. registered w key a) \<or> (\<exists>i < length ws. \<exists>a. registered (ws ! i) key a)"
    by (simp add: Ex_less_Suc2)
  with Cons show ?case by (auto simp: registered_def)
qed simp

lemma receive_step_ahead:
  assumes "chain_ok ws" and "tw_step ws (EvReceive i) xs ws'" and "ch_buf (addTaskChan (ws ! i)) = a # rest"
    and "delaySlots (ws ! i) a < slotNum (ws ! i)"
  shows "i < length ws \<and> i < length ws' \<and> ahead (ws' ! i) a (delaySlots (ws ! i) a)"
  using assms(2)
proof cases
  case (step_receive b rest' ws0)
  have inv: "lv_inv (ws ! i)" using assms(1) step_receive by (simp add: chain_ok_def)
  have w: "waiting (ws ! i) = a # rest" using assms(3) by (simp add: waiting_def)
  have "b = a" using step_receive assms(3) by simp
  then have "ws0 = place (receive (ws ! i)) a # drop (Suc i) ws"
    using step_receive assms(4) by (simp add: TimeWheel_addTask_def)
  moreover have "in_slot (place (receive (ws ! i)) a) a ((currentPos (ws ! i) + delaySlots (ws ! i) a) mod slotNum (ws ! i))"
    using place_fields(2) [of "receive (ws ! i)" a] receive_inv [OF inv] waiting_head(1) [OF inv w] assms(4)
    by (simp add: lv_inv_def)
  ultimately show ?thesis using step_receive assms(4) by (simp add: ahead_def nth_append)
qed

subsection \<open>A concrete run\<close>

text \<open>
  A wheel of four slots, started; one task with a delay of one slot is sent, received, and two
  ticks pass.
\<close>

type_synonym ex_level = "(string, unit) level"

definition ex_wheel :: ex_level where
  "ex_wheel = \<lparr>interval = 10, slots = [[], [], [], []], currentPos = 0, slotNum = 4,
     addTaskChan = chan_make 1000, taskMap = [], heap = [], runners = 0\<rparr>"

definition ex_elem :: "(string, unit) task_element" where
  "ex_elem = \<lparr>te_task = (), te_delay = 15, te_key = ''k'', te_circle = 0, te_removed = False\<rparr>"

definition ex_sent :: ex_level where
  "ex_sent = ex_wheel\<lparr>runners := 1, heap := [ex_elem], addTaskChan := (chan_make 1000)\<lparr>ch_buf := [0]\<rparr>\<rparr>"

definition ex_placed :: ex_level where
  "ex_placed = ex_wheel\<lparr>runners := 1, heap := [ex_elem], slots := [[], [0], [], []], taskMap := [(''k'', 0)]\<rparr>"

definition ex_ticked :: ex_level where
  "ex_ticked = ex_placed\<lparr>currentPos := 1\<rparr>"

definition ex_fired :: ex_level where
  "ex_fired = ex_wheel\<lparr>runners := 1, heap := [ex_elem], currentPos := 2\<rparr>"

definition ex_removed :: ex_level where
  "ex_removed = ex_wheel\<lparr>runners := 1, heap := [ex_elem\<lparr>te_removed := True\<rparr>], slots := [[], [0], [], []]\<rparr>"

lemmas ex_wheel_defs = ex_wheel_def ex_elem_def ex_sent_def ex_placed_def ex_ticked_def ex_fired_def
  ex_removed_def

lemma ex_New: "NewTimeWheel 10 4 = Some ex_wheel"
  by (simp add: NewTimeWheel_def ex_wheel_def numeral_eq_Suc)

lemma ex_run_sent: "tw_run [ex_wheel] [EvStart, EvSend 15 ''k'' ()] [] [ex_sent]"
proof -
  have "tw_step [ex_wheel] EvStart [] [TimeWheel_Start ex_wheel]" by (rule step_start)
  moreover have "tw_step [TimeWheel_Start ex_wheel] (EvSend 15 ''k'' ()) [] [ex_sent]"
    by (rule step_send) (simp_all add: send_task_def chan_send_def chan_make_def TimeWheel_Start_def ex_wheel_defs)
  ultimately show ?thesis using run_snoc [OF run_snoc [OF run_nil]] by fastforce
qed

lemma ex_receive: "tw_step [ex_sent] (EvReceive 0) [] [ex_placed]"
proof -
  have "TimeWheel_addTask (receive ex_sent) [] 0 = Ok [ex_placed]"
    by (simp add: TimeWheel_addTask_def place_def delaySlots_def Let_def receive_def ex_wheel_defs chan_make_def)
  then show ?thesis using step_receive [of 0 "[ex_sent]" 0 "[]" "[ex_placed]"]
    by (simp add: ex_wheel_defs)
qed

lemma ex_run_placed: "tw_run [ex_wheel] [EvStart, EvSend 15 ''k'' (), EvReceive 0] [] [ex_placed]"
  using run_snoc [OF ex_run_sent ex_receive] by simp

lemma ex_ticks: "tw_run [ex_placed] [EvTick 0, EvTick 0] [(0, 0)] [ex_fired]"
proof -
  have "TimeWheel_tickHandler ex_placed = (ex_ticked, [])" "TimeWheel_tickHandler ex_ticked = (ex_fired, [0])"
    by (simp_all add: TimeWheel_tickHandler_def ex_wheel_defs)
  then have "tw_step [ex_placed] (EvTick 0) [] [ex_ticked]" "tw_step [ex_ticked] (EvTick 0) [(0, 0)] [ex_fired]"
    using step_tick [of 0 "[ex_placed]" ex_ticked "[]"] step_tick [of 0 "[ex_ticked]" ex_fired "[0]"]
    by (simp_all add: ex_wheel_defs)
  then show ?thesis using run_snoc [OF run_snoc [OF run_nil]] by fastforce
qed

subsection \<open>Properties\<close>

text \<open>
  C15: Whatever is done with a wheel and its higher levels, every level stays consistent: element
  addresses are in at most one slot, circles are zero, each level's interval is the lower
  one's multiplied by the slot number, and a key that \<^verbatim>\<open>HasTask\<close> reports has an element with
  that key, not marked removed, in a slot of some level.
\<close>

theorem wheel_inv_reachable:
  assumes "NewTimeWheel iv n = Some w" and "tw_run [w] evs xs ws"
  shows "chain_ok ws \<and> (\<forall>key. TimeWheel_HasTask ws key \<longrightarrow>
    (\<exists>i < length ws. \<exists>p < slotNum (ws ! i). \<exists>a \<in> set (slots (ws ! i) ! p).
       te_key (heap (ws ! i) ! a) = key \<and> \<not> te_removed (heap (ws ! i) ! a)))"
proof -
  have ok: "chain_ok ws" using run_chain_ok [OF assms(2)] chain_ok_new [OF assms(1)] by blast
  then have "\<exists>p < slotNum (ws ! i). \<exists>a \<in> set (slots (ws ! i) ! p).
      te_key (heap (ws ! i) ! a) = key \<and> \<not> te_removed (heap (ws ! i) ! a)"
    if "i < length ws" "registered (ws ! i) key a" for i key a
    using that by (auto simp: chain_ok_def lv_inv_def map_ok_def in_slot_def) blast
  with ok show ?thesis by (auto simp: HasTask_registered)
qed

theorem wheel_inv_reachable_witness:
  "chain_ok [ex_placed] \<and> TimeWheel_HasTask [ex_placed] ''k'' \<and>
   (\<exists>i < length [ex_placed]. \<exists>p < slotNum ([ex_placed] ! i). \<exists>a \<in> set (slots ([ex_placed] ! i) ! p).
      te_key (heap ([ex_placed] ! i) ! a) = ''k'')"
proof -
  have "TimeWheel_HasTask [ex_placed] ''k''" by (simp add: ex_placed_def)
  with wheel_inv_reachable [OF ex_New ex_run_placed] show ?thesis by blast
qed

text \<open>
  C13: A task is executed exactly once and exactly on time: when a level takes an element with
  delay \<open>k\<close> slots (less than a turn) from its channel, then in every later run in which the
  element is not marked removed it is executed by the tick number \<open>k + 1\<close> of that level: not
  at all in a run of at most \<open>k\<close> ticks, and once in every longer one.
\<close>

theorem task_fires_on_time:
  assumes "NewTimeWheel iv n = Some w" and "tw_run [w] evs0 xs0 ws"
    and "ch_buf (addTaskChan (ws ! i)) = a # rest" and "delaySlots (ws ! i) a < slotNum (ws ! i)"
    and "tw_step ws (EvReceive i) ys ws1" and "tw_run ws1 evs xs ws2"
    and "\<not> te_removed (heap (ws2 ! i) ! a)"
  shows "count_list (ran_at i xs) a = (if ticks i evs \<le> delaySlots (ws ! i) a then 0 else 1)"
proof -
  have ok: "chain_ok ws" using run_chain_ok [OF assms(2)] chain_ok_new [OF assms(1)] by blast
  from receive_step_ahead [OF ok assms(5,3,4)] have "i < length ws1"
    "ahead (ws1 ! i) a (delaySlots (ws ! i) a)" by auto
  from run_ahead [OF assms(6) step_chain_ok [OF assms(5) ok] this assms(7)] show ?thesis
    by (auto split: if_splits)
qed

theorem task_fires_on_time_witness:
  "count_list (ran_at 0 [(0, 0)]) 0 = 1 \<and> ticks 0 [EvTick 0, EvTick 0 :: (string, unit) tw_event] = 2 \<and>
   delaySlots ex_sent 0 = 1"
proof -
  have d: "delaySlots ex_sent 0 = 1" by (simp add: delaySlots_def ex_wheel_defs)
  then show ?thesis
    using task_fires_on_time [OF ex_New ex_run_sent _ _ ex_receive ex_ticks, of 0 "[]"]
    by (simp add: ticks_def) (simp add: ex_wheel_defs)
qed

text \<open>
  C14: A removed task never runs: after \<^verbatim>\<open>RemoveTask\<close> of a key, the element that was registered
  under it on any level is not executed in any later run.
\<close>

theorem removed_task_never_fires:
  assumes "NewTimeWheel iv n = Some w" and "tw_run [w] evs0 xs0 ws" and "i < length ws"
    and "map_of (taskMap (ws ! i)) key = Some a" and "tw_run (TimeWheel_RemoveTask ws key) evs xs ws'"
  shows "a \<notin> set (ran_at i xs)"
proof -
  have ok: "chain_ok ws" using run_chain_ok [OF assms(2)] chain_ok_new [OF assms(1)] by blast
  have r: "registered (ws ! i) key a" using assms(4) by (simp add: registered_def)
  then have a: "a < length (heap (ws ! i))"
    using ok assms(3) by (auto simp: chain_ok_def lv_inv_def map_ok_def slots_ok_def)
  have "chain_ok (TimeWheel_RemoveTask ws key)" using step_chain_ok [OF step_remove ok] .
  moreover have "te_removed (heap (TimeWheel_RemoveTask ws key ! i) ! a)"
    using a r assms(3) by (simp add: RemoveTask_nth heap_unregister)
  ultimately show ?thesis
    using run_dead [OF assms(5), of i a] a assms(3) by (simp add: RemoveTask_nth count_list_0_iff)
qed

theorem removed_task_never_fires_witness:
  "\<exists>ws'. tw_run (TimeWheel_RemoveTask [ex_placed] ''k'') [EvTick 0] [] ws' \<and> 0 \<notin> set (ran_at 0 [])"
proof -
  have "TimeWheel_RemoveTask [ex_placed] ''k'' = [ex_removed]"
    by (simp add: unregister_def ex_wheel_defs)
  moreover have "TimeWheel_tickHandler ex_removed = (ex_removed\<lparr>currentPos := 1\<rparr>, [])"
    by (simp add: TimeWheel_tickHandler_def ex_wheel_defs)
  then have "tw_step [ex_removed] (EvTick 0) [] [ex_removed\<lparr>currentPos := 1\<rparr>]"
    using step_tick [of 0 "[ex_removed]" "ex_removed\<lparr>currentPos := 1\<rparr>" "[]"] by (simp add: ex_wheel_defs)
  then have "tw_run [ex_removed] [EvTick 0] [] [ex_removed\<lparr>currentPos := 1\<rparr>]"
    using run_snoc [OF run_nil] by fastforce
  ultimately show ?thesis
    using removed_task_never_fires [OF ex_New ex_run_placed, of 0 "''k''" 0] by (auto simp: ex_placed_def)
qed

text \<open>
  Adding a key again while its first element is still in the channel leaves two elements: the
  first one is registered, then overwritten in the map by the second, and removing the key
  does not reach it any more.
\<close>

definition ex_twice :: ex_level where
  "ex_twice = ex_wheel\<lparr>runners := 1, heap := [ex_elem, ex_elem],
     addTaskChan := (chan_make 1000)\<lparr>ch_buf := [0, 1]\<rparr>\<rparr>"

lemma readded_key_leaks_task:
  "TimeWheel_AddTask ex_sent 15 ''k'' () = Ok ex_twice"
  "let w = place (receive (place (receive ex_twice) 0)) 1;
       w = unregister w ''k''
   in snd (TimeWheel_tickHandler (fst (TimeWheel_tickHandler w))) = [0]"
  by (simp_all add: TimeWheel_AddTask_def unregister_def send_task_def chan_send_def chan_make_def
      TimeWheel_tickHandler_def place_def receive_def delaySlots_def Let_def ex_twice_def ex_wheel_defs)

text \<open>\<^verbatim>\<open>Stop\<close> ends the \<^verbatim>\<open>run\<close> of the first level only: the levels after it keep running.\<close>

lemma Stop_keeps_higher_levels: "tw_step ws EvStop xs ws' \<Longrightarrow> tl ws' = tl ws"
  by (erule tw_stepE) auto

end
