(* ===== verification/Utf8.thy ===== *)
theory Utf8
  imports Go_Prelude
begin

text \<open>
  What the language does when a \<^verbatim>\<open>for range\<close> loop walks over a string: it decodes UTF-8, and a
  byte that does not begin a valid encoding counts as one \<^verbatim>\<open>U+FFFD\<close>. \<^verbatim>\<open>string(r)\<close> is the
  encoding of the rune \<open>r\<close>. Bytes and runes are natural numbers here.
\<close>

definition cont :: "nat \<Rightarrow> bool" where
  "cont b \<longleftrightarrow> 128 \<le> b \<and> b \<le> 191"

definition RuneError :: nat where
  "RuneError = 65533"

text \<open>The second byte of a three- and of a four-byte sequence excludes overlong forms, surrogates
  and code points beyond \<^verbatim>\<open>U+10FFFF\<close>.\<close>

definition second3 :: "nat \<Rightarrow> nat \<Rightarrow> bool" where
  "second3 b c \<longleftrightarrow> cont c \<and> (b = 224 \<longrightarrow> 160 \<le> c) \<and> (b = 237 \<longrightarrow> c \<le> 159)"

definition second4 :: "nat \<Rightarrow> nat \<Rightarrow> bool" where
  "second4 b c \<longleftrightarrow> cont c \<and> (b = 240 \<longrightarrow> 144 \<le> c) \<and> (b = 244 \<longrightarrow> c \<le> 143)"

text \<open>The first rune of a non-empty byte sequence and the number of bytes it takes.\<close>

definition decode_rune :: "nat \<Rightarrow> nat list \<Rightarrow> nat \<times> nat" where
  "decode_rune b bs =
     (if b < 128 then (b, 1)
      else if 194 \<le> b \<and> b \<le> 223 \<and> bs \<noteq> [] \<and> cont (bs ! 0) then
        ((b - 192) * 64 + (bs ! 0 - 128), 2)
      else if 224 \<le> b \<and> b \<le> 239 \<and> 2 \<le> length bs \<and> second3 b (bs ! 0) \<and> cont (bs ! 1) then
        ((b - 224) * 4096 + (bs ! 0 - 128) * 64 + (bs ! 1 - 128), 3)
      else if 240 \<le> b \<and> b \<le> 244 \<and> 3 \<le> length bs \<and> second4 b (bs ! 0) \<and> cont (bs ! 1) \<and> cont (bs ! 2) then
        ((b - 240) * 262144 + (bs ! 0 - 128) * 4096 + (bs ! 1 - 128) * 64 + (bs ! 2 - 128), 4)
      else (RuneError, 1))"

function decode_bytes :: "nat list \<Rightarrow> nat list" where
  "decode_bytes [] = []"
| "decode_bytes (b # bs) = (case decode_rune b bs of (r, n) \<Rightarrow> r # decode_bytes (drop (n - 1) bs))"
  by pat_completeness auto
termination by (relation "measure length") auto

definition encode_rune :: "nat \<Rightarrow> nat list" where
  "encode_rune r =
     (if r < 128 then [r]
      else if r < 2048 then [192 + r div 64, 128 + r mod 64]
      else if r < 65536 then [224 + r div 4096, 128 + r div 64 mod 64, 128 + r mod 64]
      else [240 + r div 262144, 128 + r div 4096 mod 64, 128 + r div 64 mod 64, 128 + r mod 64])"

definition valid_rune :: "nat \<Rightarrow> bool" where
  "valid_rune r \<longleftrightarrow> r < 55296 \<or> 57344 \<le> r \<and> r < 1114112"

lemma decode_rune2:
  "2 \<le> q \<Longrightarrow> q < 32 \<Longrightarrow> x < 64 \<Longrightarrow> decode_rune (192 + q) ((128 + x) # bs) = (q * 64 + x, 2)"
  by (simp add: decode_rune_def cont_def)

lemma decode_rune3:
  "q < 16 \<Longrightarrow> x < 64 \<Longrightarrow> y < 64 \<Longrightarrow> q = 0 \<longrightarrow> 32 \<le> x \<Longrightarrow> q = 13 \<longrightarrow> x < 32 \<Longrightarrow>
   decode_rune (224 + q) ((128 + x) # (128 + y) # bs) = (q * 4096 + x * 64 + y, 3)"
  by (auto simp: decode_rune_def cont_def second3_def)

lemma decode_rune4:
  "q < 5 \<Longrightarrow> x < 64 \<Longrightarrow> y < 64 \<Longrightarrow> z < 64 \<Longrightarrow> q = 0 \<longrightarrow> 16 \<le> x \<Longrightarrow> q = 4 \<longrightarrow> x < 16 \<Longrightarrow>
   decode_rune (240 + q) ((128 + x) # (128 + y) # (128 + z) # bs) = (q * 262144 + x * 4096 + y * 64 + z, 4)"
  by (auto simp: decode_rune_def cont_def second4_def)

lemma split3: "(r :: nat) div 4096 * 4096 + r div 64 mod 64 * 64 + r mod 64 = r"
proof -
  have "r div 64 = r div 4096 * 64 + r div 64 mod 64"
    using div_mult2_eq [of r 64 64] div_mult_mod_eq [of "r div 64" 64] by simp
  then show ?thesis using div_mult_mod_eq [of r 64] by linarith
qed

lemma split4:
  "(r :: nat) div 262144 * 262144 + r div 4096 mod 64 * 4096 + r div 64 mod 64 * 64 + r mod 64 = r"
proof -
  have "r div 4096 = r div 262144 * 64 + r div 4096 mod 64"
    using div_mult2_eq [of r 4096 64] div_mult_mod_eq [of "r div 4096" 64] by simp
  then show ?thesis using split3 [of r] by linarith
qed

lemma decode_encode_rune:
  assumes "valid_rune r"
  shows "decode_bytes (encode_rune r @ bs) = r # decode_bytes bs"
proof -
  consider "r < 128" | "128 \<le> r" "r < 2048" | "2048 \<le> r" "r < 65536" | "65536 \<le> r" "r < 1114112"
    using assms unfolding valid_rune_def by linarith
  then show ?thesis
  proof cases
    case 1
    then show ?thesis by (simp add: encode_rune_def decode_rune_def)
  next
    case 2
    then have "decode_rune (192 + r div 64) ((128 + r mod 64) # bs) = (r, 2)"
      using decode_rune2 [of "r div 64" "r mod 64" bs] by simp
    with 2 show ?thesis by (simp add: encode_rune_def)
  next
    case 3
    define q x y where "q = r div 4096" and "x = r div 64 mod 64" and "y = r mod 64"
    note d = q_def [symmetric] x_def [symmetric] y_def [symmetric]
    have b: "x < 64" "y < 64" by (simp_all add: x_def y_def)
    have sp: "q * 4096 + x * 64 + y = r" unfolding q_def x_def y_def by (rule split3)
    then have "q < 16" "q = 0 \<longrightarrow> 32 \<le> x" "q = 13 \<longrightarrow> x < 32"
      using 3 b assms unfolding valid_rune_def by linarith+
    then have "decode_rune (224 + r div 4096) ((128 + r div 64 mod 64) # (128 + r mod 64) # bs) = (r, 3)"
      unfolding d using decode_rune3 [of q x y bs] b sp by simp
    with 3 show ?thesis by (simp add: encode_rune_def)
  next
    case 4
    define q x y z where "q = r div 262144" and "x = r div 4096 mod 64" and "y = r div 64 mod 64" and "z = r mod 64"
    note d = q_def [symmetric] x_def [symmetric] y_def [symmetric] z_def [symmetric]
    have b: "x < 64" "y < 64" "z < 64" by (simp_all add: x_def y_def z_def)
    have sp: "q * 262144 + x * 4096 + y * 64 + z = r" unfolding q_def x_def y_def z_def by (rule split4)
    then have "q < 5" "q = 0 \<longrightarrow> 16 \<le> x" "q = 4 \<longrightarrow> x < 16" using 4 b by linarith+
    then have "decode_rune (240 + r div 262144)
        ((128 + r div 4096 mod 64) # (128 + r div 64 mod 64) # (128 + r mod 64) # bs) = (r, 4)"
      unfolding d using decode_rune4 [of q x y z bs] b sp by simp
    with 4 show ?thesis by (simp add: encode_rune_def)
  qed
qed

lemma decode_rune_valid: "valid_rune (fst (decode_rune b bs))"
proof -
  have three: "valid_rune ((b - 224) * 4096 + (c - 128) * 64 + (d - 128))"
    if "224 \<le> b" "b \<le> 239" "second3 b c" "cont d" for c d
  proof -
    from that have b: "c - 128 < 64" "d - 128 < 64" "b - 224 < 16" by (auto simp: second3_def cont_def)
    have "b - 224 = 13 \<Longrightarrow> c - 128 < 32" using that unfolding second3_def cont_def by arith
    then consider "b - 224 < 13" | "b - 224 = 13" "c - 128 < 32" | "13 < b - 224"
      by linarith
    then show ?thesis using b unfolding valid_rune_def by cases linarith+
  qed
  have four: "valid_rune ((b - 240) * 262144 + (c - 128) * 4096 + (d - 128) * 64 + (e - 128))"
    if "240 \<le> b" "b \<le> 244" "second4 b c" "cont d" "cont e" for c d e
  proof -
    from that have b: "c - 128 < 64" "d - 128 < 64" "e - 128 < 64" "b - 240 < 5"
      by (auto simp: second4_def cont_def)
    have "b - 240 = 0 \<Longrightarrow> 16 \<le> c - 128" "b - 240 = 4 \<Longrightarrow> c - 128 < 16"
      using that unfolding second4_def cont_def by arith+
    with b consider "b - 240 = 0" "16 \<le> c - 128" | "0 < b - 240" "b - 240 < 4" | "b - 240 = 4" "c - 128 < 16"
      by linarith
    then show ?thesis using b unfolding valid_rune_def by cases linarith+
  qed
  have two: "valid_rune ((b - 192) * 64 + (c - 128))" if "b \<le> 223" "cont c" for c
    using that unfolding valid_rune_def cont_def by linarith
  have "b < 128 \<Longrightarrow> valid_rune b" "valid_rune RuneError" by (simp_all add: valid_rune_def RuneError_def)
  then show ?thesis
    using two [of "bs ! 0"] three [of "bs ! 0" "bs ! 1"] four [of "bs ! 0" "bs ! 1" "bs ! 2"]
    unfolding decode_rune_def by (simp split: if_split)
qed

lemma decode_bytes_valid: "r \<in> set (decode_bytes bs) \<Longrightarrow> valid_rune r"
proof (induction bs rule: decode_bytes.induct)
  case (2 b bs)
  then show ?case using decode_rune_valid [of b bs] by (cases "decode_rune b bs") auto
qed simp

subsection \<open>Strings\<close>

definition runes :: "string \<Rightarrow> nat list" where
  "runes s = decode_bytes (map of_char s)"

definition string_of_rune :: "nat \<Rightarrow> string" where
  "string_of_rune r = map char_of (encode_rune r)"

definition string_of_runes :: "nat list \<Rightarrow> string" where
  "string_of_runes rs = concat (map string_of_rune rs)"

definition valid_utf8 :: "string \<Rightarrow> bool" where
  "valid_utf8 s \<longleftrightarrow> string_of_runes (runes s) = s"

definition ascii :: "string \<Rightarrow> bool" where
  "ascii s \<longleftrightarrow> (\<forall>c \<in> set s. (of_char c :: nat) < 128)"

text \<open>The bytes of a string, read as runes: what \<^verbatim>\<open>rune(s[i])\<close> gives for each \<open>i\<close>.\<close>

definition bytes :: "string \<Rightarrow> nat list" where
  "bytes s = map of_char s"

lemma bytes_inject [simp]: "bytes s = bytes s' \<longleftrightarrow> s = s'"
  unfolding bytes_def by (rule inj_map_eq_map) (rule inj_of_char)

lemma runes_empty [simp]: "runes [] = []"
  by (simp add: runes_def)

lemma encode_rune_bytes: "valid_rune r \<Longrightarrow> b \<in> set (encode_rune r) \<Longrightarrow> b < 256"
  by (auto simp: encode_rune_def valid_rune_def less_mult_imp_div_less split: if_splits)

lemma of_char_string_of_rune: "valid_rune r \<Longrightarrow> map of_char (string_of_rune r) = encode_rune r"
  by (auto simp: string_of_rune_def intro!: map_idI dest: encode_rune_bytes)

lemma runes_string_of_rune: "valid_rune r \<Longrightarrow> runes (string_of_rune r @ s) = r # runes s"
  by (simp add: runes_def of_char_string_of_rune decode_encode_rune)

lemma runes_string_of_runes: "\<forall>r \<in> set rs. valid_rune r \<Longrightarrow> runes (string_of_runes rs) = rs"
  by (induction rs) (simp_all add: string_of_runes_def runes_string_of_rune)

lemma runes_append:
  assumes "valid_utf8 s"
  shows "runes (s @ t) = runes s @ runes t"
proof -
  have "\<forall>r \<in> set rs. valid_rune r \<Longrightarrow> runes (string_of_runes rs @ t) = rs @ runes t" for rs
    by (induction rs) (simp_all add: string_of_runes_def runes_string_of_rune)
  moreover have "\<forall>r \<in> set (runes s). valid_rune r" by (simp add: runes_def decode_bytes_valid)
  ultimately show ?thesis using assms by (metis valid_utf8_def)
qed

lemma runes_valid: "r \<in> set (runes s) \<Longrightarrow> valid_rune r"
  unfolding runes_def by (rule decode_bytes_valid)

lemma valid_utf8_string_of_runes: "\<forall>r \<in> set rs. valid_rune r \<Longrightarrow> valid_utf8 (string_of_runes rs)"
  by (simp add: valid_utf8_def runes_string_of_runes)

lemma runes_inject: "valid_utf8 s \<Longrightarrow> valid_utf8 t \<Longrightarrow> runes s = runes t \<longleftrightarrow> s = t"
  by (metis valid_utf8_def)

lemma ascii_runes: "ascii s \<Longrightarrow> runes s = bytes s"
  by (induction s) (auto simp: ascii_def runes_def bytes_def decode_rune_def)

lemma ascii_valid: "ascii s \<Longrightarrow> valid_utf8 s"
  by (induction s) (auto simp: ascii_def runes_def decode_rune_def valid_utf8_def string_of_runes_def
      string_of_rune_def encode_rune_def)

text \<open>Only ASCII strings have their bytes as runes, among the valid ones.\<close>

lemma string_of_runes_length:
  "length rs \<le> length (string_of_runes rs) \<and>
   (length (string_of_runes rs) = length rs \<longrightarrow> (\<forall>r \<in> set rs. r < 128))"
  by (induction rs) (auto simp: string_of_runes_def string_of_rune_def encode_rune_def split: if_splits)

lemma runes_eq_bytes:
  assumes "valid_utf8 s"
  shows "runes s = bytes s \<longleftrightarrow> ascii s"
proof
  assume eq: "runes s = bytes s"
  then have "length (string_of_runes (runes s)) = length (runes s)"
    using assms by (simp add: valid_utf8_def bytes_def)
  then have "\<forall>r \<in> set (runes s). r < 128" using string_of_runes_length by blast
  then show "ascii s" unfolding eq by (simp add: bytes_def ascii_def)
qed (rule ascii_runes)

end
