(* ===== verification/String_Index.thy ===== *)
theory String_Index
  imports Go_Prelude
begin

text \<open>
  What a client of a string-keyed tree relies on, as an interface. \<open>valid\<close> says for which keys
  the structure promises anything, \<open>compat\<close> when a new key may be inserted next to a key that
  is already there. The law of the interface is that, under these conditions, an insertion
  changes the result of a search for the inserted key only.
\<close>

locale string_index =
  fixes empty :: 't
    and insert :: "string \<Rightarrow> 'v \<Rightarrow> 't \<Rightarrow> 't"
    and search :: "'t \<Rightarrow> string \<Rightarrow> 'v option"
    and inv :: "'t \<Rightarrow> bool"
    and valid :: "string \<Rightarrow> bool"
    and compat :: "string \<Rightarrow> string \<Rightarrow> bool"
  assumes inv_empty: "inv empty"
    and search_empty: "valid k \<Longrightarrow> search empty k = None"
    and inv_insert: "inv t \<Longrightarrow> valid k \<Longrightarrow>
      \<forall>k'. valid k' \<longrightarrow> search t k' \<noteq> None \<longrightarrow> compat k k' \<Longrightarrow> inv (insert k v t)"
    and search_insert: "inv t \<Longrightarrow> valid k \<Longrightarrow> valid k' \<Longrightarrow>
      \<forall>k'. valid k' \<longrightarrow> search t k' \<noteq> None \<longrightarrow> compat k k' \<Longrightarrow>
      search (insert k v t) k' = (if k' = k then Some v else search t k')"
begin

definition load :: "(string \<times> 'v) list \<Rightarrow> 't" where
  "load kvs = fold (\<lambda>(k, v). insert k v) kvs empty"

definition loadable :: "(string \<times> 'v) list \<Rightarrow> bool" where
  "loadable kvs \<longleftrightarrow> (\<forall>k \<in> fst ` set kvs. valid k) \<and> sorted_wrt (\<lambda>x y. compat (fst y) (fst x)) kvs"

lemma load_snoc: "load (kvs @ [(k, v)]) = insert k v (load kvs)"
  by (simp add: load_def)

lemma loadable_snoc:
  "loadable (kvs @ [(k, v)]) \<longleftrightarrow> loadable kvs \<and> valid k \<and> (\<forall>k' \<in> fst ` set kvs. compat k k')"
  by (auto simp: loadable_def sorted_wrt_append)

lemma load_correct:
  "loadable kvs \<Longrightarrow> inv (load kvs) \<and> (\<forall>k. valid k \<longrightarrow> search (load kvs) k = map_of (rev kvs) k)"
proof (induction kvs rule: rev_induct)
  case Nil
  then show ?case by (simp add: load_def inv_empty search_empty)
next
  case (snoc x kvs)
  obtain k v where x: "x = (k, v)" by fastforce
  from snoc x have ok: "loadable kvs" "valid k" "\<forall>k' \<in> fst ` set kvs. compat k k'"
    by (auto simp: loadable_snoc)
  note IH = snoc.IH [OF ok(1)]
  have present: "\<forall>k'. valid k' \<longrightarrow> search (load kvs) k' \<noteq> None \<longrightarrow> compat k k'"
    using IH ok(3) by (auto dest!: map_of_SomeD) force
  show ?case
    using IH ok inv_insert [OF _ ok(2) present] search_insert [OF _ ok(2) _ present]
    by (simp add: x load_snoc)
qed

end

end
