(* ===== verification/Prefix_Tree.thy ===== *)
theory Prefix_Tree
  imports Utf8 String_Index
begin

text \<open>
  The character trie of \<^verbatim>\<open>pkg/algorithm/prefix_tree.go\<close>. Its edges are runes: insertion and search
  range over the key (decoding UTF-8), while deletion indexes the key's bytes, and both are
  modelled as they are. A value is an \<^verbatim>\<open>interface{}\<close>, with \<^term>\<open>None\<close> for nil. The trie has the
  lock's state as a field, because \<^verbatim>\<open>Import\<close> calls \<^verbatim>\<open>Insert\<close> while it holds the lock.
\<close>

subsection \<open>Data\<close>

datatype 'v trie_node = TrieNode
  (tn_children: "(nat \<times> 'v trie_node) list") (tn_isEnd: bool) (tn_value: "'v option")

record 'v trie =
  trie_root :: "'v trie_node"
  trie_mu :: rwmutex

definition empty_node :: "'v trie_node" where
  "empty_node = TrieNode [] False None"

definition NewTrie :: "'v trie" where
  "NewTrie = \<lparr>trie_root = empty_node, trie_mu = Unlocked\<rparr>"

subsection \<open>Operations on nodes\<close>

primrec node_insert :: "nat list \<Rightarrow> 'v option \<Rightarrow> 'v trie_node \<Rightarrow> 'v trie_node" where
  "node_insert [] value node = TrieNode (tn_children node) True value"
| "node_insert (ch # rest) value node =
     (let child = (case map_of (tn_children node) ch of None \<Rightarrow> empty_node | Some n \<Rightarrow> n)
      in TrieNode (gm_put ch (node_insert rest value child) (tn_children node))
           (tn_isEnd node) (tn_value node))"

primrec node_walk :: "nat list \<Rightarrow> 'v trie_node \<Rightarrow> 'v trie_node option" where
  "node_walk [] node = Some node"
| "node_walk (ch # rest) node =
     (case map_of (tn_children node) ch of None \<Rightarrow> None | Some n \<Rightarrow> node_walk rest n)"

text \<open>The recursion of \<^verbatim>\<open>delete\<close>; its result says whether the parent should drop the node.\<close>

primrec node_delete :: "nat list \<Rightarrow> 'v trie_node \<Rightarrow> 'v trie_node \<times> bool" where
  "node_delete [] node =
     (if \<not> tn_isEnd node then (node, False)
      else (TrieNode (tn_children node) False None, tn_children node = []))"
| "node_delete (ch # rest) node =
     (case map_of (tn_children node) ch of
        None \<Rightarrow> (node, False)
      | Some child \<Rightarrow>
          (let (child', shouldDeleteChild) = node_delete rest child
           in if shouldDeleteChild then
                (let children = gm_del ch (tn_children node)
                 in (TrieNode children (tn_isEnd node) (tn_value node), \<not> tn_isEnd node \<and> children = []))
              else (TrieNode (gm_put ch child' (tn_children node)) (tn_isEnd node) (tn_value node), False)))"

text \<open>The walk over all words below a node; the order of the children is the range order.\<close>

fun collectWords :: "'v trie_node \<Rightarrow> string \<Rightarrow> (string \<rightharpoonup> 'v option) \<Rightarrow> (string \<rightharpoonup> 'v option)" where
  "collectWords (TrieNode children isEnd value) pre result =
     fold (\<lambda>c r. collectWords (snd c) (pre @ string_of_rune (fst c)) r) children
       (if isEnd then result(pre \<mapsto> value) else result)"

fun countNodes :: "'v trie_node \<Rightarrow> nat" where
  "countNodes (TrieNode children isEnd value) = 1 + sum_list (map (\<lambda>c. countNodes (snd c)) children)"

fun countWords :: "'v trie_node \<Rightarrow> nat" where
  "countWords (TrieNode children isEnd value) =
     (if isEnd then 1 else 0) + sum_list (map (\<lambda>c. countWords (snd c)) children)"

fun maxDepth :: "'v trie_node \<Rightarrow> nat \<Rightarrow> nat" where
  "maxDepth (TrieNode children isEnd value) depth =
     fold (\<lambda>c m. let childDepth = maxDepth (snd c) (depth + 1) in if m < childDepth then childDepth else m)
       children depth"

fun exportWords :: "'v trie_node \<Rightarrow> string \<Rightarrow> (string \<rightharpoonup> 'v option)" where
  "exportWords (TrieNode children isEnd value) pre =
     fold (\<lambda>c words. words ++ exportWords (snd c) (pre @ string_of_rune (fst c))) children
       (if isEnd then [pre \<mapsto> value] else Map.empty)"

subsection \<open>Operations on the trie\<close>

text \<open>A method body between \<^verbatim>\<open>Lock\<close> and the deferred \<^verbatim>\<open>Unlock\<close>, and one between \<^verbatim>\<open>RLock\<close> and \<^verbatim>\<open>RUnlock\<close>.\<close>

definition locked ::
    "'v trie \<Rightarrow> ('v trie \<Rightarrow> (unit, 'v trie \<times> 'a) outcome) \<Rightarrow> (unit, 'v trie \<times> 'a) outcome" where
  "locked t body = (case rw_lock (trie_mu t) of
     Ok m \<Rightarrow> (case body (t\<lparr>trie_mu := m\<rparr>) of
               Ok (t', x) \<Rightarrow> Ok (t'\<lparr>trie_mu := rw_unlock (trie_mu t')\<rparr>, x)
             | Err e \<Rightarrow> Err e | Panic \<Rightarrow> Panic | Blocks \<Rightarrow> Blocks)
   | Err e \<Rightarrow> Err e | Panic \<Rightarrow> Panic | Blocks \<Rightarrow> Blocks)"

definition rlocked :: "'v trie \<Rightarrow> ('v trie \<Rightarrow> (unit, 'a) outcome) \<Rightarrow> (unit, 'a) outcome" where
  "rlocked t body = (case rw_rlock (trie_mu t) of
     Ok m \<Rightarrow> body (t\<lparr>trie_mu := m\<rparr>) | Err e \<Rightarrow> Err e | Panic \<Rightarrow> Panic | Blocks \<Rightarrow> Blocks)"

definition Trie_Insert :: "'v trie \<Rightarrow> string \<Rightarrow> 'v option \<Rightarrow> (unit, 'v trie \<times> unit) outcome" where
  "Trie_Insert t key value =
     locked t (\<lambda>t. Ok (t\<lparr>trie_root := node_insert (runes key) value (trie_root t)\<rparr>, ()))"

definition Trie_Search :: "'v trie \<Rightarrow> string \<Rightarrow> (unit, 'v option \<times> bool) outcome" where
  "Trie_Search t key = rlocked t (\<lambda>t. Ok (case node_walk (runes key) (trie_root t) of
     None \<Rightarrow> (None, False) | Some node \<Rightarrow> (tn_value node, tn_isEnd node)))"

definition Trie_StartsWith :: "'v trie \<Rightarrow> string \<Rightarrow> (unit, bool) outcome" where
  "Trie_StartsWith t pre = rlocked t (\<lambda>t. Ok (case node_walk (runes pre) (trie_root t) of
     None \<Rightarrow> False | Some node \<Rightarrow> True))"

definition Trie_Delete :: "'v trie \<Rightarrow> string \<Rightarrow> (unit, 'v trie \<times> bool) outcome" where
  "Trie_Delete t key = locked t (\<lambda>t.
     let (root, r) = node_delete (bytes key) (trie_root t) in Ok (t\<lparr>trie_root := root\<rparr>, r))"

definition Trie_FindAllWithPrefix :: "'v trie \<Rightarrow> string \<Rightarrow> (unit, string \<rightharpoonup> 'v option) outcome" where
  "Trie_FindAllWithPrefix t pre = rlocked t (\<lambda>t. Ok (case node_walk (runes pre) (trie_root t) of
     None \<Rightarrow> Map.empty | Some node \<Rightarrow> collectWords node pre Map.empty))"

record trie_stats =
  st_node_count :: nat
  st_word_count :: nat
  st_max_depth :: nat
  st_memory_usage :: nat

definition Trie_estimateMemoryUsage :: "'v trie \<Rightarrow> nat" where
  "Trie_estimateMemoryUsage t = countNodes (trie_root t) * 100"

definition Trie_GetStats :: "'v trie \<Rightarrow> (unit, trie_stats) outcome" where
  "Trie_GetStats t = rlocked t (\<lambda>t. Ok \<lparr>st_node_count = countNodes (trie_root t),
     st_word_count = countWords (trie_root t), st_max_depth = maxDepth (trie_root t) 0,
     st_memory_usage = Trie_estimateMemoryUsage t\<rparr>)"

definition Trie_Size :: "'v trie \<Rightarrow> (unit, nat) outcome" where
  "Trie_Size t = rlocked t (\<lambda>t. Ok (countNodes (trie_root t)))"

definition Trie_Export :: "'v trie \<Rightarrow> (unit, (string \<rightharpoonup> 'v option) \<times> trie_stats) outcome" where
  "Trie_Export t = rlocked t (\<lambda>t. case Trie_GetStats t of
     Ok stats \<Rightarrow> Ok (exportWords (trie_root t) [], stats)
   | Err e \<Rightarrow> Err e | Panic \<Rightarrow> Panic | Blocks \<Rightarrow> Blocks)"

text \<open>\<open>words\<close> are the entries of \<^verbatim>\<open>data["words"]\<close> in range order, or none if it is not a map.\<close>

fun import_loop :: "'v trie \<Rightarrow> (string \<times> 'v option) list \<Rightarrow> (unit, 'v trie) outcome" where
  "import_loop t [] = Ok t"
| "import_loop t ((key, value) # rest) = (case Trie_Insert t key value of
     Ok (t', _) \<Rightarrow> import_loop t' rest | Err e \<Rightarrow> Err e | Panic \<Rightarrow> Panic | Blocks \<Rightarrow> Blocks)"

definition Trie_Import ::
    "'v trie \<Rightarrow> (string \<times> 'v option) list option \<Rightarrow> (unit, 'v trie \<times> unit) outcome" where
  "Trie_Import t words = locked t (\<lambda>t.
     let t = t\<lparr>trie_root := empty_node\<rparr>
     in case words of
          None \<Rightarrow> Ok (t, ())
        | Some kvs \<Rightarrow> (case import_loop t kvs of
            Ok t' \<Rightarrow> Ok (t', ()) | Err e \<Rightarrow> Err e | Panic \<Rightarrow> Panic | Blocks \<Rightarrow> Blocks))"

subsection \<open>Lookup\<close>

text \<open>The value of the word with the given runes, if the trie has that word.\<close>

definition lookup :: "'v trie_node \<Rightarrow> nat list \<Rightarrow> 'v option option" where
  "lookup node rs = (case node_walk rs node of
     None \<Rightarrow> None | Some n \<Rightarrow> if tn_isEnd n then Some (tn_value n) else None)"

lemma lookup_simps [simp]:
  "lookup node [] = (if tn_isEnd node then Some (tn_value node) else None)"
  "lookup node (ch # rs) = (case map_of (tn_children node) ch of None \<Rightarrow> None | Some n \<Rightarrow> lookup n rs)"
  by (simp_all add: lookup_def split: option.splits)

lemma lookup_empty [simp]: "lookup empty_node rs = None"
  by (cases rs) (simp_all add: empty_node_def)

lemma lookup_insert: "lookup (node_insert ks v node) rs = (if rs = ks then Some v else lookup node rs)"
proof (induction ks arbitrary: node rs)
  case Nil
  then show ?case by (cases rs) auto
next
  case (Cons c ks)
  then show ?case by (cases rs) (auto simp: Let_def split: option.splits)
qed

lemma node_delete_prunes:
  "node_delete ks node = (node', True) \<Longrightarrow> tn_children node' = [] \<and> \<not> tn_isEnd node'"
  by (cases ks) (auto simp: Let_def split: if_splits option.splits prod.splits)

lemma lookup_dead: "tn_children node = [] \<Longrightarrow> \<not> tn_isEnd node \<Longrightarrow> lookup node rs = None"
  by (cases rs) auto

lemma lookup_delete: "lookup (fst (node_delete ks node)) rs = (if rs = ks then None else lookup node rs)"
proof (induction ks arbitrary: node rs)
  case Nil
  then show ?case by (cases rs) auto
next
  case (Cons c ks)
  show ?case
  proof (cases "map_of (tn_children node) c")
    case None
    then show ?thesis by (cases rs) auto
  next
    case (Some child)
    obtain child' b where d: "node_delete ks child = (child', b)" by fastforce
    with Cons [of child] have IH: "lookup child' rs = (if rs = ks then None else lookup child rs)" for rs
      by simp
    show ?thesis
    proof (cases b)
      case True
      with d have "lookup child' rs = None" for rs using node_delete_prunes lookup_dead by metis
      with IH have "rs \<noteq> ks \<longrightarrow> lookup child rs = None" for rs by metis
      with Some d True show ?thesis by (cases rs) (auto simp: Let_def)
    next
      case False
      with Some d IH show ?thesis by (cases rs) (auto simp: Let_def)
    qed
  qed
qed

text \<open>Distinct edges and valid runes, in every node.\<close>

fun node_ok :: "'v trie_node \<Rightarrow> bool" where
  "node_ok (TrieNode children isEnd value) \<longleftrightarrow>
     gm_wf children \<and> (\<forall>c \<in> set children. valid_rune (fst c) \<and> node_ok (snd c))"

lemma node_ok_alt:
  "node_ok node \<longleftrightarrow> gm_wf (tn_children node) \<and>
     (\<forall>c n. map_of (tn_children node) c = Some n \<longrightarrow> valid_rune c \<and> node_ok n)"
  by (cases node) (force dest: map_of_SomeD)

lemma node_ok_empty [simp]: "node_ok empty_node"
  by (simp add: empty_node_def)

lemma node_ok_insert: "node_ok node \<Longrightarrow> \<forall>r \<in> set ks. valid_rune r \<Longrightarrow> node_ok (node_insert ks v node)"
proof (induction ks arbitrary: node)
  case Nil
  then show ?case by (cases node) simp
next
  case (Cons c ks)
  have "node_ok (case map_of (tn_children node) c of None \<Rightarrow> empty_node | Some n \<Rightarrow> n)"
    using Cons.prems(1) by (auto simp: node_ok_alt [of node] split: option.split)
  with Cons show ?case
    by (auto simp: Let_def node_ok_alt [of node] node_ok_alt [of "TrieNode _ _ _"] distinct_update
        simp del: node_ok.simps split: if_splits)
qed

lemma node_ok_delete: "node_ok node \<Longrightarrow> node_ok (fst (node_delete ks node))"
proof (induction ks arbitrary: node)
  case Nil
  then show ?case by (cases node) simp
next
  case (Cons c ks)
  show ?case
  proof (cases "map_of (tn_children node) c")
    case None
    then show ?thesis using Cons.prems by simp
  next
    case (Some child)
    obtain child' b where d: "node_delete ks child = (child', b)" by fastforce
    have "valid_rune c" "node_ok child" using Cons.prems Some by (auto simp: node_ok_alt [of node])
    with Cons.IH [of child] d Cons.prems Some show ?thesis
      by (auto simp: Let_def node_ok_alt [of node] node_ok_alt [of "TrieNode _ _ _"] distinct_update
          distinct_delete simp del: node_ok.simps split: if_splits)
  qed
qed

subsection \<open>The words of a trie\<close>

fun words :: "'v trie_node \<Rightarrow> (nat list \<times> 'v option) list" where
  "words (TrieNode children isEnd value) =
     (if isEnd then [([], value)] else []) @
     concat (map (\<lambda>c. map (\<lambda>w. (fst c # fst w, snd w)) (words (snd c))) children)"

lemma words_lookup: "node_ok node \<Longrightarrow> (rs, v) \<in> set (words node) \<longleftrightarrow> lookup node rs = Some v"
proof (induction node arbitrary: rs rule: words.induct)
  case (1 children isEnd x)
  have IH: "(rs, v) \<in> set (words n) \<longleftrightarrow> lookup n rs = Some v" if "(c, n) \<in> set children" for c n rs
    using 1 that by fastforce
  show ?case
  proof (cases rs)
    case Nil
    then show ?thesis by auto
  next
    case (Cons c rest)
    have "(rs, v) \<in> set (words (TrieNode children isEnd x)) \<longleftrightarrow>
        (\<exists>n. (c, n) \<in> set children \<and> (rest, v) \<in> set (words n))"
      using Cons by force
    also have "\<dots> \<longleftrightarrow> (\<exists>n. map_of children c = Some n \<and> lookup n rest = Some v)"
      using 1(2) IH by (auto simp: map_of_eq_Some_iff)
    also have "\<dots> \<longleftrightarrow> lookup (TrieNode children isEnd x) rs = Some v"
      using Cons by (auto split: option.splits)
    finally show ?thesis .
  qed
qed

lemma words_valid: "node_ok node \<Longrightarrow> (rs, v) \<in> set (words node) \<Longrightarrow> \<forall>r \<in> set rs. valid_rune r"
  by (induction node arbitrary: rs rule: words.induct) (fastforce split: if_splits)

lemma countWords_words: "countWords node = length (words node)"
  by (induction node rule: words.induct)
    (auto simp: length_concat comp_def intro!: arg_cong [of _ _ sum_list])

lemma collectWords_words:
  "collectWords node pre result = fold (\<lambda>w r. r(pre @ string_of_runes (fst w) \<mapsto> snd w)) (words node) result"
proof (induction node arbitrary: pre result rule: words.induct)
  case (1 children isEnd x)
  have "fold (\<lambda>c r. collectWords (snd c) (pre @ string_of_rune (fst c)) r) cs result =
      fold (\<lambda>w r. r(pre @ string_of_runes (fst w) \<mapsto> snd w))
        (concat (map (\<lambda>c. map (\<lambda>w. (fst c # fst w, snd w)) (words (snd c))) cs)) result"
    if "set cs \<subseteq> set children" for cs result
    using that 1 by (induction cs arbitrary: result) (auto simp: fold_map comp_def string_of_runes_def)
  then show ?case by (simp add: string_of_runes_def [of "[]"] del: fun_upd_apply)
qed

lemma fold_put_functional:
  assumes "\<forall>w \<in> set ws. f w = k \<longrightarrow> g w = v"
  shows "fold (\<lambda>w r. r(f w \<mapsto> g w)) ws m k = (if k \<in> f ` set ws then Some v else m k)"
  using assms by (induction ws arbitrary: m) auto

lemma string_of_runes_inject:
  "\<forall>r \<in> set rs. valid_rune r \<Longrightarrow> \<forall>r \<in> set rs'. valid_rune r \<Longrightarrow>
   string_of_runes rs = string_of_runes rs' \<longleftrightarrow> rs = rs'"
  by (metis runes_string_of_runes)

lemma collectWords_lookup:
  assumes "node_ok node"
  shows "collectWords node pre Map.empty k =
    (if prefix pre k \<and> valid_utf8 (drop (length pre) k) then lookup node (runes (drop (length pre) k)) else None)"
proof (cases "\<exists>rs v. k = pre @ string_of_runes rs \<and> (rs, v) \<in> set (words node)")
  case True
  then obtain rs v where k: "k = pre @ string_of_runes rs" and w: "(rs, v) \<in> set (words node)" by blast
  have ok: "\<forall>r \<in> set rs. valid_rune r" using words_valid [OF assms w] .
  have "snd w' = v" if "w' \<in> set (words node)" "pre @ string_of_runes (fst w') = k" for w'
  proof -
    have "fst w' = rs"
      using that k ok words_valid [OF assms, of "fst w'" "snd w'"] string_of_runes_inject [of "fst w'" rs] by simp
    with that(1) w have "lookup node rs = Some (snd w')" "lookup node rs = Some v"
      using words_lookup [OF assms, of "fst w'" "snd w'"] words_lookup [OF assms, of rs v] by auto
    then show ?thesis by simp
  qed
  moreover have "k \<in> (\<lambda>w. pre @ string_of_runes (fst w)) ` set (words node)"
    using w k by (intro image_eqI [of _ _ "(rs, v)"]) simp_all
  ultimately have "collectWords node pre Map.empty k = Some v"
    unfolding collectWords_words by (subst fold_put_functional [where v = v]) simp_all
  moreover have "lookup node rs = Some v" using w words_lookup [OF assms] by blast
  ultimately show ?thesis using k ok by (simp add: valid_utf8_string_of_runes runes_string_of_runes)
next
  case False
  then have no: "pre @ string_of_runes (fst w) \<noteq> k" if "w \<in> set (words node)" for w
    using that by (metis prod.collapse)
  then have "k \<notin> (\<lambda>w. pre @ string_of_runes (fst w)) ` set (words node)" by blast
  then have none: "collectWords node pre Map.empty k = None"
    unfolding collectWords_words using fold_put_functional [of "words node" _ k snd None] no by simp
  have "lookup node (runes s) = None" if k: "k = pre @ s" "valid_utf8 s" for s
  proof (cases "lookup node (runes s)")
    case (Some v)
    then have "(runes s, v) \<in> set (words node)" using words_lookup [OF assms] by simp
    from no [OF this] k show ?thesis by (simp add: valid_utf8_def)
  qed
  with none show ?thesis unfolding prefix_def by force
qed

lemma lookup_walk: "lookup node (ks @ rs) = (case node_walk ks node of None \<Rightarrow> None | Some n \<Rightarrow> lookup n rs)"
  by (induction ks arbitrary: node) (auto split: option.splits)

lemma node_ok_walk: "node_ok node \<Longrightarrow> node_walk ks node = Some n \<Longrightarrow> node_ok n"
proof (induction ks arbitrary: node)
  case (Cons c ks)
  then show ?case using node_ok_alt [of node] by (auto split: option.splits)
qed simp

interpretation trie_index: string_index empty_node "\<lambda>k v. node_insert (runes k) v"
  "\<lambda>t k. lookup t (runes k)" node_ok valid_utf8 "\<lambda>_ _. True"
  by unfold_locales (auto simp: node_ok_insert runes_valid lookup_insert runes_inject)

subsection \<open>Properties\<close>

text \<open>The tries that insertions and deletions lead to, with no operation in progress.\<close>

inductive trie_reach :: "'v trie \<Rightarrow> bool" where
  reach_new: "trie_reach NewTrie"
| reach_insert: "trie_reach t \<Longrightarrow> Trie_Insert t key val = Ok (t', u) \<Longrightarrow> trie_reach t'"
| reach_delete: "trie_reach t \<Longrightarrow> Trie_Delete t key = Ok (t', b) \<Longrightarrow> trie_reach t'"

lemma trie_reach_ok: "trie_reach t \<Longrightarrow> node_ok (trie_root t) \<and> trie_mu t = Unlocked"
proof (induction rule: trie_reach.induct)
  case reach_new
  then show ?case by (simp add: NewTrie_def)
next
  case (reach_insert t key val t' u)
  then show ?case by (auto simp: Trie_Insert_def locked_def node_ok_insert runes_valid)
next
  case (reach_delete t key t' b)
  then show ?case using node_ok_delete [of "trie_root t" "bytes key"]
    by (auto simp: Trie_Delete_def locked_def split: prod.splits)
qed

definition found :: "(unit, 'v option \<times> bool) outcome \<Rightarrow> 'v option option" where
  "found r = (case r of Ok (v, True) \<Rightarrow> Some v | _ \<Rightarrow> None)"

lemma found_Search: "trie_mu t = Unlocked \<Longrightarrow> found (Trie_Search t k) = lookup (trie_root t) (runes k)"
  by (simp add: Trie_Search_def rlocked_def found_def lookup_def split: option.splits)

lemma Insert_unlocked:
  "trie_mu t = Unlocked \<Longrightarrow>
     Trie_Insert t k v = Ok (t\<lparr>trie_root := node_insert (runes k) v (trie_root t)\<rparr>, ())"
  by (simp add: Trie_Insert_def locked_def)

lemma import_unlocked:
  "trie_mu t = Unlocked \<Longrightarrow>
     import_loop t kvs = Ok (t\<lparr>trie_root := fold (\<lambda>(k, v). node_insert (runes k) v) kvs (trie_root t)\<rparr>)"
proof (induction kvs arbitrary: t)
  case (Cons kv kvs)
  then show ?case by (cases kv) (simp add: Insert_unlocked)
qed simp

lemma ascii_ab [simp]: "ascii ''a''" "ascii ''ab''" "ascii ''b''"
  by (simp_all add: ascii_def)

text \<open>
  C16: Inserting a list of entries with valid UTF-8 keys one after the other into a new trie
  always returns, and then a search finds exactly the last value inserted for each key.
\<close>

theorem Trie_load_correct:
  assumes "\<forall>k \<in> fst ` set kvs. valid_utf8 k"
  shows "\<exists>t. import_loop NewTrie kvs = Ok t \<and>
    (\<forall>k. valid_utf8 k \<longrightarrow> found (Trie_Search t k) = map_of (rev kvs) k)"
proof -
  have "trie_index.loadable kvs" unfolding trie_index.loadable_def using assms by (simp add: sorted_wrt_true)
  from trie_index.load_correct [OF this] show ?thesis
    by (simp add: import_unlocked NewTrie_def found_Search trie_index.load_def)
qed

theorem Trie_load_correct_witness:
  "\<exists>t. import_loop NewTrie [(''a'', Some 1), (''ab'', Some 2), (''a'', Some (3 :: nat))] = Ok t \<and>
     found (Trie_Search t ''a'') = Some (Some 3) \<and> found (Trie_Search t ''b'') = None"
  using Trie_load_correct [of "[(''a'', Some 1), (''ab'', Some 2), (''a'', Some (3 :: nat))]"]
  by (auto simp: ascii_valid)



text \<open>
  On a reachable trie and a valid prefix, \<^verbatim>\<open>FindAllWithPrefix\<close> returns exactly the words of the
  trie that continue the prefix, with their values, in whatever order the maps are ranged over.
\<close>

theorem FindAllWithPrefix_correct:
  assumes "trie_reach t" and "valid_utf8 p"
  shows "Trie_FindAllWithPrefix t p = Ok (\<lambda>k. if prefix p k \<and> valid_utf8 (drop (length p) k)
    then found (Trie_Search t k) else None)"
proof -
  have ok: "node_ok (trie_root t)" and mu: "trie_mu t = Unlocked" using trie_reach_ok [OF assms(1)] by auto
  have get: "found (Trie_Search t k) = (case node_walk (runes p) (trie_root t) of
      None \<Rightarrow> None | Some n \<Rightarrow> lookup n (runes (drop (length p) k)))" if "prefix p k" for k
    using that mu assms(2) by (auto simp: prefix_def found_Search runes_append lookup_walk cong: option.case_cong)
  show ?thesis
  proof (cases "node_walk (runes p) (trie_root t)")
    case None
    with get mu show ?thesis by (simp add: Trie_FindAllWithPrefix_def rlocked_def fun_eq_iff)
  next
    case (Some n)
    note collect = collectWords_lookup [OF node_ok_walk [OF ok Some], of p]
    from Some get mu show ?thesis
      by (simp add: Trie_FindAllWithPrefix_def rlocked_def fun_eq_iff collect)
  qed
qed

theorem FindAllWithPrefix_correct_witness:
  "\<exists>t. Trie_Insert NewTrie ''ab'' (Some (1 :: nat)) = Ok (t, ()) \<and>
     (\<exists>m. Trie_FindAllWithPrefix t ''a'' = Ok m \<and> m ''ab'' = Some (Some 1) \<and> m ''b'' = None)"
proof -
  let ?t = "NewTrie\<lparr>trie_root := node_insert (runes ''ab'') (Some (1 :: nat)) empty_node\<rparr>"
  have i: "Trie_Insert NewTrie ''ab'' (Some 1) = Ok (?t, ())" by (simp add: Insert_unlocked NewTrie_def)
  have "found (Trie_Search ?t ''ab'') = Some (Some 1)"
    by (simp add: found_Search NewTrie_def lookup_insert)
  moreover have "valid_utf8 (drop (length ''a'') ''ab'')" by (simp add: ascii_valid)
  ultimately show ?thesis
    using i FindAllWithPrefix_correct [OF reach_insert [OF reach_new i], of "''a''"]
    by (simp add: ascii_valid)
qed

text \<open>
  \<^verbatim>\<open>Import\<close> of at least one word never returns: it waits for the lock that it holds itself.
\<close>

theorem Import_deadlocks: "Trie_Import t (Some ((key, val) # rest)) = Blocks"
  by (cases "trie_mu t") (simp_all add: Trie_Import_def locked_def Trie_Insert_def)

end
