(* ===== verification/Patricia_Tree.thy ===== *)
theory Patricia_Tree
  imports String_Index
begin

text \<open>
  The compressed trie of \<^verbatim>\<open>pkg/algorithm/prefix_tree.go\<close> (\<^verbatim>\<open>PatriciaTrie\<close>). Its edges are single bytes
  converted to runes, so they are characters here. The recursive insertion is modelled in
  full; a node that it replaces is the new value of its parent's edge. The nil node of the
  first branch never occurs, because the root and the children that are visited exist.
\<close>

subsection \<open>Data and operations\<close>

datatype 'v pnode = PatriciaNode (pn_prefix: string) (pn_children: "(char \<times> 'v pnode) list")
  (pn_isEnd: bool) (pn_value: "'v option")

definition NewPatriciaTrie :: "'v pnode" where
  "NewPatriciaTrie = PatriciaNode [] [] False None"

text \<open>The number of leading bytes two strings share.\<close>

fun common :: "string \<Rightarrow> string \<Rightarrow> nat" where
  "common (a # as) (b # bs) = (if a = b then Suc (common as bs) else 0)"
| "common _ _ = 0"

text \<open>The node for a key with nothing below it.\<close>

definition leaf :: "string \<Rightarrow> 'v option \<Rightarrow> 'v pnode" where
  "leaf key value = PatriciaNode key [] True value"

text \<open>The last part of \<^verbatim>\<open>insert\<close>: the node's prefix is split after \<open>i\<close> common bytes.\<close>

definition split_node :: "'v pnode \<Rightarrow> nat \<Rightarrow> string \<Rightarrow> 'v option \<Rightarrow> 'v pnode" where
  "split_node node i key value =
     (let commonPrefix = take i (pn_prefix node);
          remainingNodePrefix = drop i (pn_prefix node);
          remainingKey = drop i key;
          origNode = PatriciaNode remainingNodePrefix (pn_children node) (pn_isEnd node) (pn_value node);
          children = gm_put (hd remainingNodePrefix) origNode []
      in if 0 < length remainingKey then
           PatriciaNode commonPrefix (gm_put (hd remainingKey) (leaf remainingKey value) children) False None
         else PatriciaNode commonPrefix children True value)"

text \<open>The branch for no common byte.\<close>

definition insert_unrelated :: "'v pnode \<Rightarrow> string \<Rightarrow> 'v option \<Rightarrow> 'v pnode" where
  "insert_unrelated node key value =
     (if 0 < length key \<and> 0 < length (pn_prefix node) \<and> hd key < hd (pn_prefix node) then
        PatriciaNode []
          (gm_put (hd (pn_prefix node)) node (gm_put (hd key) (leaf key value) [])) False None
      else if 0 < length key then
        PatriciaNode (pn_prefix node) (gm_put (hd key) (leaf key value) (pn_children node))
          (pn_isEnd node) (pn_value node)
      else node)"

function PatriciaTrie_insert :: "'v pnode \<Rightarrow> string \<Rightarrow> 'v option \<Rightarrow> 'v pnode" where
  "PatriciaTrie_insert node key value =
     (if key = [] then PatriciaNode (pn_prefix node) (pn_children node) True value
      else
        (let i = common (pn_prefix node) key
         in if i = 0 then insert_unrelated node key value
            else if i = length (pn_prefix node) then
              (let remainingKey = drop i key
               in if length remainingKey = 0 then
                    PatriciaNode (pn_prefix node) (pn_children node) True value
                  else
                    PatriciaNode (pn_prefix node)
                      (gm_put (hd remainingKey)
                        (case map_of (pn_children node) (hd remainingKey) of
                           None \<Rightarrow> leaf remainingKey value
                         | Some child \<Rightarrow> PatriciaTrie_insert child remainingKey value)
                        (pn_children node))
                      (pn_isEnd node) (pn_value node))
            else split_node node i key value))"
  by pat_completeness auto
termination by (relation "measure (\<lambda>(node, key, value). length key)") auto

definition PatriciaTrie_Insert :: "'v pnode \<Rightarrow> string \<Rightarrow> 'v option \<Rightarrow> 'v pnode" where
  "PatriciaTrie_Insert root key value = PatriciaTrie_insert root key value"

lemma size_child: "map_of (pn_children node) c = Some n \<Longrightarrow> size n < size node"
proof (cases node)
  case (PatriciaNode p ch e v)
  assume "map_of (pn_children node) c = Some n"
  with PatriciaNode have "(c, n) \<in> set ch" by (auto dest: map_of_SomeD)
  then show ?thesis unfolding PatriciaNode
    by (induction ch) auto
qed

text \<open>The search loop: it goes down one node per iteration.\<close>

function search_loop :: "'v pnode \<Rightarrow> string \<Rightarrow> 'v option \<times> bool" where
  "search_loop node key =
     (if 0 < length key then
        (if prefix (pn_prefix node) key then
           (let key = drop (length (pn_prefix node)) key
            in if key = [] then (pn_value node, pn_isEnd node)
               else (case map_of (pn_children node) (hd key) of
                       None \<Rightarrow> (None, False) | Some child \<Rightarrow> search_loop child key))
         else (None, False))
      else (pn_value node, pn_isEnd node))"
  by pat_completeness auto
termination by (relation "measure (\<lambda>(node, key). size node)") (auto dest: size_child)

definition PatriciaTrie_Search :: "'v pnode \<Rightarrow> string \<Rightarrow> 'v option \<times> bool" where
  "PatriciaTrie_Search root key = search_loop root key"

function starts_loop :: "'v pnode \<Rightarrow> string \<Rightarrow> bool" where
  "starts_loop node pre =
     (if 0 < length pre then
        (if prefix (pn_prefix node) pre then
           (let pre = drop (length (pn_prefix node)) pre
            in if pre = [] then True
               else (case map_of (pn_children node) (hd pre) of
                       None \<Rightarrow> False | Some child \<Rightarrow> starts_loop child pre))
         else prefix pre (pn_prefix node))
      else True)"
  by pat_completeness auto
termination by (relation "measure (\<lambda>(node, pre). size node)") (auto dest: size_child)

definition PatriciaTrie_StartsWith :: "'v pnode \<Rightarrow> string \<Rightarrow> bool" where
  "PatriciaTrie_StartsWith root pre = starts_loop root pre"

declare PatriciaTrie_insert.simps [simp del] search_loop.simps [simp del] starts_loop.simps [simp del]

subsection \<open>The tree stays one level deep\<close>

text \<open>
  The root's prefix is empty, so the first comparison of every insertion finds no common byte
  and the key becomes a leaf directly below the root, whatever was there before.
\<close>

definition flat :: "'v pnode \<Rightarrow> bool" where
  "flat root \<longleftrightarrow> pn_prefix root = [] \<and>
     (\<forall>c n. map_of (pn_children root) c = Some n \<longrightarrow> (\<exists>k v. n = leaf k v \<and> k \<noteq> [] \<and> hd k = c))"

text \<open>The place a key occupies: the root itself for the empty key, else its first byte.\<close>

definition slot :: "string \<Rightarrow> char option" where
  "slot key = (if key = [] then None else Some (hd key))"

definition pfound :: "'v option \<times> bool \<Rightarrow> 'v option option" where
  "pfound r = (if snd r then Some (fst r) else None)"

definition occupant :: "'v pnode \<Rightarrow> char option \<Rightarrow> (string \<times> 'v option) option" where
  "occupant root s = (case s of
     None \<Rightarrow> if pn_isEnd root then Some ([], pn_value root) else None
   | Some c \<Rightarrow> map_option (\<lambda>n. (pn_prefix n, pn_value n)) (map_of (pn_children root) c))"

lemma flat_New [simp]: "flat NewPatriciaTrie"
  by (simp add: flat_def NewPatriciaTrie_def)

lemma occupant_New [simp]: "occupant NewPatriciaTrie s = None"
  by (simp add: occupant_def NewPatriciaTrie_def split: option.split)

lemma insert_flat:
  assumes "flat root"
  shows "PatriciaTrie_Insert root key v =
    (if key = [] then PatriciaNode [] (pn_children root) True v
     else PatriciaNode [] (gm_put (hd key) (leaf key v) (pn_children root)) (pn_isEnd root) (pn_value root))"
  using assms
  by (simp add: PatriciaTrie_Insert_def PatriciaTrie_insert.simps [of root] flat_def insert_unrelated_def)

lemma flat_insert: "flat root \<Longrightarrow> flat (PatriciaTrie_Insert root key v)"
  by (auto simp: insert_flat) (auto simp: flat_def split: if_splits)

lemma occupant_insert:
  "flat root \<Longrightarrow> occupant (PatriciaTrie_Insert root key v) s =
     (if s = slot key then Some (key, v) else occupant root s)"
  by (auto simp: insert_flat occupant_def slot_def leaf_def split: option.splits)

lemma leaf_simps [simp]: "pn_prefix (leaf k v) = k" "pn_value (leaf k v) = v"
  by (simp_all add: leaf_def)

lemma search_leaf: "search_loop (leaf k v) key = (if k = key then (v, True) else (None, False))" if "key \<noteq> []" "k \<noteq> []"
  using that unfolding leaf_def by (subst search_loop.simps) (auto simp: prefix_def)

lemma Search_flat:
  assumes "flat root"
  shows "pfound (PatriciaTrie_Search root key) =
    (case occupant root (slot key) of None \<Rightarrow> None | Some (k, v) \<Rightarrow> if k = key then Some v else None)"
proof (cases "key = []")
  case True
  then show ?thesis by (simp add: PatriciaTrie_Search_def search_loop.simps [of root] pfound_def occupant_def slot_def)
next
  case False
  show ?thesis
  proof (cases "map_of (pn_children root) (hd key)")
    case None
    with False assms show ?thesis
      by (simp add: PatriciaTrie_Search_def search_loop.simps [of root] pfound_def occupant_def slot_def flat_def)
  next
    case (Some n)
    with assms obtain k v where n: "n = leaf k v" "k \<noteq> []" unfolding flat_def by blast
    with False Some assms show ?thesis
      by (simp add: PatriciaTrie_Search_def search_loop.simps [of root] search_leaf pfound_def occupant_def
          slot_def flat_def)
  qed
qed

interpretation patricia_index: string_index NewPatriciaTrie "\<lambda>k v t. PatriciaTrie_Insert t k v"
  "\<lambda>t k. pfound (PatriciaTrie_Search t k)" flat "\<lambda>_. True" "\<lambda>k k'. k = k' \<or> slot k \<noteq> slot k'"
proof unfold_locales
  fix t :: "'v pnode" and k k' v
  assume t: "flat t" and c: "\<forall>k'. True \<longrightarrow> pfound (PatriciaTrie_Search t k') \<noteq> None \<longrightarrow> k = k' \<or> slot k \<noteq> slot k'"
  show "pfound (PatriciaTrie_Search (PatriciaTrie_Insert t k v) k') =
      (if k' = k then Some v else pfound (PatriciaTrie_Search t k'))"
    using spec [OF c, of k'] t by (auto simp: Search_flat flat_insert occupant_insert split: option.splits)
qed (simp_all add: flat_insert Search_flat occupant_New)

subsection \<open>Properties\<close>

definition insert_all :: "(string \<times> 'v option) list \<Rightarrow> 'v pnode" where
  "insert_all kvs = fold (\<lambda>(k, v) t. PatriciaTrie_Insert t k v) kvs NewPatriciaTrie"

lemma insert_all_occupant:
  "flat (insert_all kvs) \<and>
   occupant (insert_all kvs) s = find (\<lambda>kv. slot (fst kv) = s) (rev kvs)"
proof (induction kvs rule: rev_induct)
  case Nil
  then show ?case by (simp add: insert_all_def)
next
  case (snoc kv kvs)
  obtain k v where "kv = (k, v)" by fastforce
  with snoc show ?case by (auto simp: insert_all_def flat_insert occupant_insert)
qed

text \<open>
  The compressed trie remembers one key per first byte. After any sequence of insertions, a
  search for a key finds it exactly if the last inserted key with the same first byte (the
  last empty key, for the empty key) is that very key, and then gives the value inserted with
  it. Every other key with that first byte has been lost.
\<close>

theorem Patricia_last_per_byte:
  "pfound (PatriciaTrie_Search (insert_all kvs) key) =
    (case find (\<lambda>kv. slot (fst kv) = slot key) (rev kvs) of
       None \<Rightarrow> None | Some (k, v) \<Rightarrow> if k = key then Some v else None)"
  using insert_all_occupant [of kvs "slot key"] by (simp add: Search_flat)

text \<open>
  As long as different keys have different first bytes, the compressed trie is a map: a search
  gives the last value inserted for the key.
\<close>

theorem Patricia_map:
  assumes "\<forall>k \<in> fst ` set kvs. \<forall>k' \<in> fst ` set kvs. k = k' \<or> slot k \<noteq> slot k'"
  shows "pfound (PatriciaTrie_Search (insert_all kvs) key) = map_of (rev kvs) key"
proof -
  have "patricia_index.loadable kvs"
    unfolding patricia_index.loadable_def using assms by (fastforce simp: sorted_wrt_iff_nth_less)
  from patricia_index.load_correct [OF this] show ?thesis
    by (simp add: patricia_index.load_def insert_all_def case_prod_unfold)
qed

theorem Patricia_map_witness:
  "pfound (PatriciaTrie_Search (insert_all [(''ab'', Some 1), (''cd'', Some (2 :: nat))]) ''ab'') = Some (Some 1)"
  using Patricia_map [of "[(''ab'', Some 1), (''cd'', Some (2 :: nat))]" "''ab''"] by (simp add: slot_def)

end
