(* ===== verification/Radix_Tree.thy ===== *)
theory Radix_Tree
  imports String_Index
begin

text \<open>
  The radix tree of \<^verbatim>\<open>visualization/internal/radix/radix_tree.go\<close>. Children are a Go map from edge
  labels to nodes; loops over it that return at the first match take the first matching entry
  in range order, which is the order of the list. The second node that a split changes in
  place (the original child) is the value stored below the new node.
\<close>

subsection \<open>Data and operations\<close>

datatype 'v rnode = RNode (rn_Key: string) (rn_Value: "'v option")
  (rn_Children: "(string \<times> 'v rnode) list") (rn_IsLeaf: bool)

record 'v radix_tree =
  rt_root :: "'v rnode"
  rt_size :: int

datatype radix_error = EmptyKey

definition NewRadixTree :: "'v radix_tree" where
  "NewRadixTree = \<lparr>rt_root = RNode [] None [] False, rt_size = 0\<rparr>"

fun longestCommonPrefix :: "string \<Rightarrow> string \<Rightarrow> string" where
  "longestCommonPrefix (a # as) (b # bs) = (if a \<noteq> b then [] else a # longestCommonPrefix as bs)"
| "longestCommonPrefix _ _ = []"

definition rleaf :: "string \<Rightarrow> 'v option \<Rightarrow> 'v rnode" where
  "rleaf key v = RNode key v [] True"

text \<open>The node that replaces \<open>child\<close> when its label is split after \<open>commonPrefix\<close>.\<close>

definition split_child :: "string \<Rightarrow> 'v rnode \<Rightarrow> string \<Rightarrow> string \<Rightarrow> 'v option \<Rightarrow> 'v rnode" where
  "split_child commonPrefix child pre key v =
     (let remainingPrefix = drop (length commonPrefix) pre;
          originalChild = RNode remainingPrefix (rn_Value child) (rn_Children child) (rn_IsLeaf child);
          children = gm_put remainingPrefix originalChild []
      in if key \<noteq> commonPrefix then
           (let remainingKey = drop (length commonPrefix) key
            in RNode commonPrefix None (gm_put remainingKey (rleaf remainingKey v) children) False)
         else RNode commonPrefix v children True)"

lemma find_SomeD: "find P xs = Some x \<Longrightarrow> x \<in> set xs \<and> P x"
  by (auto simp: find_Some_iff)

lemma lcp_prefix: "prefix (longestCommonPrefix a b) a" "prefix (longestCommonPrefix a b) b"
  by (induction a b rule: longestCommonPrefix.induct) auto

lemma lcp_descends:
  "pre = longestCommonPrefix pre key \<Longrightarrow> pre \<noteq> [] \<Longrightarrow> length key - length pre < length key"
  using lcp_prefix(2) [of pre key] by (cases key) auto

function RadixTree_insert :: "'v rnode \<Rightarrow> string \<Rightarrow> 'v option \<Rightarrow> 'v rnode" where
  "RadixTree_insert node key v =
     RNode (rn_Key node) (rn_Value node)
       (case find (\<lambda>c. longestCommonPrefix (fst c) key \<noteq> []) (rn_Children node) of
          None \<Rightarrow> gm_put key (rleaf key v) (rn_Children node)
        | Some (pre, child) \<Rightarrow>
            (let commonPrefix = longestCommonPrefix pre key
             in if commonPrefix = pre then
                  gm_put pre (RadixTree_insert child (drop (length pre) key) v) (rn_Children node)
                else if commonPrefix = key then
                  gm_put pre (RNode (rn_Key child) v (rn_Children child) True) (rn_Children node)
                else
                  gm_put commonPrefix (split_child commonPrefix child pre key v)
                    (gm_del pre (rn_Children node))))
       (rn_IsLeaf node)"
  by pat_completeness auto
termination
  by (relation "measure (\<lambda>(node, key, v). length key)") (auto dest!: find_SomeD intro!: lcp_descends)

declare RadixTree_insert.simps [simp del]

definition RadixTree_Insert :: "'v radix_tree \<Rightarrow> string \<Rightarrow> 'v option \<Rightarrow> (radix_error, 'v radix_tree) outcome" where
  "RadixTree_Insert t key v =
     (if key = [] then Err EmptyKey
      else Ok \<lparr>rt_root = RadixTree_insert (rt_root t) key v, rt_size = rt_size t + 1\<rparr>)"

lemma size_rchild: "(p, c) \<in> set (rn_Children node) \<Longrightarrow> size c < size node"
proof (cases node)
  case (RNode k v ch l)
  assume "(p, c) \<in> set (rn_Children node)"
  with RNode have "(p, c) \<in> set ch" by simp
  then show ?thesis unfolding RNode by (induction ch) auto
qed

function RadixTree_search :: "'v rnode \<Rightarrow> string \<Rightarrow> 'v option \<times> bool" where
  "RadixTree_search node key =
     (if key = [] \<and> rn_IsLeaf node then (rn_Value node, True)
      else (case find (\<lambda>c. prefix (fst c) key) (rn_Children node) of
              None \<Rightarrow> (None, False)
            | Some (pre, child) \<Rightarrow> RadixTree_search child (drop (length pre) key)))"
  by pat_completeness auto
termination
  by (relation "measure (\<lambda>(node, key). size node)") (auto dest!: find_SomeD dest: size_rchild)

declare RadixTree_search.simps [simp del]

definition RadixTree_Search :: "'v radix_tree \<Rightarrow> string \<Rightarrow> 'v option \<times> bool" where
  "RadixTree_Search t key = (if key = [] then (None, False) else RadixTree_search (rt_root t) key)"

function RadixTree_delete :: "'v rnode \<Rightarrow> string \<Rightarrow> 'v rnode \<times> bool" where
  "RadixTree_delete node key =
     (if key = [] \<and> rn_IsLeaf node then (RNode (rn_Key node) None (rn_Children node) False, True)
      else (case find (\<lambda>c. prefix (fst c) key) (rn_Children node) of
              None \<Rightarrow> (node, False)
            | Some (pre, child) \<Rightarrow>
                (let (child', fnd) = RadixTree_delete child (drop (length pre) key);
                     children = (if fnd \<and> length (rn_Children child') = 0 \<and> \<not> rn_IsLeaf child'
                                 then gm_del pre (rn_Children node)
                                 else gm_put pre child' (rn_Children node))
                 in (RNode (rn_Key node) (rn_Value node) children (rn_IsLeaf node), fnd))))"
  by pat_completeness auto
termination
  by (relation "measure (\<lambda>(node, key). size node)") (auto dest!: find_SomeD dest: size_rchild)

declare RadixTree_delete.simps [simp del]

definition RadixTree_Delete :: "'v radix_tree \<Rightarrow> string \<Rightarrow> 'v radix_tree \<times> bool" where
  "RadixTree_Delete t key =
     (if key = [] then (t, False)
      else (let (root, fnd) = RadixTree_delete (rt_root t) key
            in (\<lparr>rt_root = root, rt_size = (if fnd then rt_size t - 1 else rt_size t)\<rparr>, fnd)))"

definition RadixTree_Size :: "'v radix_tree \<Rightarrow> int" where
  "RadixTree_Size t = rt_size t"

fun collectPrefixMatches ::
    "'v rnode \<Rightarrow> string \<Rightarrow> string \<Rightarrow> (string \<rightharpoonup> 'v option) \<Rightarrow> (string \<rightharpoonup> 'v option)" where
  "collectPrefixMatches (RNode k v children isLeaf) currentPath pre result =
     fold (\<lambda>c r. collectPrefixMatches (snd c) (currentPath @ fst c) pre r) children
       (if isLeaf \<and> prefix pre currentPath then result(currentPath \<mapsto> v) else result)"

text \<open>The loop of \<^verbatim>\<open>PrefixSearch\<close>: the node it ends at and the path to it.\<close>

function descend :: "'v rnode \<Rightarrow> string \<Rightarrow> string \<Rightarrow> 'v rnode \<times> string" where
  "descend node currentPrefix pre =
     (case find (\<lambda>c. prefix (currentPrefix @ fst c) pre) (rn_Children node) of
        None \<Rightarrow> (node, currentPrefix)
      | Some (nodePrefix, child) \<Rightarrow>
          if currentPrefix @ nodePrefix = pre then (child, currentPrefix @ nodePrefix)
          else descend child (currentPrefix @ nodePrefix) pre)"
  by pat_completeness auto
termination
  by (relation "measure (\<lambda>(node, cp, pre). size node)") (auto dest!: find_SomeD dest: size_rchild)

declare descend.simps [simp del]

definition RadixTree_PrefixSearch :: "'v radix_tree \<Rightarrow> string \<Rightarrow> string \<rightharpoonup> 'v option" where
  "RadixTree_PrefixSearch t pre =
     (if pre = [] then Map.empty
      else (let (node, currentPrefix) = descend (rt_root t) [] pre
            in if prefix currentPrefix pre then collectPrefixMatches node currentPrefix pre Map.empty
               else Map.empty))"

subsection \<open>Prefix-free trees\<close>

definition rfound :: "'v option \<times> bool \<Rightarrow> 'v option option" where
  "rfound r = (if snd r then Some (fst r) else None)"

definition rfind :: "'v rnode \<Rightarrow> string \<Rightarrow> 'v option option" where
  "rfind node key = rfound (RadixTree_search node key)"

text \<open>
  The shape that insertions of prefix-free keys build: labels are not empty and begin with
  different bytes, a leaf has no children, an inner node has some and is no leaf.
\<close>

definition heads :: "(string \<times> 'a) list \<Rightarrow> bool" where
  "heads m \<longleftrightarrow> gm_wf m \<and> (\<forall>x \<in> set m. fst x \<noteq> []) \<and>
     (\<forall>x \<in> set m. \<forall>y \<in> set m. hd (fst x) = hd (fst y) \<longrightarrow> x = y)"

definition is_rleaf :: "'v rnode \<Rightarrow> bool" where
  "is_rleaf n \<longleftrightarrow> rn_IsLeaf n \<and> rn_Children n = []"

function rok :: "'v rnode \<Rightarrow> bool" where
  "rok n \<longleftrightarrow> \<not> rn_IsLeaf n \<and> heads (rn_Children n) \<and>
     (\<forall>x \<in> set (rn_Children n). is_rleaf (snd x) \<or> rn_Children (snd x) \<noteq> [] \<and> rok (snd x))"
  by pat_completeness auto
termination by (relation "measure size") (auto dest: size_rchild)

declare rok.simps [simp del]

lemma rokD:
  assumes "rok n"
  shows "\<not> rn_IsLeaf n" "heads (rn_Children n)"
    and "x \<in> set (rn_Children n) \<Longrightarrow> is_rleaf (snd x) \<or> rn_Children (snd x) \<noteq> [] \<and> rok (snd x)"
  using assms rok.simps [of n] by auto

lemma prefix_hd: "prefix p k \<Longrightarrow> p \<noteq> [] \<Longrightarrow> hd p = hd k"
  by (cases p; cases k) auto

lemma heads_unique:
  assumes "heads m" and "x \<in> set m" and "y \<in> set m" and "prefix (fst x) k" and "prefix (fst y) k"
  shows "x = y"
proof -
  have "fst x \<noteq> []" "fst y \<noteq> []" and inj: "hd (fst x) = hd (fst y) \<longrightarrow> x = y"
    using assms(1-3) by (simp_all add: heads_def)
  then have "hd (fst x) = hd k" "hd (fst y) = hd k" using prefix_hd assms(4,5) by blast+
  with inj show ?thesis by simp
qed

lemma find_heads:
  assumes "heads m"
  shows "find (\<lambda>c. prefix (fst c) k) m = Some x \<longleftrightarrow> x \<in> set m \<and> prefix (fst x) k"
proof
  assume x: "x \<in> set m \<and> prefix (fst x) k"
  then obtain y where "find (\<lambda>c. prefix (fst c) k) m = Some y"
    by (metis (no_types, lifting) find_None_iff not_None_eq)
  with find_SomeD [OF this] x heads_unique [OF assms] show "find (\<lambda>c. prefix (fst c) k) m = Some x" by metis
qed (rule find_SomeD)

lemma rfind_leaf: "is_rleaf n \<Longrightarrow> rfind n k = (if k = [] then Some (rn_Value n) else None)"
  by (simp add: rfind_def rfound_def RadixTree_search.simps [of n] is_rleaf_def)

lemma rfind_inner:
  assumes "\<not> rn_IsLeaf n" and "heads (rn_Children n)"
  shows "rfind n k = Some v \<longleftrightarrow>
    (\<exists>x \<in> set (rn_Children n). prefix (fst x) k \<and> rfind (snd x) (drop (length (fst x)) k) = Some v)"
proof -
  have "rfind n k = (case find (\<lambda>c. prefix (fst c) k) (rn_Children n) of None \<Rightarrow> None
      | Some x \<Rightarrow> rfind (snd x) (drop (length (fst x)) k))"
    using assms(1) by (simp add: rfind_def RadixTree_search.simps [of n] rfound_def split: option.splits prod.splits)
  also have "\<dots> = Some v \<longleftrightarrow> (\<exists>x. find (\<lambda>c. prefix (fst c) k) (rn_Children n) = Some x \<and>
      rfind (snd x) (drop (length (fst x)) k) = Some v)"
    by (auto split: option.splits)
  finally show ?thesis unfolding find_heads [OF assms(2)] by blast
qed

lemma rfind_rok: "rok n \<Longrightarrow> rfind n k = Some v \<longleftrightarrow>
    (\<exists>x \<in> set (rn_Children n). prefix (fst x) k \<and> rfind (snd x) (drop (length (fst x)) k) = Some v)"
  using rfind_inner rokD by blast

lemma rok_inhabited: "rok n \<Longrightarrow> rn_Children n \<noteq> [] \<Longrightarrow> \<exists>k v. k \<noteq> [] \<and> rfind n k = Some v"
proof (induction n rule: measure_induct_rule [of size])
  case (less n)
  then obtain p c where x: "(p, c) \<in> set (rn_Children n)" by (cases "rn_Children n") auto
  have p: "p \<noteq> []" using rokD(2) [OF less.prems(1)] x by (auto simp: heads_def)
  have "\<exists>k v. rfind c k = Some v"
    using rokD(3) [OF less.prems(1) x] less.IH [OF size_rchild [OF x]] rfind_leaf [of c "[]"] by auto
  then obtain k v where "rfind c k = Some v" by blast
  then have "rfind n (p @ k) = Some v" using rfind_rok [OF less.prems(1)] x by force
  with p show ?case by blast
qed

lemma rfind_at:
  assumes "rok n" and "(p, c) \<in> set (rn_Children n)" and "prefix p k"
  shows "rfind n k = rfind c (drop (length p) k)"
  using find_heads [OF rokD(2) [OF assms(1)], of k "(p, c)"] rokD(1) [OF assms(1)] assms(2,3)
  by (simp add: rfind_def RadixTree_search.simps [of n] rfound_def)

lemma rfind_nowhere:
  assumes "rok n" and "\<forall>x \<in> set (rn_Children n). \<not> prefix (fst x) k"
  shows "rfind n k = None"
  using rfind_rok [OF assms(1), of k] assms(2) by (cases "rfind n k") auto

lemma lcp_nonempty: "longestCommonPrefix a b \<noteq> [] \<longleftrightarrow> a \<noteq> [] \<and> b \<noteq> [] \<and> hd a = hd b"
  by (cases a; cases b) auto

lemma lcp_split:
  "a = longestCommonPrefix a b @ a' \<Longrightarrow> b = longestCommonPrefix a b @ b' \<Longrightarrow> a' \<noteq> [] \<Longrightarrow> b' \<noteq> [] \<Longrightarrow> hd a' \<noteq> hd b'"
  by (induction a b arbitrary: a' b' rule: longestCommonPrefix.induct) (auto split: if_splits)

text \<open>The child an insertion looks at: the one with the key's first byte, if there is one.\<close>

lemma find_insert:
  assumes "heads m" and "key \<noteq> []" and "find (\<lambda>c. longestCommonPrefix (fst c) key \<noteq> []) m = r"
  shows "case r of None \<Rightarrow> \<forall>x \<in> set m. hd (fst x) \<noteq> hd key
    | Some x \<Rightarrow> x \<in> set m \<and> hd (fst x) = hd key \<and> (\<forall>y \<in> set m. hd (fst y) = hd key \<longrightarrow> y = x)"
proof (cases r)
  case None
  then have "\<forall>x \<in> set m. \<not> longestCommonPrefix (fst x) key \<noteq> []"
    using assms(3) by (metis (mono_tags, lifting) find_None_iff)
  then show ?thesis using None assms(1,2) unfolding lcp_nonempty heads_def by auto
next
  case (Some x)
  with assms(3) have "x \<in> set m \<and> longestCommonPrefix (fst x) key \<noteq> []" by (auto dest: find_SomeD)
  then have "x \<in> set m" "hd (fst x) = hd key" unfolding lcp_nonempty by auto
  then show ?thesis using Some assms(1) unfolding heads_def by auto
qed

lemma insert_children_nonempty: "rn_Children (RadixTree_insert n key v) \<noteq> []"
proof -
  have put: "gm_put k x m \<noteq> []" for k and x :: "'b rnode" and m by (cases m) auto
  show ?thesis by (subst RadixTree_insert.simps) (auto simp: put Let_def split: option.splits)
qed

text \<open>Replacing the entry of one first byte.\<close>

lemma rok_replace:
  assumes "rok n" and "heads m'" and "set m' \<subseteq> insert (p', c') (set (rn_Children n))"
    and "is_rleaf c' \<or> rn_Children c' \<noteq> [] \<and> rok c'"
  shows "rok (RNode k v m' (rn_IsLeaf n))"
proof -
  have "is_rleaf (snd x) \<or> rn_Children (snd x) \<noteq> [] \<and> rok (snd x)" if "x \<in> set m'" for x
    using that assms(3,4) rokD(3) [OF assms(1), of x] by (cases "x = (p', c')") auto
  then show ?thesis using assms(2) rokD(1) [OF assms(1)] by (subst rok.simps) simp
qed

lemma heads_replace:
  assumes "heads m" and "gm_wf m'" and "p' \<noteq> []" and "set m' = insert (p', c') {x \<in> set m. hd (fst x) \<noteq> hd p'}"
  shows "heads m'"
  using assms by (auto simp: heads_def)

lemma rfind_replace:
  assumes "rok n" and "rok n'" and "p' \<noteq> []"
    and "set (rn_Children n') = insert (p', c') {x \<in> set (rn_Children n). hd (fst x) \<noteq> hd p'}"
  shows "rfind n' k = (if k \<noteq> [] \<and> hd k = hd p' then (if prefix p' k then rfind c' (drop (length p') k) else None)
    else rfind n k)"
proof (cases "\<exists>x \<in> set (rn_Children n'). prefix (fst x) k")
  case True
  then obtain q d where x: "(q, d) \<in> set (rn_Children n')" "prefix q k" by force
  have q: "q \<noteq> []" using rokD(2) [OF assms(2)] x(1) by (auto simp: heads_def)
  then have k: "k \<noteq> []" "hd k = hd q" using x(2) prefix_hd [OF x(2) q] by (cases k, simp_all)
  note at = rfind_at [OF assms(2) x]
  show ?thesis
  proof (cases "hd q = hd p'")
    case True
    then have "(q, d) = (p', c')" using x(1) assms(4) by auto
    then show ?thesis using at k x(2) True by simp
  next
    case False
    then have "(q, d) \<in> set (rn_Children n)" using x(1) assms(4) by auto
    from rfind_at [OF assms(1) this x(2)] at k False show ?thesis by simp
  qed
next
  case False
  then have none: "rfind n' k = None" using rfind_nowhere [OF assms(2)] by blast
  show ?thesis
  proof (cases "k \<noteq> [] \<and> hd k = hd p'")
    case True
    moreover have "(p', c') \<in> set (rn_Children n')" using assms(4) by simp
    then have "\<not> prefix p' k" using False by force
    ultimately show ?thesis using none by simp
  next
    case other: False
    have "\<not> prefix (fst x) k" if x: "x \<in> set (rn_Children n)" for x
    proof
      assume pre: "prefix (fst x) k"
      have "fst x \<noteq> []" using rokD(2) [OF assms(1)] x by (auto simp: heads_def)
      with pre have "k \<noteq> []" "hd (fst x) = hd k" using prefix_hd [OF pre] by auto
      with other have "x \<in> set (rn_Children n')" using assms(4) x by simp
      with pre False show False by blast
    qed
    then have "rfind n k = None" using rfind_nowhere [OF assms(1)] by blast
    then show ?thesis unfolding none using other by (simp only: if_False)
  qed
qed

lemma replace_law:
  assumes "rok n" and "gm_wf m'" and "p' \<noteq> []"
    and "set m' = insert (p', c') {x \<in> set (rn_Children n). hd (fst x) \<noteq> hd p'}"
    and "is_rleaf c' \<or> rn_Children c' \<noteq> [] \<and> rok c'"
  shows "rok (RNode q w m' (rn_IsLeaf n))"
    and "rfind (RNode q w m' (rn_IsLeaf n)) k =
      (if k \<noteq> [] \<and> hd k = hd p' then (if prefix p' k then rfind c' (drop (length p') k) else None)
       else rfind n k)"
proof -
  have "heads m'" using heads_replace [OF rokD(2) [OF assms(1)] assms(2,3,4)] .
  then show r: "rok (RNode q w m' (rn_IsLeaf n))"
    by (rule rok_replace [OF assms(1) _ _ assms(5)]) (use assms(4) in auto)
  show "rfind (RNode q w m' (rn_IsLeaf n)) k =
      (if k \<noteq> [] \<and> hd k = hd p' then (if prefix p' k then rfind c' (drop (length p') k) else None)
       else rfind n k)"
    by (rule rfind_replace [OF assms(1) r assms(3)]) (use assms(4) in simp)
qed

lemma rfind_slot:
  assumes "rok n" and "k \<noteq> []"
  shows "(p, c) \<in> set (rn_Children n) \<Longrightarrow> hd p = hd k \<Longrightarrow>
      rfind n k = (if prefix p k then rfind c (drop (length p) k) else None)"
    and "\<forall>x \<in> set (rn_Children n). hd (fst x) \<noteq> hd k \<Longrightarrow> rfind n k = None"
proof -
  have nonempty: "fst x \<noteq> []" if "x \<in> set (rn_Children n)" for x
    using rokD(2) [OF assms(1)] that by (simp add: heads_def)
  have inj: "x = y" if "x \<in> set (rn_Children n)" "y \<in> set (rn_Children n)" "hd (fst x) = hd (fst y)" for x y
    using rokD(2) [OF assms(1)] that by (simp add: heads_def)
  show "rfind n k = None" if "\<forall>x \<in> set (rn_Children n). hd (fst x) \<noteq> hd k"
    using that nonempty prefix_hd by (intro rfind_nowhere [OF assms(1)]) blast
  show "rfind n k = (if prefix p k then rfind c (drop (length p) k) else None)"
    if x: "(p, c) \<in> set (rn_Children n)" "hd p = hd k"
  proof (cases "prefix p k")
    case True
    then show ?thesis using rfind_at [OF assms(1) x(1)] by simp
  next
    case False
    have "\<not> prefix (fst y) k" if y: "y \<in> set (rn_Children n)" for y
    proof
      assume "prefix (fst y) k"
      with prefix_hd [OF this nonempty [OF y]] inj [OF y x(1)] x(2) False show False by simp
    qed
    then show ?thesis using False rfind_nowhere [OF assms(1)] by simp
  qed
qed

lemma rleaf_simps [simp]: "is_rleaf (rleaf k v)" "rn_Value (rleaf k v) = v" "rn_Children (rleaf k v) = []"
  by (simp_all add: is_rleaf_def rleaf_def)

text \<open>The key of a node has no influence on a search.\<close>

lemma rfind_Key: "rfind (RNode q (rn_Value c) (rn_Children c) (rn_IsLeaf c)) k = rfind c k"
  by (simp add: rfind_def RadixTree_search.simps [of c] RadixTree_search.simps [of "RNode _ _ _ _"])

lemma ok_Key: "is_rleaf c \<or> rn_Children c \<noteq> [] \<and> rok c \<Longrightarrow>
    is_rleaf (RNode q (rn_Value c) (rn_Children c) (rn_IsLeaf c)) \<or>
    rn_Children c \<noteq> [] \<and> rok (RNode q (rn_Value c) (rn_Children c) (rn_IsLeaf c))"
  by (simp add: is_rleaf_def rok.simps [of c] rok.simps [of "RNode _ _ _ _"])

definition incomparable :: "'v rnode \<Rightarrow> string \<Rightarrow> bool" where
  "incomparable n key \<longleftrightarrow>
     (\<forall>k w. k \<noteq> [] \<longrightarrow> rfind n k = Some w \<longrightarrow> \<not> prefix k key \<and> \<not> prefix key k)"

definition insert_ok :: "'v rnode \<Rightarrow> string \<Rightarrow> 'v option \<Rightarrow> 'v rnode \<Rightarrow> bool" where
  "insert_ok n key v n' \<longleftrightarrow> rok n' \<and> (\<forall>k. rfind n' k = (if k = key then Some v else rfind n k))"

lemma insert_new:
  assumes "rok n" and "key \<noteq> []" and "\<forall>x \<in> set (rn_Children n). hd (fst x) \<noteq> hd key"
  shows "insert_ok n key v (RNode q w (gm_put key (rleaf key v) (rn_Children n)) (rn_IsLeaf n))"
proof -
  have wf: "gm_wf (rn_Children n)" using rokD(2) [OF assms(1)] by (simp add: heads_def)
  have "set (gm_put key (rleaf key v) (rn_Children n)) =
      insert (key, rleaf key v) {x \<in> set (rn_Children n). hd (fst x) \<noteq> hd key}"
    using set_put [OF wf] assms(3) by auto
  note law = replace_law [OF assms(1) distinct_update [OF wf] assms(2) this, of q w]
  have "rfind n k = None" if "k \<noteq> []" "hd k = hd key" for k
    using rfind_slot(2) [OF assms(1) that(1)] that(2) assms(3) by simp
  then show ?thesis using law assms(2) by (auto simp: insert_ok_def rfind_leaf prefix_def)
qed

lemma heads_inj: "heads m \<Longrightarrow> x \<in> set m \<Longrightarrow> y \<in> set m \<Longrightarrow> hd (fst x) = hd (fst y) \<Longrightarrow> x = y"
  unfolding heads_def by blast

text \<open>The entries with another first byte than a given entry are the entries with another label.\<close>

lemma heads_others:
  assumes "heads m" and "(p, c) \<in> set m"
  shows "{x \<in> set m. fst x \<noteq> p} = {x \<in> set m. hd (fst x) \<noteq> hd p}"
proof -
  have "x = (p, c)" if "x \<in> set m" "hd (fst x) = hd p" for x
    using heads_inj [OF assms(1) that(1) assms(2)] that(2) by simp
  then show ?thesis by auto
qed

lemma insert_descend:
  assumes "rok n" and "(p, c) \<in> set (rn_Children n)" and "prefix p key"
    and "insert_ok c (drop (length p) key) v c'" and "rn_Children c' \<noteq> []"
  shows "insert_ok n key v (RNode q w (gm_put p c' (rn_Children n)) (rn_IsLeaf n))"
proof -
  note h = rokD(2) [OF assms(1)]
  have wf: "gm_wf (rn_Children n)" and p: "p \<noteq> []" using h assms(2) by (auto simp: heads_def)
  have c': "rok c'" "\<And>r. rfind c' r = (if r = drop (length p) key then Some v else rfind c r)"
    using assms(4) by (auto simp: insert_ok_def)
  have "set (gm_put p c' (rn_Children n)) =
      insert (p, c') {x \<in> set (rn_Children n). hd (fst x) \<noteq> hd p}"
    using set_put [OF wf] heads_others [OF h assms(2)] by simp
  note law = replace_law [OF assms(1) distinct_update [OF wf] p this, of q w]
  have same: "drop (length p) k = drop (length p) key \<longleftrightarrow> k = key" if "prefix p k" for k
    using that assms(3) by (auto simp: prefix_def)
  have "key \<noteq> []" "hd key = hd p" using assms(3) p prefix_hd [OF assms(3) p] by auto
  then show ?thesis
    using law c' assms(3,5) rfind_slot(1) [OF assms(1) _ assms(2)] same
    by (auto simp: insert_ok_def)
qed

lemma insert_split:
  assumes "rok n" and "(p, c) \<in> set (rn_Children n)" and "cp = longestCommonPrefix p key"
    and "cp \<noteq> []" and "cp \<noteq> p" and "cp \<noteq> key"
  shows "insert_ok n key v (RNode q w (gm_put cp (split_child cp c p key v) (gm_del p (rn_Children n))) (rn_IsLeaf n))"
proof -
  note h = rokD(2) [OF assms(1)]
  have wf: "gm_wf (rn_Children n)" using h by (simp add: heads_def)
  obtain rp rk where p: "p = cp @ rp" and key: "key = cp @ rk"
    using lcp_prefix [of p key] unfolding assms(3) [symmetric] prefix_def by blast
  have r: "rp \<noteq> []" "rk \<noteq> []" "hd rp \<noteq> hd rk"
    using p key assms(5,6) lcp_split [of p key rp rk] unfolding assms(3) [symmetric] by auto
  define orig where "orig = RNode rp (rn_Value c) (rn_Children c) (rn_IsLeaf c)"
  define new where "new = split_child cp c p key v"
  have new: "new = RNode cp None [(rp, orig), (rk, rleaf rk v)] False"
    using r by (auto simp: new_def split_child_def Let_def p key orig_def)
  have rnew: "rok new" using ok_Key [OF rokD(3) [OF assms(1,2), simplified], of rp] r
    unfolding new by (subst rok.simps) (auto simp: heads_def orig_def)
  have hd: "hd cp = hd p" "hd cp = hd key" using p key assms(4) by simp_all
  have "set (gm_put cp new (gm_del p (rn_Children n))) =
      insert (cp, new) {x \<in> set (rn_Children n). hd (fst x) \<noteq> hd cp}"
    using set_put [OF distinct_delete [OF wf], of cp new p] heads_others [OF h assms(2)] hd
    by (auto simp: set_del)
  note law = replace_law [OF assms(1) distinct_update [OF distinct_delete [OF wf]] assms(4) this, of q w]
  have find: "rfind new r =
      (if r = rk then Some v else if prefix rp r then rfind c (drop (length rp) r) else None)" for r
  proof (cases "r = []")
    case True
    then show ?thesis using rfind_nowhere [OF rnew, of r] r by (simp add: new)
  next
    case False
    have kids: "(rp, orig) \<in> set (rn_Children new)" "(rk, rleaf rk v) \<in> set (rn_Children new)"
      by (simp_all add: new)
    consider "hd rp = hd r" | "hd rk = hd r" "hd rp \<noteq> hd r" | "hd rp \<noteq> hd r" "hd rk \<noteq> hd r" by blast
    then show ?thesis
    proof cases
      case 1
      then show ?thesis using rfind_slot(1) [OF rnew False kids(1)] r by (auto simp: orig_def rfind_Key)
    next
      case 2
      then have "\<not> prefix rp r" using prefix_hd r(1) by blast
      then show ?thesis using rfind_slot(1) [OF rnew False kids(2)] 2 by (auto simp: rfind_leaf prefix_def)
    next
      case 3
      then have "\<not> prefix rp r" using prefix_hd r(1) by blast
      then show ?thesis using rfind_slot(2) [OF rnew False] 3 by (auto simp: new)
    qed
  qed
  have "(if prefix cp k then rfind new (drop (length cp) k) else None) = (if k = key then Some v else rfind n k)"
    if k: "k \<noteq> []" "hd k = hd cp" for k
  proof (cases "prefix cp k")
    case True
    then obtain r' where "k = cp @ r'" by (auto simp: prefix_def)
    then show ?thesis using rfind_slot(1) [OF assms(1) k(1) assms(2)] k(2) hd p key find by simp
  next
    case False
    then have "k \<noteq> key" "\<not> prefix p k" using key p by (auto simp: prefix_def)
    then show ?thesis using rfind_slot(1) [OF assms(1) k(1) assms(2)] k(2) hd False by simp
  qed
  moreover have "k \<noteq> key" if "\<not> (k \<noteq> [] \<and> hd k = hd cp)" for k using that key assms(4) by auto
  ultimately show ?thesis
    using law rnew unfolding new_def [symmetric] insert_ok_def by (auto simp: new)
qed

lemma kid_word:
  assumes "rok n" and "(p, c) \<in> set (rn_Children n)"
  shows "\<exists>k w. p @ k \<noteq> [] \<and> rfind n (p @ k) = Some w"
proof -
  have p: "p \<noteq> []" using rokD(2) [OF assms(1)] assms(2) by (auto simp: heads_def)
  have "\<exists>k w. rfind c k = Some w"
    using rokD(3) [OF assms] rok_inhabited [of c] rfind_leaf [of c "[]"] by auto
  then obtain k w where "rfind c k = Some w" by blast
  then have "rfind n (p @ k) = Some w" using rfind_at [OF assms, of "p @ k"] by simp
  with p show ?thesis by blast
qed

text \<open>A key that is incomparable with all words ends up below an inner node, where it still is.\<close>

lemma descend_ok:
  assumes "rok n" and "incomparable n key" and "(p, c) \<in> set (rn_Children n)" and "prefix p key"
  shows "rok c \<and> drop (length p) key \<noteq> [] \<and> incomparable c (drop (length p) key)"
proof -
  have p: "p \<noteq> []" using rokD(2) [OF assms(1)] assms(3) by (auto simp: heads_def)
  obtain r where key: "key = p @ r" using assms(4) by (auto simp: prefix_def)
  note at = rfind_at [OF assms(1,3)]
  have inc: "\<not> prefix (p @ k) key" "\<not> prefix key (p @ k)" if "rfind c k = Some w" for k w
    using assms(2) that p at [of "p @ k"] unfolding incomparable_def by auto
  have "\<not> is_rleaf c" using inc(1) [of "[]"] rfind_leaf [of c "[]"] key by auto
  then have c: "rok c" "rn_Children c \<noteq> []" using rokD(3) [OF assms(1,3)] by auto
  from rok_inhabited [OF this] inc key have "r \<noteq> []" by fastforce
  moreover have "incomparable c r" using inc key by (auto simp: incomparable_def)
  ultimately show ?thesis using c key by simp
qed

lemma insert_law:
  assumes "rok n" and "key \<noteq> []" and "incomparable n key"
  shows "insert_ok n key v (RadixTree_insert n key v)"
  using assms
proof (induction key arbitrary: n rule: length_induct)
  case (1 key)
  note h = rokD(2) [OF 1(2)]
  show ?case
  proof (cases "find (\<lambda>c. longestCommonPrefix (fst c) key \<noteq> []) (rn_Children n)")
    case None
    then show ?thesis using insert_new [OF 1(2,3)] find_insert [OF h 1(3) None]
      by (simp add: RadixTree_insert.simps [of n])
  next
    case (Some x)
    obtain p c where x: "x = (p, c)" by fastforce
    have kid: "(p, c) \<in> set (rn_Children n)" and cp: "longestCommonPrefix p key \<noteq> []"
      using find_SomeD [OF Some] x by simp_all
    note at = rfind_at [OF 1(2) kid] and below = kid_word [OF 1(2) kid]
    show ?thesis
    proof (cases "longestCommonPrefix p key = p")
      case True
      then have pk: "prefix p key" using lcp_prefix(2) [of p key] by simp
      note d = descend_ok [OF 1(2,4) kid pk]
      have "length (drop (length p) key) < length key" using True cp 1(3) by (cases p) auto
      with 1(1) d have "insert_ok c (drop (length p) key) v (RadixTree_insert c (drop (length p) key) v)" by blast
      from insert_descend [OF 1(2) kid pk this insert_children_nonempty] True Some x show ?thesis
        by (simp add: RadixTree_insert.simps [of n])
    next
      case False
      have "longestCommonPrefix p key \<noteq> key"
      proof
        assume "longestCommonPrefix p key = key"
        then have "prefix key p" using lcp_prefix(1) [of p key] by simp
        with below 1(4) show False unfolding incomparable_def by (meson prefix_prefix)
      qed
      with insert_split [OF 1(2) kid refl cp False] False Some x show ?thesis
        by (simp add: RadixTree_insert.simps [of n] Let_def)
    qed
  qed
qed

lemma rok_New: "rok (RNode [] None [] False)" "rfind (RNode [] None [] False) k = None"
proof -
  show r: "rok (RNode [] None [] False)" by (subst rok.simps) (simp add: heads_def)
  show "rfind (RNode [] None [] False) k = None" by (rule rfind_nowhere [OF r]) simp
qed

lemma insert_law_compat:
  assumes "rok t" and "k \<noteq> []" and "\<forall>k'. k' \<noteq> [] \<longrightarrow> rfind t k' \<noteq> None \<longrightarrow> \<not> prefix k k' \<and> \<not> prefix k' k"
  shows "insert_ok t k v (RadixTree_insert t k v)"
  by (rule insert_law [OF assms(1,2)]) (unfold incomparable_def, use assms(3) in blast)

lemma insert_compat:
  assumes "rok t" and "k \<noteq> []" and "\<forall>k'. k' \<noteq> [] \<longrightarrow> rfind t k' \<noteq> None \<longrightarrow> \<not> prefix k k' \<and> \<not> prefix k' k"
  shows "rok (RadixTree_insert t k v)"
    and "rfind (RadixTree_insert t k v) k' = (if k' = k then Some v else rfind t k')"
  using insert_law_compat [OF assms, of v] by (simp_all add: insert_ok_def)

interpretation radix_index: string_index "RNode [] None [] False" "\<lambda>k v t. RadixTree_insert t k v"
  rfind rok "\<lambda>k. k \<noteq> []" "\<lambda>k k'. \<not> prefix k k' \<and> \<not> prefix k' k"
proof unfold_locales
  show "rok (RNode [] None [] False)" by (rule rok_New)
  show "rfind (RNode [] None [] False) k = None" for k :: string by (rule rok_New)
qed (rule insert_compat, assumption+)+

subsection \<open>Properties\<close>

fun radix_load :: "'v radix_tree \<Rightarrow> (string \<times> 'v option) list \<Rightarrow> (radix_error, 'v radix_tree) outcome" where
  "radix_load t [] = Ok t"
| "radix_load t ((k, v) # kvs) = (case RadixTree_Insert t k v of
     Ok t' \<Rightarrow> radix_load t' kvs | Err e \<Rightarrow> Err e | Panic \<Rightarrow> Panic | Blocks \<Rightarrow> Blocks)"

lemma radix_load_Ok:
  "\<forall>kv \<in> set kvs. fst kv \<noteq> [] \<Longrightarrow> radix_load t kvs =
     Ok \<lparr>rt_root = fold (\<lambda>(k, v) t. RadixTree_insert t k v) kvs (rt_root t), rt_size = rt_size t + int (length kvs)\<rparr>"
proof (induction kvs arbitrary: t)
  case (Cons kv kvs)
  then show ?case by (cases kv) (simp add: RadixTree_Insert_def)
qed simp

lemma Search_rfind: "k \<noteq> [] \<Longrightarrow> rfound (RadixTree_Search t k) = rfind (rt_root t) k"
  by (simp add: RadixTree_Search_def rfind_def)



text \<open>
  Inserting a key a second time does not replace its value: a search still gives the first
  value, while the size counts both insertions.
\<close>

theorem Radix_reinsert_keeps_old:
  assumes "k \<noteq> []"
  shows "\<exists>t. radix_load NewRadixTree [(k, v1), (k, v2)] = Ok t \<and>
    rfound (RadixTree_Search t k) = Some v1 \<and> RadixTree_Size t = 2"
proof -
  have lcp: "longestCommonPrefix k k = k" by (induction k) auto
  have "RadixTree_insert (RNode [] None [] False) k v1 = RNode [] None [(k, rleaf k v1)] False"
    by (simp add: RadixTree_insert.simps [of "RNode _ _ _ _"])
  moreover have "RadixTree_insert (rleaf k v1) [] v2 = RNode k v1 [([], rleaf [] v2)] True"
    by (subst RadixTree_insert.simps) (simp add: rleaf_def)
  then have "RadixTree_insert (RNode [] None [(k, rleaf k v1)] False) k v2 =
      RNode [] None [(k, RNode k v1 [([], rleaf [] v2)] True)] False"
    using assms lcp by (simp add: RadixTree_insert.simps [of "RNode _ _ _ _"])
  moreover have "RadixTree_search (RNode [] None [(k, RNode k v1 [([], rleaf [] v2)] True)] False) k = (v1, True)"
    using assms by (simp add: RadixTree_search.simps [of "RNode _ _ _ _"])
  ultimately show ?thesis using assms
    by (simp add: RadixTree_Insert_def NewRadixTree_def RadixTree_Search_def rfound_def RadixTree_Size_def)
qed

theorem Radix_reinsert_keeps_old_witness:
  "\<exists>t. radix_load NewRadixTree [(''k'', Some 1), (''k'', Some (2 :: nat))] = Ok t \<and>
     rfound (RadixTree_Search t ''k'') = Some (Some 1) \<and> RadixTree_Size t = 2"
  by (rule Radix_reinsert_keeps_old) simp

text \<open>Inserting a proper prefix of a key overwrites the longer key and is not found itself.\<close>

lemma Radix_prefix_overwrites:
  "\<exists>t. radix_load NewRadixTree [(''ab'', Some 5), (''a'', Some (2 :: nat))] = Ok t \<and>
     rfound (RadixTree_Search t ''ab'') = Some (Some 2) \<and> rfound (RadixTree_Search t ''a'') = None"
proof -
  have 1: "RadixTree_insert (RNode [] None [] False) ''ab'' (Some 5) = RNode [] None [(''ab'', rleaf ''ab'' (Some 5))] False"
    by (simp add: RadixTree_insert.simps)
  have 2: "RadixTree_insert (RNode [] None [(''ab'', rleaf ''ab'' (Some 5))] False) ''a'' (Some 2) =
      RNode [] None [(''ab'', rleaf ''ab'' (Some 2))] False"
    by (simp add: RadixTree_insert.simps rleaf_def)
  show ?thesis
    by (simp add: RadixTree_Insert_def NewRadixTree_def RadixTree_Search_def 1 2)
      (simp add: RadixTree_search.simps rleaf_def rfound_def)
qed

end
