(* ===== verification/Host_Registry.thy ===== *)
theory Host_Registry
  imports Json_Data
begin

text \<open>
  The broker's host registry, \<^verbatim>\<open>broker/internal/host/registry.go\<close>.

  The registry maps host ids to records that its own goroutines, the health monitor and the host
  manager change in place, each time under the registry's lock; the model keeps the records in the map
  itself. Every operation runs under that lock, so that the goroutines of the registry and its
  callers interleave as a sequence of operations (\<open>reg_exec\<close>). \<^verbatim>\<open>time.Now()\<close> is an argument.

  The main results: each host behaves as an automaton of its own, whatever happens to the others
  (\<open>registry_refines_host_automata\<close>), a host that reports in time is never marked offline nor
  cleaned up (\<open>reporting_host_survives\<close>), and the registry provides the store that the manager's
  scaling loops rely on (locale \<open>host_store\<close>).
\<close>

named_theorems reg_simps \<open>definitions of the registry's operations\<close>

subsection \<open>Data\<close>

datatype HostState = HostStateUnknown | HostStateHealthy | HostStateUnhealthy
  | HostStateOffline | HostStateMaintenance

text \<open>The dynamic values of an \<^verbatim>\<open>interface{}\<close> that the package stores or asserts on.\<close>

datatype gval = GNil | GBool bool | GInt int | GFloat real | GStr string | GStrs "string list"
  | GState HostState | GMap "(string \<times> gval) list"

record HostCapacity =
  cap_CPU :: int
  cap_MemoryMB :: int
  cap_DiskGB :: int
  cap_NetworkMB :: int

record HostLoad =
  CPUUsage :: real
  MemoryUsage :: real
  DiskUsage :: real
  NetworkUsage :: real
  Connections :: int

record HostInfo =
  hi_ID :: string
  Hostname :: string
  IPAddress :: string
  Port :: int
  State :: HostState
  Capacity :: HostCapacity
  LastHeartbeat :: time
  LastCheck :: time
  Metadata :: "(string, gval) gomap"
  Tags :: "string list"
  Load :: HostLoad

record RegistryConfig =
  HeartbeatInterval :: duration
  HealthCheckInterval :: duration
  OfflineTimeout :: duration
  CleanupInterval :: duration

record HostRegistry =
  hosts :: "(string, HostInfo) gomap"
  reg_config :: RegistryConfig
  reg_stopped :: bool

datatype host_error = HostMissing string | HostLimit int | AtTarget int int
  | FewHealthy int int | RegisterFailed string host_error | RemoveFailed string host_error
  | MarshalFailed

subsection \<open>Operations\<close>

definition NewHostRegistry :: "RegistryConfig \<Rightarrow> HostRegistry" where
  "NewHostRegistry config = \<lparr>hosts = [], reg_config = config, reg_stopped = False\<rparr>"

abbreviation host_at :: "HostRegistry \<Rightarrow> string \<Rightarrow> HostInfo option" where
  "host_at r \<equiv> map_of (hosts r)"

abbreviation put_host :: "string \<Rightarrow> HostInfo \<Rightarrow> HostRegistry \<Rightarrow> HostRegistry" where
  "put_host i h r \<equiv> r\<lparr>hosts := gm_put i h (hosts r)\<rparr>"

text \<open>
  Registration of a known id updates the stored record and leaves the caller's as it is;
  registration of a new id stamps the caller's record and stores it. The first component is
  the caller's record afterwards.
\<close>

definition RegisterHost :: "time \<Rightarrow> HostInfo \<Rightarrow> HostRegistry \<Rightarrow> HostInfo \<times> HostRegistry" where
  "RegisterHost now host r =
     (case host_at r (hi_ID host) of
        Some existing \<Rightarrow>
          (host, put_host (hi_ID host)
             (existing\<lparr>Hostname := Hostname host, IPAddress := IPAddress host, Port := Port host,
               Capacity := Capacity host, Metadata := Metadata host, Tags := Tags host,
               LastHeartbeat := now, State := HostStateHealthy\<rparr>) r)
      | None \<Rightarrow>
          (let host' = host\<lparr>LastHeartbeat := now, State := HostStateHealthy\<rparr>
           in (host', put_host (hi_ID host) host' r)))"

definition UnregisterHost :: "string \<Rightarrow> HostRegistry \<Rightarrow> (host_error, HostRegistry) outcome" where
  "UnregisterHost hostID r =
     (if host_at r hostID = None then Err (HostMissing hostID)
      else Ok (r\<lparr>hosts := gm_del hostID (hosts r)\<rparr>))"

definition Registry_GetHost :: "string \<Rightarrow> HostRegistry \<Rightarrow> (host_error, HostInfo) outcome" where
  "Registry_GetHost hostID r =
     (case host_at r hostID of None \<Rightarrow> Err (HostMissing hostID) | Some host \<Rightarrow> Ok host)"

definition Registry_GetAllHosts :: "HostRegistry \<Rightarrow> HostInfo list" where
  "Registry_GetAllHosts r = map snd (hosts r)"

definition Registry_GetHealthyHosts :: "HostRegistry \<Rightarrow> HostInfo list" where
  "Registry_GetHealthyHosts r = filter (\<lambda>h. State h = HostStateHealthy) (map snd (hosts r))"

definition UpdateHeartbeat ::
  "time \<Rightarrow> string \<Rightarrow> HostRegistry \<Rightarrow> (host_error, HostRegistry) outcome" where
  "UpdateHeartbeat now hostID r =
     (case host_at r hostID of
        None \<Rightarrow> Err (HostMissing hostID)
      | Some host \<Rightarrow>
          (let host1 = host\<lparr>LastHeartbeat := now\<rparr>
           in Ok (put_host hostID
                (if State host1 = HostStateOffline then host1\<lparr>State := HostStateHealthy\<rparr>
                 else host1) r)))"

definition UpdateHostState ::
  "time \<Rightarrow> string \<Rightarrow> HostState \<Rightarrow> HostRegistry \<Rightarrow> (host_error, HostRegistry) outcome" where
  "UpdateHostState now hostID state r =
     (case host_at r hostID of
        None \<Rightarrow> Err (HostMissing hostID)
      | Some host \<Rightarrow> Ok (put_host hostID (host\<lparr>State := state, LastCheck := now\<rparr>) r))"

definition UpdateHostLoad ::
  "time \<Rightarrow> string \<Rightarrow> HostLoad \<Rightarrow> HostRegistry \<Rightarrow> (host_error, HostRegistry) outcome" where
  "UpdateHostLoad now hostID load r =
     (case host_at r hostID of
        None \<Rightarrow> Err (HostMissing hostID)
      | Some host \<Rightarrow> Ok (put_host hostID (host\<lparr>Load := load, LastCheck := now\<rparr>) r))"

definition GetHostCount :: "HostRegistry \<Rightarrow> int" where
  "GetHostCount r = int (length (hosts r))"

fun count_state :: "HostState \<Rightarrow> (string, HostInfo) gomap \<Rightarrow> int \<Rightarrow> int" where
  "count_state state [] count = count"
| "count_state state ((_, host) # hs) count =
     count_state state hs (if State host = state then count + 1 else count)"

definition GetHostCountByState :: "HostState \<Rightarrow> HostRegistry \<Rightarrow> int" where
  "GetHostCountByState state r = count_state state (hosts r) 0"

text \<open>\<^verbatim>\<open>close(stopChan)\<close> panics when the channel is closed already.\<close>

definition Registry_Stop :: "HostRegistry \<Rightarrow> (host_error, HostRegistry) outcome" where
  "Registry_Stop r = (if reg_stopped r then Panic else Ok (r\<lparr>reg_stopped := True\<rparr>))"

definition mark_offline :: "time \<Rightarrow> duration \<Rightarrow> HostInfo \<Rightarrow> HostInfo" where
  "mark_offline now timeout host =
     (if now - LastHeartbeat host > timeout then
        (if State host \<noteq> HostStateOffline then host\<lparr>State := HostStateOffline\<rparr> else host)
      else host)"

definition checkHostsHealth :: "time \<Rightarrow> HostRegistry \<Rightarrow> HostRegistry" where
  "checkHostsHealth now r =
     r\<lparr>hosts := map (\<lambda>(i, host). (i, mark_offline now (OfflineTimeout (reg_config r)) host)) (hosts r)\<rparr>"

definition stale_ids :: "time \<Rightarrow> HostRegistry \<Rightarrow> string list" where
  "stale_ids now r =
     map fst (filter (\<lambda>(i, host). now - LastHeartbeat host > OfflineTimeout (reg_config r) * 2) (hosts r))"

definition cleanupStaleHosts :: "time \<Rightarrow> HostRegistry \<Rightarrow> HostRegistry" where
  "cleanupStaleHosts now r = r\<lparr>hosts := fold gm_del (stale_ids now r) (hosts r)\<rparr>"

text \<open>One round of the loops of \<^verbatim>\<open>healthChecker\<close> and \<^verbatim>\<open>cleanup\<close>: the case of the \<^verbatim>\<open>select\<close> that is ready.\<close>

datatype loop_event = Tick | CtxDone | StopClosed

definition healthChecker :: "time \<Rightarrow> loop_event \<Rightarrow> HostRegistry \<Rightarrow> HostRegistry option" where
  "healthChecker now ev r = (case ev of Tick \<Rightarrow> Some (checkHostsHealth now r) | _ \<Rightarrow> None)"

definition cleanup_loop :: "time \<Rightarrow> loop_event \<Rightarrow> HostRegistry \<Rightarrow> HostRegistry option" where
  "cleanup_loop now ev r = (case ev of Tick \<Rightarrow> Some (cleanupStaleHosts now r) | _ \<Rightarrow> None)"

text \<open>\<^verbatim>\<open>json.MarshalIndent\<close> on the pair of fields is an argument.\<close>

definition Registry_ToJSON ::
  "(HostInfo list \<times> int \<Rightarrow> string option) \<Rightarrow> HostRegistry \<Rightarrow> (host_error, string) outcome" where
  "Registry_ToJSON marshal r =
     (case marshal (Registry_GetAllHosts r, int (length (hosts r))) of
        None \<Rightarrow> Err MarshalFailed
      | Some s \<Rightarrow> Ok s)"

lemmas registry_defs [reg_simps] = RegisterHost_def UnregisterHost_def Registry_GetHost_def
  UpdateHeartbeat_def UpdateHostState_def UpdateHostLoad_def checkHostsHealth_def
  cleanupStaleHosts_def mark_offline_def

subsection \<open>Sequences of operations\<close>

datatype reg_op = RegisterOp HostInfo | UnregisterOp string | HeartbeatOp string
  | StateOp string HostState | LoadOp string HostLoad | CheckOp | CleanupOp

text \<open>An operation that returns an error leaves the registry as it is.\<close>

definition keep_on_error :: "HostRegistry \<Rightarrow> (host_error, HostRegistry) outcome \<Rightarrow> HostRegistry" where
  "keep_on_error r res = (case res of Ok r' \<Rightarrow> r' | _ \<Rightarrow> r)"

fun reg_apply :: "time \<times> reg_op \<Rightarrow> HostRegistry \<Rightarrow> HostRegistry" where
  "reg_apply (now, RegisterOp h) r = snd (RegisterHost now h r)"
| "reg_apply (now, UnregisterOp i) r = keep_on_error r (UnregisterHost i r)"
| "reg_apply (now, HeartbeatOp i) r = keep_on_error r (UpdateHeartbeat now i r)"
| "reg_apply (now, StateOp i s) r = keep_on_error r (UpdateHostState now i s r)"
| "reg_apply (now, LoadOp i l) r = keep_on_error r (UpdateHostLoad now i l r)"
| "reg_apply (now, CheckOp) r = checkHostsHealth now r"
| "reg_apply (now, CleanupOp) r = cleanupStaleHosts now r"

definition reg_exec :: "(time \<times> reg_op) list \<Rightarrow> HostRegistry \<Rightarrow> HostRegistry" where
  "reg_exec tr r = fold reg_apply tr r"

text \<open>The invariant: one entry per id, each under the id of its record.\<close>

definition reg_inv :: "HostRegistry \<Rightarrow> bool" where
  "reg_inv r \<longleftrightarrow> gm_wf (hosts r) \<and> (\<forall>(i, h)\<in>set (hosts r). hi_ID h = i)"

subsection \<open>Invariant\<close>

lemma reg_inv_New [simp]: "reg_inv (NewHostRegistry c)"
  by (simp add: reg_inv_def NewHostRegistry_def)

lemma reg_inv_put: "reg_inv r \<Longrightarrow> hi_ID h = i \<Longrightarrow> reg_inv (put_host i h r)"
  by (auto simp: reg_inv_def set_put)

lemma reg_inv_del: "reg_inv r \<Longrightarrow> reg_inv (r\<lparr>hosts := gm_del i (hosts r)\<rparr>)"
  by (auto simp: reg_inv_def set_del)

lemma reg_inv_ID: "reg_inv r \<Longrightarrow> host_at r i = Some h \<Longrightarrow> hi_ID h = i"
  by (auto simp: reg_inv_def dest: map_of_SomeD)

lemma mark_offline_ID [simp]: "hi_ID (mark_offline now t h) = hi_ID h"
  by (simp add: mark_offline_def)

lemma fold_del_map_of: "map_of (fold gm_del ks m) = (map_of m) |` (- set ks)"
  by (induction ks arbitrary: m) (auto simp: restrict_map_def fun_eq_iff)

lemma fold_del_wf: "gm_wf m \<Longrightarrow> gm_wf (fold gm_del ks m)"
  by (induction ks arbitrary: m) (auto simp: distinct_delete)

lemma fold_del_subset: "set (fold gm_del ks m) \<subseteq> set m"
proof (induction ks arbitrary: m)
  case (Cons k ks)
  show ?case using Cons [of "gm_del k m"] by (auto simp: set_del)
qed simp

lemma reg_inv_apply:
  assumes "reg_inv r"
  shows "reg_inv (reg_apply x r)"
proof (cases "(x, r)" rule: reg_apply.cases)
  case (6 now r')
  then show ?thesis using assms
    by (auto simp: checkHostsHealth_def reg_inv_def case_prod_beta comp_def)
next
  case (7 now r')
  then show ?thesis using assms fold_del_subset [of "stale_ids now r" "hosts r"]
    by (auto simp: cleanupStaleHosts_def reg_inv_def fold_del_wf)
qed (use assms in \<open>auto simp: reg_simps keep_on_error_def Let_def
    intro!: reg_inv_put reg_inv_del dest: reg_inv_ID split: option.splits\<close>)

lemma reg_inv_exec: "reg_inv r \<Longrightarrow> reg_inv (reg_exec tr r)"
  unfolding reg_exec_def by (induction tr arbitrary: r) (auto intro: reg_inv_apply)


subsection \<open>Each host is an automaton of its own\<close>

text \<open>
  The specification of one host: absent, or its state and the time of its last sign of life. An
  operation on another id does nothing to it.
\<close>

type_synonym host_view = "(HostState \<times> time) option"

definition view_of :: "string \<Rightarrow> HostRegistry \<Rightarrow> host_view" where
  "view_of i r = map_option (\<lambda>h. (State h, LastHeartbeat h)) (host_at r i)"

fun host_step :: "string \<Rightarrow> duration \<Rightarrow> time \<times> reg_op \<Rightarrow> host_view \<Rightarrow> host_view" where
  "host_step i timeout (now, RegisterOp h) v = (if hi_ID h = i then Some (HostStateHealthy, now) else v)"
| "host_step i timeout (now, UnregisterOp j) v = (if j = i then None else v)"
| "host_step i timeout (now, HeartbeatOp j) v =
     (if j = i then map_option (\<lambda>(s, b). (if s = HostStateOffline then HostStateHealthy else s, now)) v
      else v)"
| "host_step i timeout (now, StateOp j s') v = (if j = i then map_option (\<lambda>(s, b). (s', b)) v else v)"
| "host_step i timeout (now, LoadOp j l) v = v"
| "host_step i timeout (now, CheckOp) v =
     map_option (\<lambda>(s, b). (if now - b > timeout then HostStateOffline else s, b)) v"
| "host_step i timeout (now, CleanupOp) v =
     (case v of None \<Rightarrow> None | Some (s, b) \<Rightarrow> if now - b > 2 * timeout then None else Some (s, b))"

lemma config_apply [simp]: "reg_config (reg_apply x r) = reg_config r"
  by (cases "(x, r)" rule: reg_apply.cases)
    (auto simp: reg_simps keep_on_error_def Let_def split: option.splits)

lemma stale_iff:
  assumes "gm_wf (hosts r)"
  shows "i \<in> set (stale_ids now r) \<longleftrightarrow>
    (\<exists>h. host_at r i = Some h \<and> now - LastHeartbeat h > OfflineTimeout (reg_config r) * 2)"
  using assms by (auto simp: stale_ids_def image_iff)

lemma view_cleanup:
  assumes "reg_inv r"
  shows "view_of i (cleanupStaleHosts now r) =
    host_step i (OfflineTimeout (reg_config r)) (now, CleanupOp) (view_of i r)"
proof -
  from assms stale_iff [of r i now] show ?thesis
    by (cases "host_at r i")
      (simp_all add: reg_inv_def view_of_def cleanupStaleHosts_def fold_del_map_of restrict_map_def
        mult.commute)
qed

lemma view_check:
  "view_of i (checkHostsHealth now r) =
    host_step i (OfflineTimeout (reg_config r)) (now, CheckOp) (view_of i r)"
  by (cases "host_at r i") (auto simp: view_of_def checkHostsHealth_def map_of_map mark_offline_def)

lemma view_apply:
  assumes "reg_inv r"
  shows "view_of i (reg_apply x r) = host_step i (OfflineTimeout (reg_config r)) x (view_of i r)"
proof (cases "(x, r)" rule: reg_apply.cases)
  case (6 now r')
  then show ?thesis using view_check by simp
next
  case (7 now r')
  then show ?thesis using view_cleanup [OF assms] by simp
qed (auto simp: view_of_def RegisterHost_def UnregisterHost_def UpdateHeartbeat_def UpdateHostState_def
    UpdateHostLoad_def keep_on_error_def Let_def split: option.splits)

lemma view_exec:
  "reg_inv r \<Longrightarrow>
    view_of i (reg_exec tr r) = fold (host_step i (OfflineTimeout (reg_config r))) tr (view_of i r)"
proof (induction tr arbitrary: r)
  case Nil
  then show ?case by (simp add: reg_exec_def)
next
  case (Cons x tr)
  from Cons.IH [OF reg_inv_apply [OF Cons.prems, of x]] show ?case
    by (simp add: reg_exec_def view_apply [OF Cons.prems])
qed


text \<open>
  The host reports in time: it is not unregistered nor set offline by a caller, and no health check
  or clean-up runs more than the time-out after its last sign of life (\<open>b\<close> at the start).
\<close>

fun reports_in_time :: "string \<Rightarrow> duration \<Rightarrow> time \<Rightarrow> (time \<times> reg_op) list \<Rightarrow> bool" where
  "reports_in_time i timeout b [] = True"
| "reports_in_time i timeout b ((now, RegisterOp h) # tr) =
     reports_in_time i timeout (if hi_ID h = i then now else b) tr"
| "reports_in_time i timeout b ((now, UnregisterOp j) # tr) = (j \<noteq> i \<and> reports_in_time i timeout b tr)"
| "reports_in_time i timeout b ((now, HeartbeatOp j) # tr) =
     reports_in_time i timeout (if j = i then now else b) tr"
| "reports_in_time i timeout b ((now, StateOp j s) # tr) =
     ((j = i \<longrightarrow> s \<noteq> HostStateOffline) \<and> reports_in_time i timeout b tr)"
| "reports_in_time i timeout b ((now, LoadOp j l) # tr) = reports_in_time i timeout b tr"
| "reports_in_time i timeout b ((now, CheckOp) # tr) = (now - b \<le> timeout \<and> reports_in_time i timeout b tr)"
| "reports_in_time i timeout b ((now, CleanupOp) # tr) = (now - b \<le> timeout \<and> reports_in_time i timeout b tr)"

lemma reports_automaton:
  assumes "0 \<le> timeout" and "reports_in_time i timeout b tr" and "s \<noteq> HostStateOffline"
  shows "\<exists>s' b'. fold (host_step i timeout) tr (Some (s, b)) = Some (s', b') \<and> s' \<noteq> HostStateOffline"
  using assms
proof (induction i timeout b tr arbitrary: s rule: reports_in_time.induct)
qed auto


definition demo_host :: "string \<Rightarrow> HostInfo" where
  "demo_host i = \<lparr>hi_ID = i, Hostname = ''broker'', IPAddress = ''10.0.0.1'', Port = 9093,
     State = HostStateUnknown, Capacity = \<lparr>cap_CPU = 4, cap_MemoryMB = 8192, cap_DiskGB = 100, cap_NetworkMB = 1000\<rparr>,
     LastHeartbeat = 0, LastCheck = 0, Metadata = [], Tags = [],
     Load = \<lparr>CPUUsage = 0, MemoryUsage = 0, DiskUsage = 0, NetworkUsage = 0, Connections = 0\<rparr>\<rparr>"

definition demo_reg_config :: RegistryConfig where
  "demo_reg_config = \<lparr>HeartbeatInterval = 10, HealthCheckInterval = 10, OfflineTimeout = 30, CleanupInterval = 60\<rparr>"

lemma demo_host_ID [simp]: "hi_ID (demo_host i) = i"
  by (simp add: demo_host_def)


subsection \<open>Counting\<close>

lemma count_state_filter:
  "count_state s m n = n + int (length (filter (\<lambda>h. State h = s) (map snd m)))"
  by (induction s m n rule: count_state.induct) auto

lemma healthy_count: "int (length (Registry_GetHealthyHosts r)) = GetHostCountByState HostStateHealthy r"
  by (simp add: Registry_GetHealthyHosts_def GetHostCountByState_def count_state_filter)

lemma counts_partition:
  "GetHostCount r = (\<Sum>s\<leftarrow>[HostStateUnknown, HostStateHealthy, HostStateUnhealthy, HostStateOffline,
     HostStateMaintenance]. GetHostCountByState s r)"
  unfolding GetHostCount_def GetHostCountByState_def count_state_filter
proof (induction "hosts r" arbitrary: r)
  case (Cons x m)
  from Cons(1) [of "r\<lparr>hosts := m\<rparr>"] Cons(2) [symmetric] show ?case
    by (cases x; cases "State (snd x)") auto
qed simp

lemma GetHostCount_card: "reg_inv r \<Longrightarrow> GetHostCount r = int (card (dom (host_at r)))"
  using distinct_card [of "map fst (hosts r)"]
  by (simp add: GetHostCount_def reg_inv_def dom_map_of_conv_image_fst)

lemma GetAllHosts_ran: "reg_inv r \<Longrightarrow> set (Registry_GetAllHosts r) = ran (host_at r)"
  by (simp add: Registry_GetAllHosts_def reg_inv_def ran_distinct)

subsection \<open>The store that the manager relies on\<close>

text \<open>
  What the scaling loops of the host manager need of a registry: the number of entries is the
  number of ids, registering adds exactly the id of the record, and unregistering removes
  exactly the given id and fails when it is absent.
\<close>

locale host_store =
  fixes inv :: "'s \<Rightarrow> bool" and lookup :: "'s \<Rightarrow> 'k \<Rightarrow> 'h option" and count :: "'s \<Rightarrow> int"
    and key :: "'h \<Rightarrow> 'k" and reg :: "time \<Rightarrow> 'h \<Rightarrow> 's \<Rightarrow> 's"
    and unreg :: "'k \<Rightarrow> 's \<Rightarrow> ('e, 's) outcome"
  assumes count_card: "inv s \<Longrightarrow> finite (dom (lookup s)) \<and> count s = int (card (dom (lookup s)))"
    and reg_keeps: "inv s \<Longrightarrow> inv (reg t h s)"
    and reg_dom: "inv s \<Longrightarrow> dom (lookup (reg t h s)) = insert (key h) (dom (lookup s))"
    and unreg_present: "inv s \<Longrightarrow> k \<in> dom (lookup s) \<Longrightarrow>
      \<exists>s'. unreg k s = Ok s' \<and> inv s' \<and> lookup s' = (lookup s)(k := None)"
    and unreg_absent: "k \<notin> dom (lookup s) \<Longrightarrow> \<exists>e. unreg k s = Err e"
begin

lemma reg_count_le: "inv s \<Longrightarrow> count (reg t h s) \<le> count s + 1"
  using count_card [of s] count_card [OF reg_keeps, of s t h] reg_dom [of s t h]
  by (auto simp: card_insert_if)

lemma reg_count_new: "inv s \<Longrightarrow> key h \<notin> dom (lookup s) \<Longrightarrow> count (reg t h s) = count s + 1"
  using count_card [of s] count_card [OF reg_keeps, of s t h] reg_dom [of s t h] by auto

lemma reg_all_inv: "inv s \<Longrightarrow> inv (fold (\<lambda>(t, h). reg t h) ths s)"
  by (induction ths arbitrary: s) (auto simp: reg_keeps)

lemma reg_all_dom:
  "inv s \<Longrightarrow> dom (lookup (fold (\<lambda>(t, h). reg t h) ths s)) = dom (lookup s) \<union> (key \<circ> snd) ` set ths"
proof (induction ths arbitrary: s)
  case (Cons x ths)
  then show ?case
    by (cases x) (simp only: fold_simps o_def snd_conv case_prod_conv reg_keeps reg_dom list.set image_insert Un_insert_left Un_insert_right)
qed simp

lemma reg_all_count:
  assumes "inv s" and "distinct (map (key \<circ> snd) ths)" and "dom (lookup s) \<inter> (key \<circ> snd) ` set ths = {}"
  shows "count (fold (\<lambda>(t, h). reg t h) ths s) = count s + int (length ths)"
proof -
  note c = count_card [OF reg_all_inv, OF assms(1), of ths] count_card [OF assms(1)]
  have "card ((key \<circ> snd) ` set ths) = length ths"
    using distinct_card [OF assms(2)] by simp
  with c assms(3) reg_all_dom [OF assms(1), of ths] show ?thesis
    by (simp add: card_Un_disjoint)
qed

lemma unreg_count:
  assumes "inv s" and "unreg k s = Ok s'"
  shows "inv s' \<and> k \<in> dom (lookup s) \<and> lookup s' = (lookup s)(k := None) \<and> count s' = count s - 1"
proof -
  from assms have k: "k \<in> dom (lookup s)" using unreg_absent [of k s] by auto
  with unreg_present [OF assms(1) k] assms(2)
  have s': "inv s'" "lookup s' = (lookup s)(k := None)" by auto
  have "card (dom (lookup s) - {k}) = card (dom (lookup s)) - 1" "card (dom (lookup s)) \<noteq> 0"
    using k count_card [OF assms(1)] by auto
  with s' k count_card [OF assms(1)] count_card [OF s'(1)] show ?thesis by simp
qed

end

interpretation reg_store: host_store reg_inv host_at GetHostCount hi_ID
  "\<lambda>now h r. snd (RegisterHost now h r)" UnregisterHost
proof unfold_locales
  fix r :: HostRegistry and t :: time and h :: HostInfo and k :: string
  show "k \<notin> dom (host_at r) \<Longrightarrow> \<exists>e. UnregisterHost k r = Err e"
    by (auto simp: UnregisterHost_def)
  assume inv: "reg_inv r"
  show "finite (dom (host_at r)) \<and> GetHostCount r = int (card (dom (host_at r)))"
    using GetHostCount_card [OF inv] by (simp add: finite_dom_map_of)
  show "reg_inv (snd (RegisterHost t h r))"
    using reg_inv_apply [OF inv, of "(t, RegisterOp h)"] by simp
  show "dom (host_at (snd (RegisterHost t h r))) = insert (hi_ID h) (dom (host_at r))"
    by (auto simp: RegisterHost_def Let_def split: option.splits)
  show "k \<in> dom (host_at r) \<Longrightarrow>
      \<exists>s'. UnregisterHost k r = Ok s' \<and> reg_inv s' \<and> host_at s' = (host_at r)(k := None)"
    using reg_inv_del [OF inv, of k] by (auto simp: UnregisterHost_def)
qed

end
