(* ===== verification/Event_Bus.thy ===== *)
theory Event_Bus
  imports Go_Prelude
begin

text \<open>
  The contract of the publish/subscribe part that the health monitor and the host manager share
  in shape: subscribers own buffered channels, the dispatcher offers every event to every
  subscriber and drops it for those whose buffer is full. The locale states the contract of the
  four operations; what a subscriber receives from any interleaving of them is proved
  once, and both components obtain it by interpretation.
\<close>

subsection \<open>Operations and the view of one subscriber\<close>

datatype 'e bus_op = Subscribe string | Unsubscribe string | Dispatch 'e | Receive string

fun bus_step ::
  "(string \<Rightarrow> 's \<Rightarrow> 's) \<Rightarrow> (string \<Rightarrow> 's \<Rightarrow> ('x, 's) outcome) \<Rightarrow> ('e \<Rightarrow> 's \<Rightarrow> ('x, 's) outcome) \<Rightarrow>
    (string \<Rightarrow> 's \<Rightarrow> 's) \<Rightarrow> 'e bus_op \<Rightarrow> 's \<Rightarrow> ('x, 's) outcome" where
  "bus_step sub unsub disp recv (Subscribe i) s = Ok (sub i s)"
| "bus_step sub unsub disp recv (Unsubscribe i) s = unsub i s"
| "bus_step sub unsub disp recv (Dispatch e) s = disp e s"
| "bus_step sub unsub disp recv (Receive i) s = Ok (recv i s)"

fun bus_run ::
  "(string \<Rightarrow> 's \<Rightarrow> 's) \<Rightarrow> (string \<Rightarrow> 's \<Rightarrow> ('x, 's) outcome) \<Rightarrow> ('e \<Rightarrow> 's \<Rightarrow> ('x, 's) outcome) \<Rightarrow>
    (string \<Rightarrow> 's \<Rightarrow> 's) \<Rightarrow> 'e bus_op list \<Rightarrow> 's \<Rightarrow> ('x, 's) outcome" where
  "bus_run sub unsub disp recv [] s = Ok s"
| "bus_run sub unsub disp recv (x # xs) s =
     (case bus_step sub unsub disp recv x s of
        Ok s' \<Rightarrow> bus_run sub unsub disp recv xs s'
      | Err e \<Rightarrow> Err e | Panic \<Rightarrow> Panic | Blocks \<Rightarrow> Blocks)"

text \<open>The backlog of one subscriber, as a bounded queue; \<open>None\<close> while not subscribed.\<close>

definition offer :: "nat \<Rightarrow> 'e \<Rightarrow> 'e list \<Rightarrow> 'e list" where
  "offer n e q = (if length q < n then q @ [e] else q)"

fun backlog_step :: "nat \<Rightarrow> string \<Rightarrow> 'e bus_op \<Rightarrow> 'e list option \<Rightarrow> 'e list option" where
  "backlog_step n i (Subscribe j) q = (if j = i then Some [] else q)"
| "backlog_step n i (Unsubscribe j) q = (if j = i then None else q)"
| "backlog_step n i (Dispatch e) q = map_option (offer n e) q"
| "backlog_step n i (Receive j) q = (if j = i then map_option tl q else q)"

definition backlog :: "nat \<Rightarrow> string \<Rightarrow> 'e bus_op list \<Rightarrow> 'e list option \<Rightarrow> 'e list option" where
  "backlog n i xs q = fold (backlog_step n i) xs q"

text \<open>The events that a sequence dispatches, and those that one subscriber takes from a bounded queue.\<close>

fun dispatched :: "'e bus_op list \<Rightarrow> 'e list" where
  "dispatched [] = []"
| "dispatched (Dispatch e # xs) = e # dispatched xs"
| "dispatched (_ # xs) = dispatched xs"

fun received :: "nat \<Rightarrow> string \<Rightarrow> 'e bus_op list \<Rightarrow> 'e list option \<Rightarrow> 'e list" where
  "received n i [] q = []"
| "received n i (x # xs) q =
     (if x = Receive i then (case q of Some (e # _) \<Rightarrow> [e] | _ \<Rightarrow> []) else [])
       @ received n i xs (backlog_step n i x q)"

text \<open>The subscriber keeps up: it stays subscribed and a dispatch never finds its buffer full.\<close>

fun keeps_up :: "nat \<Rightarrow> string \<Rightarrow> 'e bus_op list \<Rightarrow> 'e list \<Rightarrow> bool" where
  "keeps_up n i [] q = True"
| "keeps_up n i (Subscribe j # xs) q = (j \<noteq> i \<and> keeps_up n i xs q)"
| "keeps_up n i (Unsubscribe j # xs) q = (j \<noteq> i \<and> keeps_up n i xs q)"
| "keeps_up n i (Dispatch e # xs) q = (length q < n \<and> keeps_up n i xs (q @ [e]))"
| "keeps_up n i (Receive j # xs) q = keeps_up n i xs (if j = i then tl q else q)"

lemma backlog_simps [simp]:
  "backlog n i [] q = q" "backlog n i (x # xs) q = backlog n i xs (backlog_step n i x q)"
  by (simp_all add: backlog_def)

lemma backlog_bounded:
  "(\<forall>l. q = Some l \<longrightarrow> length l \<le> n) \<Longrightarrow> backlog n i xs q = Some l \<Longrightarrow> length l \<le> n"
proof (induction xs arbitrary: q)
  case (Cons x xs)
  have "\<forall>l. backlog_step n i x q = Some l \<longrightarrow> length l \<le> n"
    using Cons.prems(1) by (cases x; cases q) (auto simp: offer_def intro: diff_le_self order_trans)
  with Cons show ?case by auto
qed simp

lemma keeps_up_all:
  "keeps_up n i xs q \<Longrightarrow>
    \<exists>l. backlog n i xs (Some q) = Some l \<and> received n i xs (Some q) @ l = q @ dispatched xs"
proof (induction n i xs q rule: keeps_up.induct)
  case (5 n i j xs q)
  then show ?case by (cases q; cases "j = i") auto
qed (auto simp: offer_def)

lemma bus_run_append:
  "bus_run sub unsub disp recv (xs @ ys) s =
    (case bus_run sub unsub disp recv xs s of
       Ok s' \<Rightarrow> bus_run sub unsub disp recv ys s'
     | Err e \<Rightarrow> Err e | Panic \<Rightarrow> Panic | Blocks \<Rightarrow> Blocks)"
  by (induction xs arbitrary: s) (auto split: outcome.splits)

subsection \<open>The contract\<close>

locale event_bus =
  fixes inv :: "'s \<Rightarrow> bool" and subs :: "'s \<Rightarrow> string \<Rightarrow> 'e chan option" and size :: nat
    and subscribe :: "string \<Rightarrow> 's \<Rightarrow> 's" and unsubscribe :: "string \<Rightarrow> 's \<Rightarrow> ('x, 's) outcome"
    and dispatch :: "'e \<Rightarrow> 's \<Rightarrow> ('x, 's) outcome" and receive :: "string \<Rightarrow> 's \<Rightarrow> 's"
  assumes subscribe_law: "inv s \<Longrightarrow>
      inv (subscribe i s) \<and> subs (subscribe i s) = (subs s)(i \<mapsto> chan_make size)"
    and unsubscribe_law: "inv s \<Longrightarrow>
      \<exists>s'. unsubscribe i s = Ok s' \<and> inv s' \<and> subs s' = (subs s)(i := None)"
    and dispatch_law: "inv s \<Longrightarrow>
      \<exists>s'. dispatch e s = Ok s' \<and> inv s' \<and>
        (\<forall>i. map_option ch_buf (subs s' i) = map_option (offer size e \<circ> ch_buf) (subs s i))"
    and receive_law: "inv s \<Longrightarrow>
      inv (receive i s) \<and>
        (\<forall>j. map_option ch_buf (subs (receive i s) j) =
          map_option ((if j = i then tl else (\<lambda>l. l)) \<circ> ch_buf) (subs s j))"
begin

lemma step_view:
  assumes "inv s"
  shows "\<exists>s'. bus_step subscribe unsubscribe dispatch receive x s = Ok s' \<and> inv s' \<and>
    (\<forall>i. map_option ch_buf (subs s' i) = backlog_step size i x (map_option ch_buf (subs s i)))"
proof (cases x)
  case (Subscribe j)
  then show ?thesis using subscribe_law [OF assms, of j] by (auto simp: chan_make_def)
next
  case (Unsubscribe j)
  then show ?thesis using unsubscribe_law [OF assms, of j] by auto
next
  case (Dispatch e)
  then show ?thesis using dispatch_law [OF assms, of e] by (auto simp: option.map_comp)
next
  case (Receive j)
  then show ?thesis using receive_law [OF assms, of j] by (auto simp: option.map_comp comp_def option.map_ident)
qed

lemma run_view:
  "inv s \<Longrightarrow> \<exists>s'. bus_run subscribe unsubscribe dispatch receive xs s = Ok s' \<and> inv s' \<and>
    (\<forall>i. map_option ch_buf (subs s' i) = backlog size i xs (map_option ch_buf (subs s i)))"
proof (induction xs arbitrary: s)
  case (Cons x xs)
  from step_view [OF Cons.prems, of x] obtain s1
    where "bus_step subscribe unsubscribe dispatch receive x s = Ok s1" and "inv s1"
      and "\<forall>i. map_option ch_buf (subs s1 i) = backlog_step size i x (map_option ch_buf (subs s i))"
    by blast
  with Cons.IH [of s1] show ?case by simp
qed simp

text \<open>
  Whatever the callers do, no operation panics or blocks, buffers stay within their size, and a
  subscriber that keeps up receives every event dispatched since it subscribed, in order.
\<close>

lemma subscriber_gets_all:
  assumes "inv s" and "keeps_up size i xs []"
  shows "\<exists>s' c. bus_run subscribe unsubscribe dispatch receive (Subscribe i # xs) s = Ok s' \<and>
    subs s' i = Some c \<and> length (ch_buf c) \<le> size \<and>
    received size i xs (Some []) @ ch_buf c = dispatched xs"
proof -
  from run_view [OF assms(1), of "Subscribe i # xs"] obtain s'
    where s': "bus_run subscribe unsubscribe dispatch receive (Subscribe i # xs) s = Ok s'"
      and v: "map_option ch_buf (subs s' i) = backlog size i xs (Some [])"
    by fastforce
  from keeps_up_all [OF assms(2)] obtain l
    where l: "backlog size i xs (Some []) = Some l" "received size i xs (Some []) @ l = dispatched xs"
    by auto
  from l(1) have "length l \<le> size" by (rule backlog_bounded [rotated]) simp
  with s' v l show ?thesis by auto
qed

lemma subscriber_gets_all_after:
  assumes "inv s" and "keeps_up size i xs []"
  shows "\<exists>s' c. bus_run subscribe unsubscribe dispatch receive (pre @ Subscribe i # xs) s = Ok s' \<and>
    subs s' i = Some c \<and> length (ch_buf c) \<le> size \<and>
    received size i xs (Some []) @ ch_buf c = dispatched xs"
proof -
  from run_view [OF assms(1), of pre] obtain s1
    where "bus_run subscribe unsubscribe dispatch receive pre s = Ok s1" and "inv s1" by blast
  with subscriber_gets_all [OF _ assms(2), of s1] show ?thesis by (simp add: bus_run_append)
qed

end

subsection \<open>The subscriber map of the components\<close>

text \<open>
  Both components keep their subscribers in a map that the dispatcher ranges over with a
  non-blocking send; a subscriber takes from its own channel.
\<close>

fun dispatch_all :: "'e \<Rightarrow> (string, 'e chan) gomap \<Rightarrow> ('x, (string, 'e chan) gomap) outcome" where
  "dispatch_all event [] = Ok []"
| "dispatch_all event ((i, ch) # rest) =
     (case chan_try_send event ch of
        Ok ch' \<Rightarrow> (case dispatch_all event rest of Ok rest' \<Rightarrow> Ok ((i, ch') # rest') | e \<Rightarrow> e)
      | Err e \<Rightarrow> Err e | Panic \<Rightarrow> Panic | Blocks \<Rightarrow> Blocks)"

definition receive_from :: "string \<Rightarrow> (string, 'e chan) gomap \<Rightarrow> (string, 'e chan) gomap" where
  "receive_from i m = map (\<lambda>(j, ch). (j, if j = i then ch\<lparr>ch_buf := tl (ch_buf ch)\<rparr> else ch)) m"

definition subs_inv :: "nat \<Rightarrow> (string, 'e chan) gomap \<Rightarrow> bool" where
  "subs_inv n m \<longleftrightarrow> gm_wf m \<and> (\<forall>(i, ch)\<in>set m. \<not> ch_closed ch \<and> ch_cap ch = n)"

lemma subs_inv_put: "subs_inv n m \<Longrightarrow> subs_inv n (gm_put i (chan_make n) m)"
  by (auto simp: subs_inv_def set_put chan_make_def)

lemma subs_inv_del: "subs_inv n m \<Longrightarrow> subs_inv n (gm_del i m)"
  by (auto simp: subs_inv_def set_del)

lemma subs_inv_open: "subs_inv n m \<Longrightarrow> map_of m i = Some ch \<Longrightarrow> \<not> ch_closed ch"
  by (auto simp: subs_inv_def dest: map_of_SomeD)

lemma dispatch_all_ok:
  "subs_inv n m \<Longrightarrow>
    \<exists>m'. dispatch_all e m = (Ok m' :: ('x, (string, 'e chan) gomap) outcome) \<and> map fst m' = map fst m \<and> subs_inv n m' \<and>
      (\<forall>i. map_option ch_buf (map_of m' i) = map_option (offer n e \<circ> ch_buf) (map_of m i))"
proof (induction m)
  case (Cons x m)
  obtain j ch where x: "x = (j, ch)" by (cases x)
  from Cons have ch: "\<not> ch_closed ch" "ch_cap ch = n" and "subs_inv n m"
    by (auto simp: subs_inv_def x)
  with Cons.IH obtain m' where m': "dispatch_all e m = (Ok m' :: ('x, (string, 'e chan) gomap) outcome)" "map fst m' = map fst m" "subs_inv n m'"
    and b: "\<forall>i. map_option ch_buf (map_of m' i) = map_option (offer n e \<circ> ch_buf) (map_of m i)"
    by blast
  define ch' where "ch' = ch\<lparr>ch_buf := offer n e (ch_buf ch)\<rparr>"
  have "chan_try_send e ch = (Ok ch' :: ('x, 'e chan) outcome)"
    using ch by (simp add: chan_try_send_def offer_def ch'_def)
  moreover have "ch_buf ch' = offer n e (ch_buf ch)" by (simp add: ch'_def)
  moreover have "\<not> ch_closed ch'" "ch_cap ch' = n" using ch by (simp_all add: ch'_def)
  moreover from Cons.prems have "j \<notin> set (map fst m')"
    unfolding m'(2) by (simp add: subs_inv_def x)
  then have "subs_inv n ((j, ch') # m')"
    using m'(3) \<open>\<not> ch_closed ch'\<close> \<open>ch_cap ch' = n\<close> by (simp add: subs_inv_def)
  ultimately show ?case
    using m'(1,2) b by (intro exI [of _ "(j, ch') # m'"]) (simp add: x comp_def)
qed (simp add: subs_inv_def)

lemma receive_from_keys [simp]: "map fst (receive_from i m) = map fst m"
  by (simp add: receive_from_def case_prod_beta comp_def)

lemma receive_from_at:
  "map_of (receive_from i m) j = map_option (\<lambda>ch. if j = i then ch\<lparr>ch_buf := tl (ch_buf ch)\<rparr> else ch) (map_of m j)"
  by (induction m) (auto simp: receive_from_def)

lemma receive_from_ok:
  "subs_inv n m \<Longrightarrow> subs_inv n (receive_from i m) \<and>
    (\<forall>j. map_option ch_buf (map_of (receive_from i m) j) =
      map_option ((if j = i then tl else (\<lambda>l. l)) \<circ> ch_buf) (map_of m j))"
proof (intro conjI allI)
  assume "subs_inv n m"
  then show "subs_inv n (receive_from i m)"
    by (auto simp: subs_inv_def) (auto simp: receive_from_def split: if_splits)
  show "map_option ch_buf (map_of (receive_from i m) j) =
      map_option ((if j = i then tl else (\<lambda>l. l)) \<circ> ch_buf) (map_of m j)" for j
    by (cases "map_of m j") (simp_all add: receive_from_at)
qed

end
