(* ===== verification/Health_Monitor.thy ===== *)
theory Health_Monitor
  imports Host_Registry Event_Bus "HOL-Library.Multiset"
begin

text \<open>
  The broker's health monitor, \<^verbatim>\<open>broker/internal/host/health.go\<close>.

  \<^verbatim>\<open>checkAllHosts\<close> starts one goroutine per host. A goroutine reads its host, runs the checkers
  and the thresholds, and then updates the registry and queues an event. The model of
  \<^verbatim>\<open>checkHost\<close> takes the record as it was read and the registry as it is when the verdict is
  stored, so that other operations may come in between. The network is the argument \<open>dial\<close>:
  the error, if any, of connecting to an address while one host is checked.

  The results: a round gives every host the verdict of its specification in whatever order
  its goroutines run (\<open>check_round_correct\<close>), also to a host that is in maintenance
  (\<open>maintenance_is_overridden\<close>), and subscribers receive the events of the dispatcher
  (\<open>health_subscriber_gets_all\<close>).
\<close>

subsection \<open>Data\<close>

record CustomHealthCheck =
  chc_Name :: string
  chc_Command :: string
  chc_Timeout :: duration
  chc_ExpectCode :: int
  chc_ExpectValue :: string

record HealthConfig =
  hc_CheckInterval :: duration
  hc_Timeout :: duration
  hc_MaxRetries :: int
  EnableTCP :: bool
  EnableHTTP :: bool
  EnableCustom :: bool
  TCPPorts :: "int list"
  HTTPPaths :: "string list"
  CustomChecks :: "CustomHealthCheck list"
  AlertThresholds :: "(string \<rightharpoonup> real) option"

datatype HealthChecker = TCPHealthChecker "int list" | HTTPHealthChecker "string list"
  | CustomHealthChecker CustomHealthCheck

text \<open>Messages and errors that the code formats for people are kept as values.\<close>

datatype check_error = TCPFailed string | HTTPFailed string

datatype health_message = NoMessage | CheckFailed string | OverThreshold

record HealthEvent =
  he_HostID :: string
  he_EventType :: string
  he_OldState :: HostState
  he_NewState :: HostState
  he_Message :: health_message
  he_Timestamp :: time
  he_Details :: "(string, bool \<times> bool \<times> check_error option) gomap"

record HealthMonitor =
  hm_config :: HealthConfig
  hm_checkers :: "(string, HealthChecker) gomap"
  hm_stopped :: bool
  hm_eventChan :: "HealthEvent chan"
  hm_subscribers :: "(string, HealthEvent chan) gomap"

subsection \<open>Construction\<close>

definition initCheckers :: "HealthMonitor \<Rightarrow> HealthMonitor" where
  "initCheckers m =
     (let config = hm_config m;
          c1 = (if EnableTCP config then gm_put ''tcp'' (TCPHealthChecker (TCPPorts config)) (hm_checkers m)
                else hm_checkers m);
          c2 = (if EnableHTTP config then gm_put ''http'' (HTTPHealthChecker (HTTPPaths config)) c1 else c1);
          c3 = (if EnableCustom config
                then fold (\<lambda>check. gm_put (chc_Name check) (CustomHealthChecker check)) (CustomChecks config) c2
                else c2)
      in m\<lparr>hm_checkers := c3\<rparr>)"

definition NewHealthMonitor :: "HealthConfig \<Rightarrow> HealthMonitor" where
  "NewHealthMonitor config =
     initCheckers \<lparr>hm_config = config, hm_checkers = [], hm_stopped = False,
       hm_eventChan = chan_make 100, hm_subscribers = []\<rparr>"

definition HealthMonitor_Stop :: "HealthMonitor \<Rightarrow> (host_error, HealthMonitor) outcome" where
  "HealthMonitor_Stop m = (if hm_stopped m then Panic else Ok (m\<lparr>hm_stopped := True\<rparr>))"

subsection \<open>Checkers\<close>

fun TCP_Check :: "(string \<Rightarrow> string option) \<Rightarrow> int list \<Rightarrow> HostInfo \<Rightarrow> bool \<times> check_error option" where
  "TCP_Check dial [] host = (True, None)"
| "TCP_Check dial (port # ports) host =
     (case dial (IPAddress host @ '':'' @ itoa port) of
        Some err \<Rightarrow> (False, Some (TCPFailed err))
      | None \<Rightarrow> TCP_Check dial ports host)"

fun HTTP_Check :: "(string \<Rightarrow> string option) \<Rightarrow> string list \<Rightarrow> HostInfo \<Rightarrow> bool \<times> check_error option" where
  "HTTP_Check dial [] host = (True, None)"
| "HTTP_Check dial (_ # paths) host =
     (case dial (IPAddress host @ '':80'') of
        Some err \<Rightarrow> (False, Some (HTTPFailed err))
      | None \<Rightarrow> HTTP_Check dial paths host)"

definition Custom_Check :: "CustomHealthCheck \<Rightarrow> HostInfo \<Rightarrow> bool \<times> check_error option" where
  "Custom_Check config host = (True, None)"

fun Checker_Check :: "(string \<Rightarrow> string option) \<Rightarrow> HealthChecker \<Rightarrow> HostInfo \<Rightarrow> bool \<times> check_error option" where
  "Checker_Check dial (TCPHealthChecker ports) host = TCP_Check dial ports host"
| "Checker_Check dial (HTTPHealthChecker paths) host = HTTP_Check dial paths host"
| "Checker_Check dial (CustomHealthChecker config) host = Custom_Check config host"

fun Checker_Name :: "HealthChecker \<Rightarrow> string" where
  "Checker_Name (TCPHealthChecker ports) = ''tcp''"
| "Checker_Name (HTTPHealthChecker paths) = ''http''"
| "Checker_Name (CustomHealthChecker config) = chc_Name config"

definition over :: "(string \<rightharpoonup> real) \<Rightarrow> string \<Rightarrow> real \<Rightarrow> bool" where
  "over thresholds k usage = (case thresholds k of None \<Rightarrow> False | Some t \<Rightarrow> usage > t)"

definition isOverThreshold :: "HealthMonitor \<Rightarrow> HostInfo \<Rightarrow> bool" where
  "isOverThreshold m host =
     (case AlertThresholds (hm_config m) of
        None \<Rightarrow> False
      | Some thresholds \<Rightarrow>
          if over thresholds ''cpu'' (CPUUsage (Load host)) then True
          else if over thresholds ''memory'' (MemoryUsage (Load host)) then True
          else if over thresholds ''disk'' (DiskUsage (Load host)) then True
          else False)"

text \<open>The loop over the checkers: it stops at the first that fails.\<close>

fun run_checkers ::
  "(string \<Rightarrow> string option) \<Rightarrow> HostInfo \<Rightarrow> (string, HealthChecker) gomap \<Rightarrow>
    (string, bool \<times> bool \<times> check_error option) gomap \<Rightarrow>
    HostState \<times> health_message \<times> (string, bool \<times> bool \<times> check_error option) gomap" where
  "run_checkers dial host [] details = (HostStateHealthy, NoMessage, details)"
| "run_checkers dial host ((name, checker) # rest) details =
     (let (healthy, err) = Checker_Check dial checker host;
          details' = gm_put name (healthy, err \<noteq> None, err) details
      in if \<not> healthy then (HostStateUnhealthy, CheckFailed name, details')
         else run_checkers dial host rest details')"

text \<open>
  One goroutine: \<open>host\<close> is the record as read at its start, \<open>r\<close> the registry when the verdict is
  stored. The outcome \<open>Blocks\<close> comes with the state in which the goroutine waits.
\<close>

definition checkHost ::
  "(string \<Rightarrow> string option) \<Rightarrow> time \<Rightarrow> time \<Rightarrow> HostInfo \<Rightarrow> HealthMonitor \<times> HostRegistry \<Rightarrow>
    (HealthMonitor \<times> HostRegistry) \<times> (host_error, unit) outcome" where
  "checkHost dial now1 now2 host = (\<lambda>(m, r).
     (let oldState = State host;
          (state1, message1, details) = run_checkers dial host (hm_checkers m) [];
          (newState, message) =
            (if isOverThreshold m host then (HostStateUnhealthy, OverThreshold) else (state1, message1))
      in if newState \<noteq> oldState then
           (case UpdateHostState now1 (hi_ID host) newState r of
              Ok r' \<Rightarrow>
                (let event = \<lparr>he_HostID = hi_ID host, he_EventType = ''state_change'', he_OldState = oldState,
                       he_NewState = newState, he_Message = message, he_Timestamp = now2, he_Details = details\<rparr>
                 in case chan_send event (hm_eventChan m) of
                      Ok ch \<Rightarrow> ((m\<lparr>hm_eventChan := ch\<rparr>, r'), Ok ())
                    | Err e \<Rightarrow> ((m, r'), Err e)
                    | Panic \<Rightarrow> ((m, r'), Panic)
                    | Blocks \<Rightarrow> ((m, r'), Blocks))
            | _ \<Rightarrow> ((m, r), Ok ()))
         else ((m, r), Ok ())))"

text \<open>\<^verbatim>\<open>checkAllHosts\<close> starts the goroutines of all hosts; it is the list of the records they read.\<close>

definition checkAllHosts :: "HostRegistry \<Rightarrow> HostInfo list" where
  "checkAllHosts r = Registry_GetAllHosts r"

definition monitorLoop :: "loop_event \<Rightarrow> HostRegistry \<Rightarrow> HostInfo list option" where
  "monitorLoop ev r = (case ev of Tick \<Rightarrow> Some (checkAllHosts r) | _ \<Rightarrow> None)"

subsection \<open>Events and statistics\<close>

definition Health_dispatchEvent :: "HealthEvent \<Rightarrow> HealthMonitor \<Rightarrow> (host_error, HealthMonitor) outcome" where
  "Health_dispatchEvent event m =
     (case dispatch_all event (hm_subscribers m) of
        Ok subs \<Rightarrow> Ok (m\<lparr>hm_subscribers := subs\<rparr>)
      | Err e \<Rightarrow> Err e | Panic \<Rightarrow> Panic | Blocks \<Rightarrow> Blocks)"

text \<open>One round of the dispatcher's loop when its first case is ready.\<close>

definition Health_eventDispatcher :: "HealthMonitor \<Rightarrow> (host_error, HealthMonitor) outcome" where
  "Health_eventDispatcher m =
     (case ch_buf (hm_eventChan m) of
        [] \<Rightarrow> Blocks
      | event # rest \<Rightarrow>
          Health_dispatchEvent event (m\<lparr>hm_eventChan := (hm_eventChan m)\<lparr>ch_buf := rest\<rparr>\<rparr>))"

definition Health_Subscribe :: "string \<Rightarrow> HealthMonitor \<Rightarrow> HealthMonitor" where
  "Health_Subscribe i m = m\<lparr>hm_subscribers := gm_put i (chan_make 50) (hm_subscribers m)\<rparr>"

text \<open>Closing a channel that is closed already panics.\<close>

definition Health_Unsubscribe :: "string \<Rightarrow> HealthMonitor \<Rightarrow> (host_error, HealthMonitor) outcome" where
  "Health_Unsubscribe i m =
     (case map_of (hm_subscribers m) i of
        None \<Rightarrow> Ok m
      | Some ch \<Rightarrow>
          if ch_closed ch then Panic
          else Ok (m\<lparr>hm_subscribers := gm_del i (hm_subscribers m)\<rparr>))"

definition bump :: "string \<Rightarrow> (string, int) gomap \<Rightarrow> (string, int) gomap" where
  "bump k status = (case map_of status k of Some n \<Rightarrow> gm_put k (n + 1) status | None \<Rightarrow> status)"

fun count_status :: "HostInfo list \<Rightarrow> (string, int) gomap \<Rightarrow> (string, int) gomap" where
  "count_status [] status = status"
| "count_status (host # rest) status =
     count_status rest
       (case State host of
          HostStateHealthy \<Rightarrow> bump ''healthy'' status
        | HostStateUnhealthy \<Rightarrow> bump ''unhealthy'' status
        | HostStateOffline \<Rightarrow> bump ''offline'' status
        | HostStateMaintenance \<Rightarrow> bump ''maintenance'' status
        | HostStateUnknown \<Rightarrow> status)"

definition GetHealthStatus :: "HostRegistry \<Rightarrow> (string, int) gomap" where
  "GetHealthStatus r =
     (let hs = Registry_GetAllHosts r
      in count_status hs [(''total'', int (length hs)), (''healthy'', 0), (''unhealthy'', 0),
           (''offline'', 0), (''maintenance'', 0)])"

subsection \<open>The verdict on a host\<close>

definition passes :: "(string \<Rightarrow> string option) \<Rightarrow> HostInfo \<Rightarrow> HealthChecker \<Rightarrow> bool" where
  "passes dial host c = (case c of
     TCPHealthChecker ports \<Rightarrow> \<forall>p\<in>set ports. dial (IPAddress host @ '':'' @ itoa p) = None
   | HTTPHealthChecker paths \<Rightarrow> paths = [] \<or> dial (IPAddress host @ '':80'') = None
   | CustomHealthChecker config \<Rightarrow> True)"

definition verdict :: "(string \<Rightarrow> string option) \<Rightarrow> HealthMonitor \<Rightarrow> HostInfo \<Rightarrow> HostState" where
  "verdict dial m host =
     (if (\<forall>c\<in>snd ` set (hm_checkers m). passes dial host c) \<and> \<not> isOverThreshold m host
      then HostStateHealthy else HostStateUnhealthy)"

lemma TCP_Check_fst: "fst (TCP_Check dial ports host) \<longleftrightarrow> (\<forall>p\<in>set ports. dial (IPAddress host @ '':'' @ itoa p) = None)"
  by (induction dial ports host rule: TCP_Check.induct) (auto split: option.splits)

lemma HTTP_Check_fst: "fst (HTTP_Check dial paths host) \<longleftrightarrow> paths = [] \<or> dial (IPAddress host @ '':80'') = None"
  by (induction dial paths host rule: HTTP_Check.induct) (auto split: option.splits)

lemma Checker_Check_passes: "fst (Checker_Check dial c host) = passes dial host c"
  by (cases c) (simp_all add: passes_def TCP_Check_fst HTTP_Check_fst Custom_Check_def)

lemma run_checkers_state:
  "fst (run_checkers dial host cs details) =
    (if \<forall>c\<in>snd ` set cs. passes dial host c then HostStateHealthy else HostStateUnhealthy)"
proof (induction cs arbitrary: details)
  case (Cons x cs)
  then show ?case
    by (cases x) (simp add: Let_def case_prod_beta Checker_Check_passes)
qed simp

text \<open>
  With room in the event channel, \<^verbatim>\<open>checkHost\<close> stores the verdict when it differs from the state
  that was read, and queues one event about it.
\<close>

lemma checkHost_ok:
  assumes "host_at r (hi_ID h) = Some h0" and "\<not> ch_closed (hm_eventChan m)"
    and "length (ch_buf (hm_eventChan m)) < ch_cap (hm_eventChan m)"
  shows "\<exists>ev. he_HostID ev = hi_ID h \<and> he_OldState ev = State h \<and> he_NewState ev = verdict dial m h \<and>
    checkHost dial t1 t2 h (m, r) =
      (if verdict dial m h = State h then ((m, r), Ok ())
       else ((m\<lparr>hm_eventChan := (hm_eventChan m)\<lparr>ch_buf := ch_buf (hm_eventChan m) @ [ev]\<rparr>\<rparr>,
              put_host (hi_ID h) (h0\<lparr>State := verdict dial m h, LastCheck := t1\<rparr>) r), Ok ()))"
proof -
  obtain s1 msg1 det where rc: "run_checkers dial h (hm_checkers m) [] = (s1, msg1, det)"
    by (cases "run_checkers dial h (hm_checkers m) []") auto
  define msg where "msg = (if isOverThreshold m h then OverThreshold else msg1)"
  have v: "(if isOverThreshold m h then (HostStateUnhealthy, OverThreshold) else (s1, msg1)) = (verdict dial m h, msg)"
    using run_checkers_state [of dial h "hm_checkers m" "[]"] rc by (auto simp: verdict_def msg_def)
  show ?thesis
    by (rule exI [of _ "\<lparr>he_HostID = hi_ID h, he_EventType = ''state_change'', he_OldState = State h,
        he_NewState = verdict dial m h, he_Message = msg, he_Timestamp = t2, he_Details = det\<rparr>"])
      (simp add: checkHost_def rc v Let_def UpdateHostState_def assms chan_send_def)
qed

subsection \<open>A round of checks\<close>

text \<open>The goroutines of a round in the order in which they finish; \<open>None\<close> when one of them waits.\<close>

fun check_round ::
  "(string \<Rightarrow> string option) \<Rightarrow> time \<Rightarrow> HostInfo list \<Rightarrow> HealthMonitor \<times> HostRegistry \<Rightarrow>
    (HealthMonitor \<times> HostRegistry) option" where
  "check_round dial now [] s = Some s"
| "check_round dial now (h # hs) s =
     (case checkHost dial now now h s of (s', Ok _) \<Rightarrow> check_round dial now hs s' | _ \<Rightarrow> None)"

lemma verdict_eventChan [simp]: "verdict dial (m\<lparr>hm_eventChan := c\<rparr>) h = verdict dial m h"
  by (simp add: verdict_def isOverThreshold_def)

text \<open>What a round over \<open>hs\<close> leaves: the verdicts in the registry and the events of the changes.\<close>

definition round_post ::
  "(string \<Rightarrow> string option) \<Rightarrow> HealthMonitor \<Rightarrow> HostRegistry \<Rightarrow> HostInfo list \<Rightarrow> HealthMonitor \<Rightarrow>
    HostRegistry \<Rightarrow> bool" where
  "round_post dial m r hs m' r' \<longleftrightarrow>
     (\<forall>i. map_option State (host_at r' i) =
       (if i \<in> hi_ID ` set hs then map_option (verdict dial m) (host_at r i)
        else map_option State (host_at r i))) \<and>
     (\<exists>evs. ch_buf (hm_eventChan m') = ch_buf (hm_eventChan m) @ evs \<and>
       map (\<lambda>ev. (he_HostID ev, he_OldState ev, he_NewState ev)) evs =
         map (\<lambda>h. (hi_ID h, State h, verdict dial m h)) (filter (\<lambda>h. verdict dial m h \<noteq> State h) hs))"

lemma round_post_keep:
  assumes "round_post dial m r hs m' r'" and "host_at r (hi_ID h) = Some h"
    and "verdict dial m h = State h"
  shows "round_post dial m r (h # hs) m' r'"
proof -
  have "map_option State (host_at r' i) = (if i \<in> hi_ID ` set (h # hs)
      then map_option (verdict dial m) (host_at r i) else map_option State (host_at r i))" for i
    using assms by (cases "i = hi_ID h") (auto simp: round_post_def)
  with assms(1,3) show ?thesis by (simp add: round_post_def)
qed

lemma round_post_change:
  assumes "round_post dial (m\<lparr>hm_eventChan := (hm_eventChan m)\<lparr>ch_buf := ch_buf (hm_eventChan m) @ [ev]\<rparr>\<rparr>)
      (put_host (hi_ID h) (h\<lparr>State := verdict dial m h, LastCheck := now\<rparr>) r) hs m' r'"
      (is "round_post dial ?m ?r hs m' r'")
    and "host_at r (hi_ID h) = Some h" and "hi_ID h \<notin> hi_ID ` set hs" and "verdict dial m h \<noteq> State h"
    and "he_HostID ev = hi_ID h" "he_OldState ev = State h" "he_NewState ev = verdict dial m h"
  shows "round_post dial m r (h # hs) m' r'"
proof -
  have "map_option State (host_at r' i) = (if i \<in> hi_ID ` set (h # hs)
      then map_option (verdict dial m) (host_at r i) else map_option State (host_at r i))" for i
  proof -
    have "map_option State (host_at r' i) =
        (if i \<in> hi_ID ` set hs then map_option (verdict dial m) (host_at ?r i)
         else map_option State (host_at ?r i))"
      using assms(1) unfolding round_post_def verdict_eventChan by blast
    with assms(2,3) show ?thesis by (cases "i = hi_ID h") auto
  qed
  moreover from assms(1) obtain evs
    where "ch_buf (hm_eventChan m') = ch_buf (hm_eventChan m) @ ev # evs"
      and "map (\<lambda>ev. (he_HostID ev, he_OldState ev, he_NewState ev)) evs =
         map (\<lambda>h. (hi_ID h, State h, verdict dial m h)) (filter (\<lambda>h. verdict dial m h \<noteq> State h) hs)"
    by (auto simp: round_post_def)
  ultimately show ?thesis
    using assms(4-) unfolding round_post_def
    by (intro conjI allI exI [of _ "ev # evs"]) simp_all
qed

lemma check_round_general:
  assumes "distinct (map hi_ID hs)" and "\<forall>h\<in>set hs. host_at r (hi_ID h) = Some h"
    and "\<not> ch_closed (hm_eventChan m)"
    and "length (ch_buf (hm_eventChan m)) + length hs \<le> ch_cap (hm_eventChan m)"
  shows "\<exists>m' r'. check_round dial now hs (m, r) = Some (m', r') \<and> round_post dial m r hs m' r'"
  using assms
proof (induction hs arbitrary: m r)
  case Nil
  then show ?case by (simp add: round_post_def)
next
  case (Cons h hs)
  have h: "host_at r (hi_ID h) = Some h" using Cons.prems(2) by simp
  have d: "distinct (map hi_ID hs)" "hi_ID h \<notin> hi_ID ` set hs" using Cons.prems(1) by simp_all
  have room: "length (ch_buf (hm_eventChan m)) < ch_cap (hm_eventChan m)" using Cons.prems(4) by simp
  from checkHost_ok [OF h Cons.prems(3) room, of dial now now] obtain ev
    where ev: "he_HostID ev = hi_ID h" "he_OldState ev = State h" "he_NewState ev = verdict dial m h"
      and c: "checkHost dial now now h (m, r) =
      (if verdict dial m h = State h then ((m, r), Ok ())
       else ((m\<lparr>hm_eventChan := (hm_eventChan m)\<lparr>ch_buf := ch_buf (hm_eventChan m) @ [ev]\<rparr>\<rparr>,
              put_host (hi_ID h) (h\<lparr>State := verdict dial m h, LastCheck := now\<rparr>) r), Ok ()))"
    by blast
  show ?case
  proof (cases "verdict dial m h = State h")
    case True
    from Cons.IH [OF d(1) _ Cons.prems(3), of r] Cons.prems(2,4) obtain m' r'
      where "check_round dial now hs (m, r) = Some (m', r')" "round_post dial m r hs m' r'" by auto
    with True c round_post_keep [OF _ h True] show ?thesis by simp
  next
    case False
    let ?m = "m\<lparr>hm_eventChan := (hm_eventChan m)\<lparr>ch_buf := ch_buf (hm_eventChan m) @ [ev]\<rparr>\<rparr>"
    let ?r = "put_host (hi_ID h) (h\<lparr>State := verdict dial m h, LastCheck := now\<rparr>) r"
    have "hi_ID g \<noteq> hi_ID h" if "g \<in> set hs" for g using d(2) that by (metis image_eqI)
    with Cons.prems(2) have 1: "\<forall>g\<in>set hs. host_at ?r (hi_ID g) = Some g" by simp
    have 2: "\<not> ch_closed (hm_eventChan ?m)"
      "length (ch_buf (hm_eventChan ?m)) + length hs \<le> ch_cap (hm_eventChan ?m)"
      using Cons.prems(3,4) by simp_all
    from Cons.IH [OF d(1) 1 2] obtain m' r'
      where *: "check_round dial now hs (?m, ?r) = Some (m', r')" "round_post dial ?m ?r hs m' r'" by blast
    from round_post_change [OF *(2) h d(2) False ev] *(1) False c show ?thesis by simp
  qed
qed

lemma all_hosts_at: "reg_inv r \<Longrightarrow> h \<in> set (Registry_GetAllHosts r) \<Longrightarrow> host_at r (hi_ID h) = Some h"
  by (auto simp: Registry_GetAllHosts_def reg_inv_def split: prod.splits)

lemma all_hosts_ids: "reg_inv r \<Longrightarrow> map hi_ID (Registry_GetAllHosts r) = map fst (hosts r)"
  by (auto simp: Registry_GetAllHosts_def reg_inv_def)

lemma perm_hosts:
  assumes "reg_inv r" and "mset hs = mset (Registry_GetAllHosts r)"
  shows "distinct (map hi_ID hs) \<and> (\<forall>h\<in>set hs. host_at r (hi_ID h) = Some h) \<and>
    hi_ID ` set hs = dom (host_at r)"
proof -
  have "mset (map hi_ID hs) = mset (map fst (hosts r))"
    using assms by (metis all_hosts_ids mset_map)
  then have "distinct (map hi_ID hs)" "hi_ID ` set hs = dom (host_at r)"
    using assms(1) mset_eq_imp_distinct_iff [of "map hi_ID hs" "map fst (hosts r)"]
      mset_eq_setD [of "map hi_ID hs" "map fst (hosts r)"]
    by (auto simp: reg_inv_def dom_map_of_conv_image_fst)
  with all_hosts_at [OF assms(1)] mset_eq_setD [OF assms(2)] show ?thesis by auto
qed

text \<open>
  C21: a round of health checks is correct in every order of its goroutines. When the event channel
  has room for one event per host, no goroutine waits, every host ends in the state of its verdict
  (healthy exactly when all checkers pass and no load is over its threshold), and the events
  queued are those of the hosts whose state changed.
\<close>

theorem check_round_correct:
  assumes "reg_inv r" and "mset hs = mset (checkAllHosts r)" and "\<not> ch_closed (hm_eventChan m)"
    and "length (ch_buf (hm_eventChan m)) + length hs \<le> ch_cap (hm_eventChan m)"
  shows "\<exists>m' r' evs. check_round dial now hs (m, r) = Some (m', r') \<and>
    (\<forall>i. map_option State (host_at r' i) = map_option (verdict dial m) (host_at r i)) \<and>
    ch_buf (hm_eventChan m') = ch_buf (hm_eventChan m) @ evs \<and>
    map (\<lambda>ev. (he_HostID ev, he_OldState ev, he_NewState ev)) evs =
      map (\<lambda>h. (hi_ID h, State h, verdict dial m h)) (filter (\<lambda>h. verdict dial m h \<noteq> State h) hs)"
proof -
  note p = perm_hosts [OF assms(1) assms(2) [unfolded checkAllHosts_def]]
  have none: "i \<notin> hi_ID ` set hs \<Longrightarrow> host_at r i = None" for i using p by auto
  from check_round_general [OF _ _ assms(3,4), of r dial now] p obtain m' r'
    where 1: "check_round dial now hs (m, r) = Some (m', r')" and 2: "round_post dial m r hs m' r'"
    by blast
  have "map_option State (host_at r' i) = map_option (verdict dial m) (host_at r i)" for i
    using 2 none [of i] by (cases "i \<in> hi_ID ` set hs") (auto simp: round_post_def)
  with 1 2 show ?thesis unfolding round_post_def by blast
qed

definition demo_health_config :: HealthConfig where
  "demo_health_config = \<lparr>hc_CheckInterval = 10, hc_Timeout = 5, hc_MaxRetries = 3, EnableTCP = True,
     EnableHTTP = False, EnableCustom = False, TCPPorts = [9093], HTTPPaths = [], CustomChecks = [],
     AlertThresholds = Some [''cpu'' \<mapsto> 90]\<rparr>"

lemma demo_monitor_channel [simp]: "hm_eventChan (NewHealthMonitor c) = chan_make 100"
  by (simp add: NewHealthMonitor_def initCheckers_def Let_def)

definition demo_registry :: HostRegistry where
  "demo_registry = \<lparr>hosts = [(''a'', demo_host ''a''), (''b'', demo_host ''b'')],
     reg_config = demo_reg_config, reg_stopped = False\<rparr>"

lemma demo_inv: "reg_inv demo_registry"
  and demo_all: "checkAllHosts demo_registry = [demo_host ''a'', demo_host ''b'']"
  by (simp_all add: reg_inv_def checkAllHosts_def Registry_GetAllHosts_def demo_registry_def)

theorem check_round_correct_witness:
  "let r = demo_registry;
     m = NewHealthMonitor demo_health_config;
     hs = [demo_host ''b'', demo_host ''a''] in
   \<exists>m' r' evs. check_round (\<lambda>a. None) 7 hs (m, r) = Some (m', r') \<and>
    (\<forall>i. map_option State (host_at r' i) = map_option (verdict (\<lambda>a. None) m) (host_at r i)) \<and>
    ch_buf (hm_eventChan m') = ch_buf (hm_eventChan m) @ evs \<and>
    map (\<lambda>ev. (he_HostID ev, he_OldState ev, he_NewState ev)) evs =
      map (\<lambda>h. (hi_ID h, State h, verdict (\<lambda>a. None) m h))
        (filter (\<lambda>h. verdict (\<lambda>a. None) m h \<noteq> State h) hs)"
  unfolding Let_def
  by (rule check_round_correct [OF demo_inv]) (simp_all add: demo_all chan_make_def)

text \<open>
  The verdict does not look at the state that the host was in: one whose checkers pass
  becomes healthy although an operator has put it in maintenance.
\<close>

lemma maintenance_is_overridden:
  assumes "host_at r (hi_ID h) = Some h" and "State h = HostStateMaintenance" and "\<not> ch_closed (hm_eventChan m)"
    and "length (ch_buf (hm_eventChan m)) < ch_cap (hm_eventChan m)" and "verdict dial m h = HostStateHealthy"
  shows "map_option State (host_at (snd (fst (checkHost dial t1 t2 h (m, r)))) (hi_ID h)) = Some HostStateHealthy"
  using checkHost_ok [OF assms(1,3,4), of dial t1 t2] assms(2,5) by auto

subsection \<open>Subscribers\<close>

text \<open>A subscriber takes an event from its channel.\<close>

definition Health_receive :: "string \<Rightarrow> HealthMonitor \<Rightarrow> HealthMonitor" where
  "Health_receive i m = m\<lparr>hm_subscribers := receive_from i (hm_subscribers m)\<rparr>"

definition health_bus_inv :: "HealthMonitor \<Rightarrow> bool" where
  "health_bus_inv m \<longleftrightarrow> subs_inv 50 (hm_subscribers m)"

interpretation health_bus: event_bus health_bus_inv "\<lambda>m. map_of (hm_subscribers m)" 50
  Health_Subscribe Health_Unsubscribe Health_dispatchEvent Health_receive
proof unfold_locales
  fix m :: HealthMonitor and i :: string and e :: HealthEvent
  assume inv: "health_bus_inv m"
  then have s: "subs_inv 50 (hm_subscribers m)" by (simp add: health_bus_inv_def)
  show "health_bus_inv (Health_Subscribe i m) \<and>
      map_of (hm_subscribers (Health_Subscribe i m)) = (map_of (hm_subscribers m))(i \<mapsto> chan_make 50)"
    using subs_inv_put [OF s] by (simp add: health_bus_inv_def Health_Subscribe_def)
  show "\<exists>m'. Health_Unsubscribe i m = Ok m' \<and> health_bus_inv m' \<and>
      map_of (hm_subscribers m') = (map_of (hm_subscribers m))(i := None)"
    using s subs_inv_del [OF s, of i] subs_inv_open [OF s, of i]
    by (cases "map_of (hm_subscribers m) i") (auto simp: health_bus_inv_def Health_Unsubscribe_def)
  show "\<exists>m'. Health_dispatchEvent e m = Ok m' \<and> health_bus_inv m' \<and>
      (\<forall>i. map_option ch_buf (map_of (hm_subscribers m') i) =
        map_option (offer 50 e \<circ> ch_buf) (map_of (hm_subscribers m) i))"
    using dispatch_all_ok [OF s, of e, where 'x = host_error] by (auto simp: health_bus_inv_def Health_dispatchEvent_def)
  show "health_bus_inv (Health_receive i m) \<and>
      (\<forall>j. map_option ch_buf (map_of (hm_subscribers (Health_receive i m)) j) =
        map_option ((if j = i then tl else (\<lambda>l. l)) \<circ> ch_buf) (map_of (hm_subscribers m) j))"
    using receive_from_ok [OF s, of i] by (simp add: health_bus_inv_def Health_receive_def)
qed

lemma health_bus_New: "health_bus_inv (NewHealthMonitor c)"
  by (simp add: health_bus_inv_def subs_inv_def NewHealthMonitor_def initCheckers_def Let_def)

text \<open>
  Health events reach their subscribers. In any interleaving of subscriptions, cancellations,
  dispatches and receipts no operation panics or blocks, and a subscriber that stays subscribed
  and whose backlog is below its buffer's 50 places at every dispatch receives all events
  dispatched since its subscription, once each and in order.
\<close>

theorem health_subscriber_gets_all:
  assumes "keeps_up 50 i xs []"
  shows "\<exists>m' c. bus_run Health_Subscribe Health_Unsubscribe Health_dispatchEvent Health_receive
      (pre @ Subscribe i # xs) (NewHealthMonitor config) = Ok m' \<and>
    map_of (hm_subscribers m') i = Some c \<and> length (ch_buf c) \<le> 50 \<and>
    received 50 i xs (Some []) @ ch_buf c = dispatched xs"
  by (rule health_bus.subscriber_gets_all_after [OF health_bus_New assms])

definition demo_event :: HealthEvent where
  "demo_event = \<lparr>he_HostID = ''a'', he_EventType = ''state_change'', he_OldState = HostStateHealthy,
     he_NewState = HostStateUnhealthy, he_Message = OverThreshold, he_Timestamp = 3, he_Details = []\<rparr>"

theorem health_subscriber_gets_all_witness:
  "\<exists>m' c. bus_run Health_Subscribe Health_Unsubscribe Health_dispatchEvent Health_receive
      ([] @ Subscribe ''x'' # [Dispatch demo_event, Subscribe ''y'', Receive ''x'', Dispatch demo_event])
      (NewHealthMonitor demo_health_config) = Ok m' \<and>
    map_of (hm_subscribers m') ''x'' = Some c \<and> length (ch_buf c) \<le> 50 \<and>
    [demo_event] @ ch_buf c = [demo_event, demo_event]"
  using health_subscriber_gets_all [of "''x''" "[Dispatch demo_event, Subscribe ''y'', Receive ''x'', Dispatch demo_event]"
      "[]" demo_health_config]
  by (simp add: offer_def)

subsection \<open>Statistics\<close>

fun status_key :: "HostState \<Rightarrow> string" where
  "status_key HostStateHealthy = ''healthy''"
| "status_key HostStateUnhealthy = ''unhealthy''"
| "status_key HostStateOffline = ''offline''"
| "status_key HostStateMaintenance = ''maintenance''"
| "status_key HostStateUnknown = []"

lemma status_key_inj [simp]: "status_key s = status_key t \<longleftrightarrow> s = t"
  by (cases s; cases t) simp_all

lemma map_of_bump: "map_of (bump k st) k' = (if k = k' then map_option (\<lambda>n. n + 1) (map_of st k) else map_of st k')"
  by (cases "map_of st k") (auto simp: bump_def)

lemma count_status_step:
  "count_status (h # hs) st =
    count_status hs (if State h = HostStateUnknown then st else bump (status_key (State h)) st)"
  by (cases "State h") simp_all

lemma count_status_counts:
  assumes "map_of st (status_key s) = Some n" and "s \<noteq> HostStateUnknown"
  shows "map_of (count_status hs st) (status_key s) =
    Some (n + int (length (filter (\<lambda>h. State h = s) hs)))"
  using assms
proof (induction hs arbitrary: st n)
  case (Cons h hs)
  let ?st = "if State h = HostStateUnknown then st else bump (status_key (State h)) st"
  have "map_of ?st (status_key s) = Some (if State h = s then n + 1 else n)"
    using Cons.prems by (auto simp: map_of_bump)
  from Cons.IH [OF this Cons.prems(2)] show ?case
    by (simp only: count_status_step filter.simps) simp
qed simp

lemma count_status_total: "map_of (count_status hs st) ''total'' = map_of st ''total''"
proof (induction hs arbitrary: st)
  case (Cons h hs)
  have "status_key (State h) \<noteq> ''total''" by (cases "State h") simp_all
  then show ?case by (simp add: count_status_step Cons.IH map_of_bump del: count_status.simps(2))
qed simp

lemma GetHealthStatus_total: "map_of (GetHealthStatus r) ''total'' = Some (GetHostCount r)"
  by (simp add: GetHealthStatus_def count_status_total GetHostCount_def Registry_GetAllHosts_def)

lemma GetHealthStatus_state:
  "s \<noteq> HostStateUnknown \<Longrightarrow> map_of (GetHealthStatus r) (status_key s) = Some (GetHostCountByState s r)"
  unfolding GetHealthStatus_def Let_def
  by (subst count_status_counts [where n = 0])
    (cases s; simp add: GetHostCountByState_def count_state_filter Registry_GetAllHosts_def)+

end
