(* ===== verification/Big_Endian.thy ===== *)
theory Big_Endian
  imports Go_Prelude
begin

text \<open>
  Big-endian numbers: the value of a list of bytes and the bytes of a value, used for
  internet addresses and for the fields of the QUIC frames (\<^verbatim>\<open>binary.BigEndian\<close>).
\<close>

definition be_val :: "u8 list \<Rightarrow> nat" where
  "be_val ip = foldl (\<lambda>a b. 256 * a + unat b) 0 ip"

fun be_bytes :: "nat \<Rightarrow> nat \<Rightarrow> u8 list" where
  "be_bytes 0 v = []"
| "be_bytes (Suc k) v = be_bytes k (v div 256) @ [of_nat (v mod 256)]"

lemma foldl_val: "foldl (\<lambda>a b. 256 * a + unat (b :: u8)) x bs = x * 256 ^ length bs + foldl (\<lambda>a b. 256 * a + unat b) 0 bs"
proof (induction bs arbitrary: x)
  case (Cons b bs)
  show ?case using Cons [of "256 * x + unat b"] Cons [of "unat b"] by (simp add: algebra_simps)
qed simp

lemma be_val_simps [simp]:
  "be_val [] = 0" "be_val (b # bs) = unat b * 256 ^ length bs + be_val bs"
  "be_val (bs @ [b]) = 256 * be_val bs + unat b"
  by (simp_all add: be_val_def foldl_val [of "unat b"])

lemma u8_less [simp]: "unat (b :: u8) < 256"
  using unsigned_less [of b] by simp

lemma be_val_less: "be_val ip < 256 ^ length ip"
proof (induction ip rule: rev_induct)
  case (snoc b bs)
  have "256 * be_val bs + unat b < 256 * (be_val bs + 1)" using u8_less [of b] by simp
  also have "\<dots> \<le> 256 * 256 ^ length bs" using snoc by (intro mult_le_mono2) simp
  finally show ?case by simp
qed simp

lemma length_be_bytes [simp]: "length (be_bytes k v) = k"
  by (induction k arbitrary: v) auto

lemma be_bytes_val [simp]: "be_bytes (length ip) (be_val ip) = ip"
proof (induction ip rule: rev_induct)
  case (snoc b bs)
  have "(256 * be_val bs + unat b) div 256 = be_val bs" "(256 * be_val bs + unat b) mod 256 = unat b"
    using u8_less [of b] by simp_all
  with snoc show ?case by simp
qed simp

lemma be_val_of: "v < 256 ^ k \<Longrightarrow> be_val (be_bytes k v) = v"
proof (induction k arbitrary: v)
  case (Suc k)
  then have "v div 256 < 256 ^ k" by (simp add: less_mult_imp_div_less mult.commute)
  with Suc.IH show ?case by (simp add: unat_of_nat)
qed simp

end
