(* ===== verification/Cidr_Scan.thy ===== *)
theory Cidr_Scan
  imports Big_Endian
begin

unbundle bit_operations_syntax

text \<open>
  The walk over the addresses of a network that the discovery service performs
  (\<^verbatim>\<open>inc\<close> and the loop header of \<^verbatim>\<open>scanNetwork\<close> and \<^verbatim>\<open>performNetworkScan\<close> in
  \<^verbatim>\<open>broker/internal/host/discovery.go\<close>), with the part of package \<^verbatim>\<open>net\<close> it uses. An address is its
  list of bytes; the service works on the four bytes of IPv4.

  The loop ends exactly for networks with a prefix of at least one bit, and then visits every
  address of the network once, in ascending order (\<open>cidr_loop_visits\<close>, \<open>cidr_loop_diverges\<close>).
\<close>

subsection \<open>Addresses and masks\<close>

type_synonym ip = "u8 list"

text \<open>\<^verbatim>\<open>inc\<close> runs from the last byte; it stops at the first byte that does not wrap to zero.\<close>

fun inc_rev :: "ip \<Rightarrow> ip" where
  "inc_rev [] = []"
| "inc_rev (b # bs) = (if b + 1 > 0 then (b + 1) # bs else (b + 1) # inc_rev bs)"

definition inc :: "ip \<Rightarrow> ip" where
  "inc ip = rev (inc_rev (rev ip))"

text \<open>\<^verbatim>\<open>net.CIDRMask\<close> on a number of bytes, \<^verbatim>\<open>IP.Mask\<close>, \<^verbatim>\<open>IPNet.Contains\<close> and \<^verbatim>\<open>IP.String\<close>.\<close>

fun CIDRMask :: "nat \<Rightarrow> nat \<Rightarrow> u8 list" where
  "CIDRMask ones 0 = []"
| "CIDRMask ones (Suc k) =
     (if 8 \<le> ones then 255 # CIDRMask (ones - 8) k
      else (NOT (drop_bit ones 255)) # CIDRMask 0 k)"

definition ip_Mask :: "ip \<Rightarrow> u8 list \<Rightarrow> ip" where
  "ip_Mask ip m = map2 (AND) ip m"

definition net_Contains :: "ip \<Rightarrow> u8 list \<Rightarrow> ip \<Rightarrow> bool" where
  "net_Contains net m ip \<longleftrightarrow> ip_Mask net m = ip_Mask ip m"

definition ip_String :: "ip \<Rightarrow> string" where
  "ip_String ip = join_with CHR ''.'' (map (\<lambda>b. nat_digits (unat b)) ip)"

text \<open>\<^verbatim>\<open>for ip := ip.Mask(ipnet.Mask); ipnet.Contains(ip); inc(ip)\<close>; \<open>None\<close> when the loop does not end.\<close>

partial_function (option) cidr_walk ::
  "ip \<Rightarrow> u8 list \<Rightarrow> (ip \<Rightarrow> 'a \<Rightarrow> 'a) \<Rightarrow> ip \<Rightarrow> 'a \<Rightarrow> 'a option" where
  "cidr_walk net m body ip a =
     (if net_Contains net m ip then cidr_walk net m body (inc ip) (body ip a) else Some a)"

definition cidr_loop :: "ip \<Rightarrow> nat \<Rightarrow> (ip \<Rightarrow> 'a \<Rightarrow> 'a) \<Rightarrow> 'a \<Rightarrow> 'a option" where
  "cidr_loop ip ones body a =
     (let m = CIDRMask ones (length ip); net = ip_Mask ip m
      in cidr_walk net m body (ip_Mask ip m) a)"

subsection \<open>The next address\<close>

lemma length_inc [simp]: "length (inc ip) = length ip"
proof -
  have "length (inc_rev bs) = length bs" for bs by (induction bs rule: inc_rev.induct) auto
  then show ?thesis by (simp add: inc_def)
qed

text \<open>\<^verbatim>\<open>inc\<close> is addition of one modulo the size of the address space.\<close>

lemma u8_Suc: "unat ((b :: u8) + 1) = (if b + 1 = 0 then 0 else unat b + 1)"
proof -
  have s: "unat (b + 1) = (unat b + 1) mod 256" by (simp add: unat_word_ariths)
  show ?thesis
  proof (cases "unat b = 255")
    case True
    with s have "unat (b + 1) = 0" by simp
    then have "b + 1 = 0" by (simp add: word_unat_eq_iff)
    then show ?thesis by simp
  next
    case False
    with u8_less [of b] have "unat b + 1 < 256" by linarith
    with s have "unat (b + 1) = unat b + 1" by simp
    moreover from this have "b + 1 \<noteq> 0" by (auto simp: word_unat_eq_iff)
    ultimately show ?thesis by simp
  qed
qed

lemma inc_snoc: "inc (bs @ [b]) = (if b + 1 = 0 then inc bs @ [0] else bs @ [b + 1])"
  by (auto simp: inc_def word_gt_0)

lemma be_val_inc: "be_val (inc ip) = (be_val ip + 1) mod 256 ^ length ip"
proof (induction ip rule: rev_induct)
  case (snoc b bs)
  show ?case
  proof (cases "b + 1 = 0")
    case True
    then have "b = -1" by (metis add_diff_cancel diff_0)
    then have b: "unat b = 255" by (simp add: unsigned_minus_1_eq_mask mask_eq_exp_minus_1)
    have "256 * ((be_val bs + 1) mod 256 ^ length bs) = (256 * be_val bs + 256) mod (256 * 256 ^ length bs)"
      by (simp add: mult_mod_right algebra_simps)
    with True b snoc show ?thesis by (simp add: inc_snoc add.commute)
  next
    case False
    then have "unat b + 1 = unat (b + 1)" by (simp add: u8_Suc)
    moreover have "be_val (bs @ [b + 1]) < 256 ^ Suc (length bs)"
      using be_val_less [of "bs @ [b + 1]"] by simp
    ultimately show ?thesis using False by (simp add: inc_snoc)
  qed
qed (simp add: inc_def)

subsection \<open>Masking is rounding down\<close>

lemma and_not_mask: "(b :: u8) AND NOT (mask k) = push_bit k (drop_bit k b)"
  by (rule bit_eqI) (auto simp: bit_simps)

lemma u8_255: "(255 :: u8) = mask 8"
  by (simp add: mask_eq_exp_minus_1)

lemma and_255: "(b :: u8) AND 255 = b"
  unfolding u8_255 by (rule bit_eqI) (auto simp: bit_simps)

lemma mask_byte: "drop_bit n (255 :: u8) = mask (8 - n)"
  unfolding u8_255 by (rule bit_eqI) (auto simp: bit_simps)

lemma unat_mask_byte:
  "unat ((b :: u8) AND NOT (drop_bit n 255)) = unat b div 2 ^ (8 - n) * 2 ^ (8 - n)"
proof -
  have le: "unat b div 2 ^ (8 - n) * 2 ^ (8 - n) < 256"
    using u8_less [of b] by (rule le_less_trans [rotated]) simp
  have "unat (push_bit (8 - n) (drop_bit (8 - n) b)) =
      (unat b div 2 ^ (8 - n) * 2 ^ (8 - n)) mod 256"
    unfolding unsigned_push_bit_eq unsigned_drop_bit_eq
    by (simp add: take_bit_eq_mod push_bit_eq_mult drop_bit_eq_div)
  with le show ?thesis by (simp add: mask_byte and_not_mask)
qed

lemma ip_Mask_Cons [simp]: "ip_Mask (b # bs) (c # cs) = (b AND c) # ip_Mask bs cs"
  by (simp add: ip_Mask_def)

lemma length_CIDRMask [simp]: "length (CIDRMask n k) = k"
  by (induction n k rule: CIDRMask.induct) auto

lemma length_ip_Mask [simp]: "length (ip_Mask ip m) = min (length ip) (length m)"
  by (simp add: ip_Mask_def)

lemma be_val_Mask:
  "length ip = k \<Longrightarrow> ones \<le> 8 * k \<Longrightarrow>
    be_val (ip_Mask ip (CIDRMask ones k)) = be_val ip div 2 ^ (8 * k - ones) * 2 ^ (8 * k - ones)"
proof (induction ones k arbitrary: ip rule: CIDRMask.induct)
  case (1 ones)
  then show ?case by (simp add: ip_Mask_def)
next
  case (2 ones j)
  then obtain b bs where ip: "ip = b # bs" "length bs = j" by (auto simp: length_Suc_conv)
  have pow: "(256 :: nat) ^ j = 2 ^ (8 * j)" by (simp add: power_mult)
  show ?case
  proof (cases "8 \<le> ones")
    case True
    let ?m = "8 * j - (ones - 8)"
    have m: "8 * Suc j - ones = ?m" "?m + (8 * j - ?m) = 8 * j" using True 2 by simp_all
    have c: "256 ^ j = 2 ^ (8 * j - ?m) * (2 :: nat) ^ ?m"
      unfolding pow by (subst m(2) [symmetric]) (simp only: power_add mult.commute)
    have "(unat b * 256 ^ j + be_val bs) div 2 ^ ?m * 2 ^ ?m =
        unat b * 256 ^ j + be_val bs div 2 ^ ?m * 2 ^ ?m"
      unfolding c mult.assoc [symmetric] by (simp add: distrib_right)
    moreover have "be_val (ip_Mask bs (CIDRMask (ones - 8) j)) = be_val bs div 2 ^ ?m * 2 ^ ?m"
      using 2(1) [OF True ip(2)] 2(4) True by simp
    ultimately show ?thesis using ip True unfolding m(1) by (simp add: and_255 del: diff_diff_right)
  next
    case False
    have v: "be_val bs < 256 ^ j" using be_val_less [of bs] ip by simp
    have "be_val (ip_Mask bs (CIDRMask 0 j)) = 0"
      using 2(2) [OF False ip(2)] v unfolding pow by simp
    moreover obtain n where n: "8 * Suc j - ones = 8 * j + n"
        "unat (b AND NOT (drop_bit ones 255)) = unat b div 2 ^ n * 2 ^ n"
      using False unat_mask_byte [of b ones] that [of "8 - ones"] by simp
    moreover have "(unat b * 256 ^ j + be_val bs) div 2 ^ (8 * j + n) = unat b div 2 ^ n"
      using v unfolding power_add pow [symmetric] by (simp add: div_mult2_eq)
    ultimately show ?thesis
      using False ip unfolding n(1) by (simp add: power_add pow)
  qed
qed

lemma ip_eq_iff: "length ip = length jp \<Longrightarrow> ip = jp \<longleftrightarrow> be_val ip = be_val jp"
  by (metis be_bytes_val)

lemma net_Contains_div:
  assumes "length ip = k" and "length jp = k" and "ones \<le> 8 * k"
  shows "net_Contains (ip_Mask ip (CIDRMask ones k)) (CIDRMask ones k) jp \<longleftrightarrow>
    be_val jp div 2 ^ (8 * k - ones) = be_val ip div 2 ^ (8 * k - ones)"
proof -
  let ?M = "CIDRMask ones k"
  have "net_Contains (ip_Mask ip ?M) ?M jp \<longleftrightarrow> be_val (ip_Mask (ip_Mask ip ?M) ?M) = be_val (ip_Mask jp ?M)"
    unfolding net_Contains_def using assms by (intro ip_eq_iff) simp
  with assms show ?thesis by (auto simp: be_val_Mask)
qed

subsection \<open>The walk\<close>

lemma inc_be_bytes: "v < 256 ^ k \<Longrightarrow> inc (be_bytes k v) = be_bytes k ((v + 1) mod 256 ^ k)"
  using be_bytes_val [of "inc (be_bytes k v)"] by (simp add: be_val_inc be_val_of)

text \<open>The addresses of the network of \<open>ip\<close> with a prefix of \<open>ones\<close> bits, in ascending order.\<close>

definition net_addresses :: "ip \<Rightarrow> nat \<Rightarrow> ip list" where
  "net_addresses ip ones =
     (let size = 2 ^ (8 * length ip - ones)
      in map (\<lambda>j. be_bytes (length ip) (be_val ip div size * size + j)) [0..<size])"

lemma walk_from:
  fixes q m k :: nat
  assumes inside: "\<And>v. v < 256 ^ k \<Longrightarrow> net_Contains net M (be_bytes k v) \<longleftrightarrow> v div 2 ^ m = q"
    and q: "q < 2 ^ (8 * k - m)" and m: "m < 8 * k"
  shows "i < 2 ^ m \<Longrightarrow> cidr_walk net M body (be_bytes k (q * 2 ^ m + i)) a =
    Some (fold body (map (\<lambda>j. be_bytes k (q * 2 ^ m + j)) [i..<2 ^ m]) a)"
proof (induction "2 ^ m - i" arbitrary: i a)
  case (Suc d)
  have size: "256 ^ k = 2 ^ m * (2 :: nat) ^ (8 * k - m)"
  proof -
    have "256 ^ k = (2 :: nat) ^ (m + (8 * k - m))" using m by (simp add: power_mult)
    then show ?thesis by (simp only: power_add)
  qed
  have top: "(q + 1) * 2 ^ m \<le> 256 ^ k" using q unfolding size by (subst mult.commute) (intro mult_le_mono2; simp)
  let ?v = "q * 2 ^ m + i"
  have v: "?v < 256 ^ k" "?v div 2 ^ m = q" using Suc.prems top by simp_all
  have step: "cidr_walk net M body (be_bytes k ?v) a =
      cidr_walk net M body (be_bytes k ((?v + 1) mod 256 ^ k)) (body (be_bytes k ?v) a)"
    using v inside [OF v(1)] by (subst cidr_walk.simps) (simp add: inc_be_bytes)
  have upt: "[i..<2 ^ m] = i # [Suc i..<2 ^ m]" using Suc.prems by (rule upt_conv_Cons)
  show ?case
  proof (cases "Suc i < 2 ^ m")
    case True
    with top have "(?v + 1) mod 256 ^ k = q * 2 ^ m + Suc i" by simp
    with Suc.hyps(1) [of "Suc i" "body (be_bytes k ?v) a"] Suc.hyps(2) True step upt show ?thesis by simp
  next
    case False
    with Suc.prems have e: "?v + 1 = (q + 1) * 2 ^ m" by simp
    have "\<not> net_Contains net M (be_bytes k ((?v + 1) mod 256 ^ k))"
    proof (cases "(q + 1) * 2 ^ m = 256 ^ k")
      case True
      have "2 ^ m * (q + 1) = 2 ^ m * 2 ^ (8 * k - m)" using True unfolding size by (simp only: mult.commute)
      then have "q + 1 = 2 ^ (8 * k - m)" by (simp only: mult_cancel_left) simp
      moreover have "(2 :: nat) ^ 1 \<le> 2 ^ (8 * k - m)" using m by (intro power_increasing) auto
      ultimately show ?thesis using inside [of 0] e True by simp
    next
      case False
      with top have "(q + 1) * 2 ^ m < 256 ^ k" by linarith
      with inside [of "(q + 1) * 2 ^ m"] e show ?thesis by (simp del: mult_Suc)
    qed
    then have "cidr_walk net M body (be_bytes k ((?v + 1) mod 256 ^ k)) (body (be_bytes k ?v) a) =
        Some (body (be_bytes k ?v) a)"
      by (subst cidr_walk.simps) simp
    with False upt step show ?thesis by simp
  qed
qed simp

lemma net_number_less:
  assumes "ones \<le> 8 * length ip"
  shows "256 ^ length ip = (2 :: nat) ^ ones * 2 ^ (8 * length ip - ones)"
    and "be_val ip div 2 ^ (8 * length ip - ones) < 2 ^ ones"
proof -
  have "(256 :: nat) ^ length ip = 2 ^ (ones + (8 * length ip - ones))" using assms by (simp add: power_mult)
  then show size: "256 ^ length ip = (2 :: nat) ^ ones * 2 ^ (8 * length ip - ones)" by (simp only: power_add)
  show "be_val ip div 2 ^ (8 * length ip - ones) < 2 ^ ones"
    using be_val_less [of ip] unfolding size by (rule less_mult_imp_div_less)
qed

text \<open>For a prefix of at least one bit the loop ends, and it has run its body on every address once.\<close>

lemma cidr_loop_visits:
  assumes "0 < ones" and "ones \<le> 8 * length ip"
  shows "cidr_loop ip ones body a = Some (fold body (net_addresses ip ones) a)"
proof -
  let ?k = "length ip" let ?m = "8 * length ip - ones" let ?M = "CIDRMask ones (length ip)"
  let ?q = "be_val ip div 2 ^ ?m"
  have q: "?q < 2 ^ (8 * ?k - ?m)" using net_number_less(2) [OF assms(2)] assms(2) by simp
  have "ip_Mask ip ?M = be_bytes ?k (?q * 2 ^ ?m + 0)"
    using be_bytes_val [of "ip_Mask ip ?M"] by (simp add: be_val_Mask assms(2))
  moreover have "net_Contains (ip_Mask ip ?M) ?M (be_bytes ?k v) \<longleftrightarrow> v div 2 ^ ?m = ?q" if "v < 256 ^ ?k" for v
    using net_Contains_div [OF refl _ assms(2), of "be_bytes ?k v"] be_val_of [OF that] by simp
  ultimately show ?thesis
    using walk_from [of ?k "ip_Mask ip ?M" ?M ?m ?q 0 body a] q assms
    by (simp add: cidr_loop_def net_addresses_def Let_def)
qed

text \<open>For the empty prefix every address is in the network, also after the wrap-around: the loop never ends.\<close>

lemma walk_forever:
  assumes "cidr_walk net M body ip a = Some r" and "\<And>jp. length jp = length ip \<Longrightarrow> net_Contains net M jp"
  shows False
proof -
  have "(\<forall>jp. length jp = length ip \<longrightarrow> net_Contains net M jp) \<longrightarrow> False"
    if "cidr_walk net M body ip a = Some r" for net M ip and body :: "ip \<Rightarrow> 'a \<Rightarrow> 'a" and a r
    using that
    by (rule cidr_walk.raw_induct [rotated]) (metis length_inc option.distinct(1))
  with assms show False by blast
qed

lemma cidr_loop_diverges: "cidr_loop ip 0 body a = None"
proof (rule ccontr)
  assume "cidr_loop ip 0 body a \<noteq> None"
  then obtain r where "cidr_walk (ip_Mask ip (CIDRMask 0 (length ip))) (CIDRMask 0 (length ip)) body
      (ip_Mask ip (CIDRMask 0 (length ip))) a = Some r"
    by (auto simp: cidr_loop_def Let_def)
  then show False
  proof (rule walk_forever)
    fix jp :: ip
    assume len: "length jp = length (ip_Mask ip (CIDRMask 0 (length ip)))"
    have "be_val x div 2 ^ (8 * length ip) = 0" if "length x = length ip" for x
      using be_val_less [of x] that by (simp add: power_mult)
    with net_Contains_div [of ip "length ip" jp 0] len
    show "net_Contains (ip_Mask ip (CIDRMask 0 (length ip))) (CIDRMask 0 (length ip)) jp" by simp
  qed
qed

lemma net_address_less:
  assumes "ones \<le> 8 * length ip" and "j < 2 ^ (8 * length ip - ones)"
  shows "be_val ip div 2 ^ (8 * length ip - ones) * 2 ^ (8 * length ip - ones) + j < 256 ^ length ip"
proof -
  have "(be_val ip div 2 ^ (8 * length ip - ones) + 1) * 2 ^ (8 * length ip - ones) \<le> 256 ^ length ip"
    using net_number_less [OF assms(1)] by (simp only:) (intro mult_le_mono1; simp)
  with assms(2) show ?thesis by simp
qed

lemma length_net_addresses: "length (net_addresses ip ones) = 2 ^ (8 * length ip - ones)"
  by (simp add: net_addresses_def Let_def)

lemma net_addresses_distinct:
  assumes "ones \<le> 8 * length ip"
  shows "distinct (net_addresses ip ones)"
proof -
  let ?s = "(2 :: nat) ^ (8 * length ip - ones)"
  have "be_val (be_bytes (length ip) (be_val ip div ?s * ?s + j)) = be_val ip div ?s * ?s + j" if "j < ?s" for j
    using net_address_less [OF assms that] by (rule be_val_of)
  then show ?thesis
    unfolding net_addresses_def Let_def distinct_map by (auto intro!: inj_onI) (metis add_left_cancel)
qed

end
