(* ===== verification/Host_Discovery.thy ===== *)
theory Host_Discovery
  imports Host_Registry Cidr_Scan
begin

text \<open>
  The broker's discovery service, \<^verbatim>\<open>broker/internal/host/discovery.go\<close>: periodic and requested
  scans of networks, multicast and configuration-file discovery, and the HTTP handlers that
  change the registry.

  Arguments of the model stand for what is outside the program: \<open>parse\<close> is the textual part of
  \<^verbatim>\<open>net.ParseCIDR\<close> (four address bytes and the length of the prefix), \<open>dial\<close> connects to an
  address within a time limit (\<open>Some\<close> is the error), \<open>lookup\<close> is \<^verbatim>\<open>net.LookupAddr\<close>. A request of a
  handler is the decoded body, \<open>None\<close> when it does not decode. A scan reads the clock once.
  The result of a scan is \<open>None\<close> when its loop does not end.
\<close>

subsection \<open>Data\<close>

record DiscoveryConfig =
  ListenPort :: int
  ScanInterval :: duration
  ScanTimeout :: duration
  dc_EnableMulticast :: bool
  dc_EnableHTTP :: bool
  dc_EnableFileWatch :: bool
  NetworkRanges :: "string list"
  DiscoveryTypes :: "string list"
  ServicePortRange :: string

record DiscoveryService =
  ds_config :: DiscoveryConfig
  ds_server :: bool
  activeScans :: "(string, time) gomap"
  serviceTypes :: "(string, bool) gomap"

record HostDiscoveryRequest =
  rq_NetworkRange :: string
  rq_PortRange :: string
  rq_Timeout :: int
  rq_Tags :: "string list"

datatype scan_message = ScanPending | BadRange | ScanDone nat

record HostDiscoveryResponse =
  rs_Success :: bool
  rs_Discovered :: "HostInfo list"
  rs_Failed :: "string list"
  rs_TotalScanned :: int
  rs_Message :: scan_message

definition NewDiscoveryService :: "DiscoveryConfig \<Rightarrow> DiscoveryService" where
  "NewDiscoveryService config = \<lparr>ds_config = config, ds_server = False, activeScans = [], serviceTypes = []\<rparr>"

text \<open>\<^verbatim>\<open>Start\<close> fills the service types and starts goroutines.\<close>

datatype discovery_task = HTTPServerTask | PeriodicScanTask | MulticastTask | FileWatchTask

definition Discovery_Start :: "DiscoveryService \<Rightarrow> DiscoveryService \<times> discovery_task list" where
  "Discovery_Start s =
     (s\<lparr>serviceTypes := gm_put ''tcp'' True (gm_put ''grpc'' True (gm_put ''http'' True (serviceTypes s)))\<rparr>,
      (if dc_EnableHTTP (ds_config s) then [HTTPServerTask] else []) @ [PeriodicScanTask] @
      (if dc_EnableMulticast (ds_config s) then [MulticastTask] else []) @
      (if dc_EnableFileWatch (ds_config s) then [FileWatchTask] else []))"

definition Discovery_Stop :: "'e option \<Rightarrow> DiscoveryService \<Rightarrow> 'e option" where
  "Discovery_Stop shutdown s = (if ds_server s then shutdown else None)"

subsection \<open>Scanning\<close>

type_synonym dialer = "string \<Rightarrow> duration \<Rightarrow> string option"

definition second :: duration where
  "second = 1000000000"

definition commonPorts :: "int list" where
  "commonPorts = [22, 80, 443, 9093, 9095, 6379, 3306, 5432]"

fun scan_ports :: "dialer \<Rightarrow> duration \<Rightarrow> string \<Rightarrow> int list \<Rightarrow> bool" where
  "scan_ports dial scanTimeout ip [] = False"
| "scan_ports dial scanTimeout ip (port # ports) =
     (let address = ip @ '':'' @ itoa port; timeout = mul64 scanTimeout second
      in case dial address timeout of None \<Rightarrow> True | Some err \<Rightarrow> scan_ports dial scanTimeout ip ports)"

definition scanHost :: "dialer \<Rightarrow> DiscoveryService \<Rightarrow> string \<Rightarrow> bool" where
  "scanHost dial s ip = scan_ports dial (ScanTimeout (ds_config s)) ip commonPorts"

text \<open>\<open>late\<close> tells whether the timer fires before the scan of the address answers.\<close>

definition scanHostWithTimeout ::
  "dialer \<Rightarrow> (string \<Rightarrow> duration \<Rightarrow> bool) \<Rightarrow> DiscoveryService \<Rightarrow> string \<Rightarrow> duration \<Rightarrow> bool" where
  "scanHostWithTimeout dial late s ip timeout = (if late ip timeout then False else scanHost dial s ip)"

definition trim_dot :: "string \<Rightarrow> string" where
  "trim_dot n = (if n \<noteq> [] \<and> last n = CHR ''.'' then butlast n else n)"

definition resolveHostname :: "(string \<Rightarrow> string list option) \<Rightarrow> string \<Rightarrow> string" where
  "resolveHostname lookup ip =
     (case lookup ip of None \<Rightarrow> ip | Some [] \<Rightarrow> ip | Some (name # _) \<Rightarrow> trim_dot name)"

definition host_id_of :: "string \<Rightarrow> string" where
  "host_id_of ip = ''host-'' @ map (\<lambda>c. if c = CHR ''.'' then CHR ''-'' else c) ip"

definition createHostInfo :: "(string \<Rightarrow> string list option) \<Rightarrow> time \<Rightarrow> string \<Rightarrow> HostInfo" where
  "createHostInfo lookup now ip =
     \<lparr>hi_ID = host_id_of ip, Hostname = resolveHostname lookup ip, IPAddress = ip, Port = 9093,
      State = HostStateHealthy,
      Capacity = \<lparr>cap_CPU = 4, cap_MemoryMB = 8192, cap_DiskGB = 100, cap_NetworkMB = 1000\<rparr>,
      LastHeartbeat = now, LastCheck = now, Metadata = [], Tags = [''discovered''],
      Load = \<lparr>CPUUsage = 0, MemoryUsage = 0, DiskUsage = 0, NetworkUsage = 0, Connections = 0\<rparr>\<rparr>"

definition register_all :: "time \<Rightarrow> HostInfo list \<Rightarrow> HostRegistry \<Rightarrow> HostRegistry" where
  "register_all now hs r = fold (\<lambda>h r. snd (RegisterHost now h r)) hs r"

definition scan_step ::
  "dialer \<Rightarrow> (string \<Rightarrow> string list option) \<Rightarrow> time \<Rightarrow> DiscoveryService \<Rightarrow> ip \<Rightarrow>
    HostInfo list \<times> string list \<Rightarrow> HostInfo list \<times> string list" where
  "scan_step dial lookup now s ip = (\<lambda>(discovered, failed).
     (let ipStr = ip_String ip
      in if scanHost dial s ipStr then (discovered @ [createHostInfo lookup now ipStr], failed)
         else (discovered, failed @ [ipStr])))"

definition scanNetwork ::
  "(string \<Rightarrow> (ip \<times> nat) option) \<Rightarrow> dialer \<Rightarrow> (string \<Rightarrow> string list option) \<Rightarrow> time \<Rightarrow> string \<Rightarrow>
    DiscoveryService \<times> HostRegistry \<Rightarrow> (DiscoveryService \<times> HostRegistry) option" where
  "scanNetwork parse dial lookup now networkRange = (\<lambda>(s, r).
     (if map_of (activeScans s) networkRange \<noteq> None then Some (s, r)
      else
        (let s1 = s\<lparr>activeScans := gm_put networkRange now (activeScans s)\<rparr>;
             done = s1\<lparr>activeScans := gm_del networkRange (activeScans s1)\<rparr>
         in case parse networkRange of
              None \<Rightarrow> Some (done, r)
            | Some (ip, ones) \<Rightarrow>
                map_option (\<lambda>(discovered, failed). (done, register_all now discovered r))
                  (cidr_loop ip ones (scan_step dial lookup now s1) ([], [])))))"

text \<open>\<^verbatim>\<open>scanNetworks\<close> starts one goroutine per configured range.\<close>

definition scanNetworks :: "DiscoveryService \<Rightarrow> string list" where
  "scanNetworks s = NetworkRanges (ds_config s)"

definition periodicScan :: "loop_event \<Rightarrow> DiscoveryService \<Rightarrow> string list option" where
  "periodicScan ev s = (case ev of Tick \<Rightarrow> Some (scanNetworks s) | _ \<Rightarrow> None)"

definition perform_step ::
  "dialer \<Rightarrow> (string \<Rightarrow> duration \<Rightarrow> bool) \<Rightarrow> (string \<Rightarrow> string list option) \<Rightarrow> time \<Rightarrow> DiscoveryService \<Rightarrow>
    duration \<Rightarrow> string list \<Rightarrow> ip \<Rightarrow> HostDiscoveryResponse \<times> HostRegistry \<Rightarrow>
    HostDiscoveryResponse \<times> HostRegistry" where
  "perform_step dial late lookup now s timeout tags ip = (\<lambda>(response, r).
     (let ipStr = ip_String ip;
          response1 = response\<lparr>rs_TotalScanned := rs_TotalScanned response + 1\<rparr>
      in if scanHostWithTimeout dial late s ipStr timeout then
           (let hostInfo = createHostInfo lookup now ipStr;
                hostInfo' = hostInfo\<lparr>Tags := Tags hostInfo @ tags\<rparr>;
                (stored, r') = RegisterHost now hostInfo' r
            in (response1\<lparr>rs_Discovered := rs_Discovered response1 @ [stored]\<rparr>, r'))
         else (response1\<lparr>rs_Failed := rs_Failed response1 @ [ipStr]\<rparr>, r)))"

definition performNetworkScan ::
  "(string \<Rightarrow> (ip \<times> nat) option) \<Rightarrow> dialer \<Rightarrow> (string \<Rightarrow> duration \<Rightarrow> bool) \<Rightarrow> (string \<Rightarrow> string list option) \<Rightarrow>
    time \<Rightarrow> HostDiscoveryRequest \<Rightarrow> DiscoveryService \<Rightarrow> HostRegistry \<Rightarrow>
    (HostDiscoveryResponse \<times> HostRegistry) option" where
  "performNetworkScan parse dial late lookup now request s r =
     (let response = \<lparr>rs_Success = False, rs_Discovered = [], rs_Failed = [], rs_TotalScanned = 0,
            rs_Message = ScanPending\<rparr>
      in case parse (rq_NetworkRange request) of
           None \<Rightarrow> Some (response\<lparr>rs_Message := BadRange\<rparr>, r)
         | Some (ip, ones) \<Rightarrow>
             (let timeout0 = mul64 (rq_Timeout request) second;
                  timeout = (if timeout0 = 0 then ScanTimeout (ds_config s) else timeout0)
              in map_option (\<lambda>(response, r). (response\<lparr>rs_Success := True,
                     rs_Message := ScanDone (length (rs_Discovered response))\<rparr>, r))
                   (cidr_loop ip ones (perform_step dial late lookup now s timeout (rq_Tags request)) (response, r))))"

subsection \<open>Multicast and configuration file\<close>

definition handleDiscoveryMessage ::
  "(string \<Rightarrow> string list option) \<Rightarrow> time \<Rightarrow> string \<Rightarrow> HostRegistry \<Rightarrow> HostRegistry" where
  "handleDiscoveryMessage lookup now ip r =
     (let hostInfo = createHostInfo lookup now ip;
          hostInfo' = hostInfo\<lparr>Tags := Tags hostInfo @ [''multicast-discovered'']\<rparr>
      in snd (RegisterHost now hostInfo' r))"

text \<open>One packet in the loop of \<^verbatim>\<open>multicastDiscovery\<close>; \<open>None\<close> is a read error.\<close>

definition multicast_packet ::
  "(string \<Rightarrow> string list option) \<Rightarrow> time \<Rightarrow> (string \<times> string) option \<Rightarrow> HostRegistry \<Rightarrow> HostRegistry" where
  "multicast_packet lookup now packet r =
     (case packet of
        None \<Rightarrow> r
      | Some (src, message) \<Rightarrow>
          if sublist ''monitor-discovery'' message then handleDiscoveryMessage lookup now src r else r)"

text \<open>\<open>file\<close> is the list in the configuration file, \<open>None\<close> when it is missing or does not decode.\<close>

definition checkConfigFile ::
  "(string \<Rightarrow> string list option) \<Rightarrow> time \<Rightarrow> string list option \<Rightarrow> HostRegistry \<Rightarrow> HostRegistry" where
  "checkConfigFile lookup now file r =
     (case file of
        None \<Rightarrow> r
      | Some hs \<Rightarrow>
          fold (\<lambda>host r.
            (let hostInfo = createHostInfo lookup now host;
                 hostInfo' = hostInfo\<lparr>Tags := Tags hostInfo @ [''config-discovered'']\<rparr>
             in snd (RegisterHost now hostInfo' r))) hs r)"

subsection \<open>Handlers\<close>

datatype 'a reply = BadRequest | InternalServerError host_error | Reply 'a

definition handleRegister :: "time \<Rightarrow> HostInfo option \<Rightarrow> HostRegistry \<Rightarrow> unit reply \<times> HostRegistry" where
  "handleRegister now body r =
     (case body of None \<Rightarrow> (BadRequest, r) | Some hostInfo \<Rightarrow> (Reply (), snd (RegisterHost now hostInfo r)))"

definition handleUnregister :: "string option \<Rightarrow> HostRegistry \<Rightarrow> unit reply \<times> HostRegistry" where
  "handleUnregister body r =
     (case body of
        None \<Rightarrow> (BadRequest, r)
      | Some hostID \<Rightarrow>
          (case UnregisterHost hostID r of
             Ok r' \<Rightarrow> (Reply (), r')
           | Err e \<Rightarrow> (InternalServerError e, r)
           | _ \<Rightarrow> (BadRequest, r)))"

definition handleHeartbeat ::
  "time \<Rightarrow> time \<Rightarrow> (string \<times> HostLoad) option \<Rightarrow> HostRegistry \<Rightarrow> unit reply \<times> HostRegistry" where
  "handleHeartbeat now1 now2 body r =
     (case body of
        None \<Rightarrow> (BadRequest, r)
      | Some (hostID, load) \<Rightarrow>
          (case UpdateHeartbeat now1 hostID r of
             Ok r1 \<Rightarrow>
               (case UpdateHostLoad now2 hostID load r1 of
                  Ok r2 \<Rightarrow> (Reply (), r2)
                | Err e \<Rightarrow> (InternalServerError e, r1)
                | _ \<Rightarrow> (BadRequest, r1))
           | Err e \<Rightarrow> (InternalServerError e, r)
           | _ \<Rightarrow> (BadRequest, r)))"

definition handleScan ::
  "(string \<Rightarrow> (ip \<times> nat) option) \<Rightarrow> dialer \<Rightarrow> (string \<Rightarrow> duration \<Rightarrow> bool) \<Rightarrow> (string \<Rightarrow> string list option) \<Rightarrow>
    time \<Rightarrow> HostDiscoveryRequest option \<Rightarrow> DiscoveryService \<Rightarrow> HostRegistry \<Rightarrow>
    (HostDiscoveryResponse reply \<times> HostRegistry) option" where
  "handleScan parse dial late lookup now body s r =
     (case body of
        None \<Rightarrow> Some (BadRequest, r)
      | Some request \<Rightarrow>
          map_option (\<lambda>(response, r'). (Reply response, r'))
            (performNetworkScan parse dial late lookup now request s r))"

definition handleGetHosts :: "HostRegistry \<Rightarrow> HostInfo list reply" where
  "handleGetHosts r = Reply (Registry_GetAllHosts r)"

definition handleGetStats :: "HostRegistry \<Rightarrow> (string, int) gomap reply" where
  "handleGetStats r =
     Reply [(''total_hosts'', GetHostCount r),
       (''healthy_hosts'', GetHostCountByState HostStateHealthy r),
       (''unhealthy_hosts'', GetHostCountByState HostStateUnhealthy r),
       (''offline_hosts'', GetHostCountByState HostStateOffline r),
       (''maintenance_hosts'', GetHostCountByState HostStateMaintenance r)]"

subsection \<open>Host ids of addresses\<close>

lemma dot_free: "CHR ''.'' \<notin> set (nat_digits n)" and dash_free: "CHR ''-'' \<notin> set (nat_digits n)"
  using nat_digits_chars [of "CHR ''.''" n] nat_digits_chars [of "CHR ''-''" n] by auto

lemma host_id_of_ip: "host_id_of (ip_String ip) = ''host-'' @ join_with CHR ''-'' (map (\<lambda>b. nat_digits (unat b)) ip)"
proof -
  have "map (\<lambda>c. if c = CHR ''.'' then CHR ''-'' else c) (nat_digits n) = nat_digits n" for n
    using dot_free [of n] by (intro map_idI) auto
  then show ?thesis by (simp add: host_id_of_def ip_String_def map_join_with comp_def)
qed

lemma host_id_inj:
  assumes "host_id_of (ip_String a) = host_id_of (ip_String b)" and "length a = length b"
  shows "a = b"
proof -
  have "map (\<lambda>b. nat_digits (unat b)) a = map (\<lambda>b. nat_digits (unat b)) b"
    using assms by (intro join_with_inject [of "CHR ''-''"]) (auto simp: host_id_of_ip dash_free)
  moreover have "inj (\<lambda>b :: u8. nat_digits (unat b))"
    by (rule injI) (simp add: word_unat_eq_iff nat_digits_inj)
  ultimately show ?thesis by (rule map_injective)
qed

subsection \<open>What a scan does\<close>

text \<open>The addresses of a network on which some common port answers.\<close>

definition answering :: "dialer \<Rightarrow> DiscoveryService \<Rightarrow> ip \<Rightarrow> nat \<Rightarrow> ip list" where
  "answering dial s ip ones = filter (\<lambda>a. scanHost dial s (ip_String a)) (net_addresses ip ones)"

lemma scanHost_ports:
  "scanHost dial s ip \<longleftrightarrow>
    (\<exists>p\<in>set commonPorts. dial (ip @ '':'' @ itoa p) (mul64 (ScanTimeout (ds_config s)) second) = None)"
proof -
  have "scan_ports dial t ip ps \<longleftrightarrow> (\<exists>p\<in>set ps. dial (ip @ '':'' @ itoa p) (mul64 t second) = None)" for t ps
    by (induction dial t ip ps rule: scan_ports.induct) (auto simp: Let_def split: option.splits)
  then show ?thesis by (simp add: scanHost_def)
qed

lemma scanHost_active [simp]: "scanHost dial (s\<lparr>activeScans := x\<rparr>) = scanHost dial s"
  by (simp add: scanHost_def fun_eq_iff)

lemma scan_fold:
  "fold (scan_step dial lookup now s) as (d, f) =
    (d @ map (\<lambda>a. createHostInfo lookup now (ip_String a)) (filter (\<lambda>a. scanHost dial s (ip_String a)) as),
     f @ map ip_String (filter (\<lambda>a. \<not> scanHost dial s (ip_String a)) as))"
  by (induction as arbitrary: d f) (auto simp: scan_step_def Let_def)

lemma register_all_fold: "register_all now hs r = fold (\<lambda>(t, h) r. snd (RegisterHost t h r)) (map (Pair now) hs) r"
  by (simp add: register_all_def fold_map comp_def)

lemma register_all_dom:
  "reg_inv r \<Longrightarrow> reg_inv (register_all now hs r) \<and>
    dom (host_at (register_all now hs r)) = dom (host_at r) \<union> hi_ID ` set hs"
  using reg_store.reg_all_inv [of r "map (Pair now) hs"] reg_store.reg_all_dom [of r "map (Pair now) hs"]
  by (simp add: register_all_fold image_image)

lemma register_all_count:
  "reg_inv r \<Longrightarrow> distinct (map hi_ID hs) \<Longrightarrow> dom (host_at r) \<inter> hi_ID ` set hs = {} \<Longrightarrow>
    GetHostCount (register_all now hs r) = GetHostCount r + int (length hs)"
  using reg_store.reg_all_count [of r "map (Pair now) hs"]
  by (simp add: register_all_fold image_image comp_def)

lemma createHostInfo_ID [simp]: "hi_ID (createHostInfo lookup now ip) = host_id_of ip"
  by (simp add: createHostInfo_def)

lemma scanNetwork_idle:
  assumes "map_of (activeScans s) cidr = None" and "parse cidr = Some (ip, ones)"
    and "0 < ones" and "ones \<le> 8 * length ip"
  shows "\<exists>s'. scanNetwork parse dial lookup now cidr (s, r) =
      Some (s', register_all now (map (\<lambda>a. createHostInfo lookup now (ip_String a)) (answering dial s ip ones)) r) \<and>
    map_of (activeScans s') = map_of (activeScans s)"
  using assms by (auto simp: scanNetwork_def Let_def cidr_loop_visits scan_fold answering_def)


definition demo_discovery :: DiscoveryService where
  "demo_discovery = NewDiscoveryService \<lparr>ListenPort = 8080, ScanInterval = 60 * second, ScanTimeout = 3,
     dc_EnableMulticast = False, dc_EnableHTTP = False, dc_EnableFileWatch = False,
     NetworkRanges = [''192.168.1.0/30''], DiscoveryTypes = [], ServicePortRange = []\<rparr>"


text \<open>
  C23: a scan ends exactly when it does not have to visit the whole address space. A scan, periodic
  or requested, of a range that parses runs forever if and only if its prefix is empty:
  for \<^verbatim>\<open>0.0.0.0/0\<close> the address wraps around to 0.0.0.0 and the loop starts over.
\<close>

theorem scan_ends_iff:
  assumes "parse cidr = Some (ip, ones)" and "ones \<le> 8 * length ip"
    and "map_of (activeScans s) cidr = None" and "rq_NetworkRange request = cidr"
  shows "(scanNetwork parse dial lookup now cidr (s, r) = None \<longleftrightarrow> ones = 0) \<and>
    (performNetworkScan parse dial late lookup now request s r = None \<longleftrightarrow> ones = 0)"
proof (cases "ones = 0")
  case True
  with assms show ?thesis by (simp add: scanNetwork_def performNetworkScan_def Let_def cidr_loop_diverges)
next
  case False
  with assms show ?thesis by (simp add: scanNetwork_def performNetworkScan_def Let_def cidr_loop_visits)
qed

definition demo_request :: "string \<Rightarrow> HostDiscoveryRequest" where
  "demo_request cidr = \<lparr>rq_NetworkRange = cidr, rq_PortRange = ''9093'', rq_Timeout = 10, rq_Tags = []\<rparr>"

theorem scan_ends_iff_witness:
  "performNetworkScan (\<lambda>t. Some ([0, 0, 0, 0], 0)) (\<lambda>a t. None) (\<lambda>a t. False) (\<lambda>_. None) 5
      (demo_request ''0.0.0.0/0'') demo_discovery (NewHostRegistry demo_reg_config) = None"
  using scan_ends_iff [of "\<lambda>t. Some ([0, 0, 0, 0], 0)" "''0.0.0.0/0''" "[0, 0, 0, 0]" 0 demo_discovery
      "demo_request ''0.0.0.0/0''" "\<lambda>a t. None" "\<lambda>_. None" 5 "NewHostRegistry demo_reg_config" "\<lambda>a t. False"]
  by (simp add: demo_discovery_def NewDiscoveryService_def demo_request_def)

text \<open>
  With the default configuration a scan finds nothing. \<^verbatim>\<open>scanHost\<close> multiplies \<^verbatim>\<open>ScanTimeout\<close>,
  a duration already, by a second once more; for the default of ten seconds the
  64-bit product is negative, so that, as connecting with a limit in the past fails, every
  address is reported as not answering.
\<close>

theorem default_scan_finds_nothing:
  assumes "\<And>address timeout. timeout < 0 \<Longrightarrow> dial address timeout \<noteq> None"
    and "ScanTimeout (ds_config s) = 10 * second"
  shows "\<not> scanHost dial s ip"
proof -
  have "mul64 (10 * second) second < 0" by (simp add: mul64_def second_def)
  with assms show ?thesis by (auto simp: scanHost_ports)
qed

theorem default_scan_finds_nothing_witness:
  "\<not> scanHost (\<lambda>a t. if 0 < t then None else Some ''i/o timeout'')
      (demo_discovery\<lparr>ds_config := (ds_config demo_discovery)\<lparr>ScanTimeout := 10 * second\<rparr>\<rparr>) ''192.168.1.7''"
  by (rule default_scan_finds_nothing) simp_all

text \<open>A heartbeat that is acknowledged leaves the host alive: stamped, not offline, with the reported load.\<close>

lemma heartbeat_revives:
  assumes "fst (handleHeartbeat now1 now2 (Some (i, l)) r) = Reply ()"
  shows "\<exists>h. host_at (snd (handleHeartbeat now1 now2 (Some (i, l)) r)) i = Some h \<and>
    State h \<noteq> HostStateOffline \<and> LastHeartbeat h = now1 \<and> Load h = l"
  using assms by (cases "host_at r i")
    (auto simp: handleHeartbeat_def UpdateHeartbeat_def UpdateHostLoad_def Let_def)

end
