(* ===== verification/Host_Manager.thy ===== *)
theory Host_Manager
  imports Health_Monitor Host_Discovery
begin

text \<open>
  The broker's host manager, \<^verbatim>\<open>broker/internal/host/manager.go\<close>: the owner of the registry, the
  discovery service and the health monitor, with manual operations on hosts, automatic removal
  and scaling, and events for subscribers.

  An operation maps the manager to the manager afterwards and an outcome, so that a state that
  was changed before an error, a panic or a wait is kept. Events hold the host record at the time of
  the event. Times are nanoseconds since the Unix epoch; one operation reads the clock once.
  Weekday and \<^verbatim>\<open>15:04\<close> text of the current time are arguments (\<open>day\<close>, \<open>clock\<close>).

  The results: scaling actions respect the cool-down (\<open>scaling_respects_cooldown\<close>) and the
  configured bounds (\<open>load_decision_bounds\<close>), scaling down leaves exactly the target number of
  healthy hosts (\<open>scale_down_leaves_target\<close>), subscribers receive the dispatched events
  (\<open>manager_subscriber_gets_all\<close>) until a maintenance round drops them
  (\<open>cleanup_drops_pending\<close>).
\<close>

named_theorems mgr_simps \<open>definitions of the manager's operations\<close>

subsection \<open>Configuration and data\<close>

record ResourceWeights =
  w_CPU :: real
  w_Memory :: real
  w_Disk :: real
  w_Network :: real
  w_Custom :: real

record TimeBasedRule =
  tr_Name :: string
  tr_StartTime :: string
  tr_EndTime :: string
  tr_DaysOfWeek :: "int list"
  tr_MinHosts :: int
  tr_MaxHosts :: int
  tr_Action :: string
  tr_Description :: string

record ScalingConfig =
  EnableHorizontalScale :: bool
  EnableVerticalScale :: bool
  ScaleUpThreshold :: real
  ScaleDownThreshold :: real
  CooldownPeriod :: duration
  ScaleStep :: int
  MaxScaleUpPerCycle :: int
  MaxScaleDownPerCycle :: int
  PredictionWindow :: duration
  EnablePrediction :: bool
  ScaleStrategy :: string
  sc_ResourceWeights :: ResourceWeights
  TimeBasedRules :: "TimeBasedRule list"
  sc_MinHosts :: int
  sc_MaxHosts :: int

record LoadBalancerConfig =
  lb_Strategy :: string
  lb_EnableHealthCheck :: bool
  lb_SessionPersistence :: bool
  lb_WeightAlgorithm :: string

record CostConfig =
  EnableCostOptimization :: bool
  CostPerHostHour :: real
  BudgetLimit :: real
  BillingCycle :: duration
  CostThreshold :: real

record ManagerConfig =
  mc_RegistryConfig :: RegistryConfig
  mc_DiscoveryConfig :: DiscoveryConfig
  mc_HealthConfig :: HealthConfig
  AutoRemove :: bool
  RemoveTimeout :: duration
  mc_MaxHosts :: int
  mc_MinHosts :: int
  EnableScaling :: bool
  mc_ScalingConfig :: "ScalingConfig option"
  mc_LoadBalancer :: "LoadBalancerConfig option"
  mc_CostConfig :: "CostConfig option"

record ResourceMetrics =
  rm_CPUUsage :: real
  rm_MemoryUsage :: real
  rm_DiskUsage :: real
  rm_NetworkUsage :: real
  rm_ActiveConnections :: int
  rm_RequestRate :: real
  rm_ResponseTime :: real
  rm_ErrorRate :: real

record ResourceSnapshot =
  snap_Timestamp :: time
  snap_Metrics :: ResourceMetrics
  snap_HostID :: string

record ScalingDecision =
  sd_Action :: string
  sd_Reason :: string
  sd_TargetCount :: int
  sd_Priority :: int

record ScaleEvent =
  se_Action :: string
  se_Reason :: string
  se_TargetCount :: int
  se_Timestamp :: time
  se_Success :: bool
  se_Error :: "host_error option"

record ManagerEvent =
  me_Type :: string
  me_HostID :: string
  me_HostInfo :: "HostInfo option"
  me_Timestamp :: time
  me_Details :: "(string, gval) gomap"

record LoadPredictor =
  lp_window :: duration
  lp_history :: "real list"
  lp_maxHistory :: nat

record HostManager =
  registry :: HostRegistry
  discovery :: DiscoveryService
  health :: HealthMonitor
  config :: ManagerConfig
  mg_stopped :: bool
  eventChan :: "ManagerEvent chan"
  subscribers :: "(string, ManagerEvent chan) gomap"
  scalingPolicy :: "ScalingConfig option"
  loadBalancer :: "LoadBalancerConfig option"
  costAnalyzer :: "CostConfig option"
  metricsCollector :: "ResourceMetrics option"
  predictor :: "LoadPredictor option"
  lastScaleAction :: time
  scaleHistory :: "ScaleEvent list"
  resourceHistory :: "ResourceSnapshot list"

text \<open>The zero \<^verbatim>\<open>time.Time\<close> is the first of January of the year 1; \<^verbatim>\<open>time.Since\<close> does not exceed the largest duration.\<close>

definition zero_time :: time where
  "zero_time = - 62135596800 * 1000000000"

definition since :: "time \<Rightarrow> time \<Rightarrow> duration" where
  "since now t = min (2 ^ 63 - 1) (now - t)"

definition NewMetricsCollector :: ResourceMetrics where
  "NewMetricsCollector = \<lparr>rm_CPUUsage = 0, rm_MemoryUsage = 0, rm_DiskUsage = 0, rm_NetworkUsage = 0,
     rm_ActiveConnections = 0, rm_RequestRate = 0, rm_ResponseTime = 0, rm_ErrorRate = 0\<rparr>"

definition NewLoadPredictor :: "duration \<Rightarrow> LoadPredictor" where
  "NewLoadPredictor window = \<lparr>lp_window = window, lp_history = [], lp_maxHistory = 100\<rparr>"

definition NewCostAnalyzer :: "CostConfig \<Rightarrow> CostConfig" where
  "NewCostAnalyzer c = c"

definition NewScalingPolicy :: "ScalingConfig \<Rightarrow> ScalingConfig" where
  "NewScalingPolicy c = c"

definition NewLoadBalancer :: "LoadBalancerConfig \<Rightarrow> LoadBalancerConfig" where
  "NewLoadBalancer c = c"

definition NewHostManager :: "ManagerConfig \<Rightarrow> HostManager" where
  "NewHostManager c =
     (let scaling = (if EnableScaling c then mc_ScalingConfig c else None)
      in \<lparr>registry = NewHostRegistry (mc_RegistryConfig c), discovery = NewDiscoveryService (mc_DiscoveryConfig c),
          health = NewHealthMonitor (mc_HealthConfig c), config = c, mg_stopped = False,
          eventChan = chan_make 100, subscribers = [],
          scalingPolicy = map_option NewScalingPolicy scaling,
          loadBalancer = map_option NewLoadBalancer (mc_LoadBalancer c),
          costAnalyzer = map_option NewCostAnalyzer (mc_CostConfig c),
          metricsCollector = map_option (\<lambda>_. NewMetricsCollector) scaling,
          predictor = map_option (\<lambda>s. NewLoadPredictor (PredictionWindow s)) scaling,
          lastScaleAction = zero_time, scaleHistory = [], resourceHistory = []\<rparr>)"

subsection \<open>Operations as state and outcome\<close>

type_synonym 'a act = "HostManager \<Rightarrow> HostManager \<times> (host_error, 'a) outcome"

definition act_bind :: "'a act \<Rightarrow> ('a \<Rightarrow> 'b act) \<Rightarrow> 'b act" where
  "act_bind a f m =
     (case a m of
        (m', Ok x) \<Rightarrow> f x m'
      | (m', Err e) \<Rightarrow> (m', Err e)
      | (m', Panic) \<Rightarrow> (m', Panic)
      | (m', Blocks) \<Rightarrow> (m', Blocks))"

definition lift_reg :: "(HostRegistry \<Rightarrow> (host_error, HostRegistry) outcome) \<Rightarrow> unit act" where
  "lift_reg f m =
     (case f (registry m) of
        Ok r \<Rightarrow> (m\<lparr>registry := r\<rparr>, Ok ())
      | Err e \<Rightarrow> (m, Err e) | Panic \<Rightarrow> (m, Panic) | Blocks \<Rightarrow> (m, Blocks))"

text \<open>\<^verbatim>\<open>m.eventChan <- event\<close>\<close>

definition send_event :: "ManagerEvent \<Rightarrow> unit act" where
  "send_event ev m =
     (case chan_send ev (eventChan m) of
        Ok ch \<Rightarrow> (m\<lparr>eventChan := ch\<rparr>, Ok ())
      | Err e \<Rightarrow> (m, Err e) | Panic \<Rightarrow> (m, Panic) | Blocks \<Rightarrow> (m, Blocks))"

subsection \<open>Manual operations\<close>

definition removeHost :: "time \<Rightarrow> string \<Rightarrow> string \<Rightarrow> unit act" where
  "removeHost now hostID reason m =
     (case Registry_GetHost hostID (registry m) of
        Ok host \<Rightarrow>
          act_bind (lift_reg (UnregisterHost hostID)) (\<lambda>_.
            send_event \<lparr>me_Type = ''host_removed'', me_HostID = hostID, me_HostInfo = Some host,
              me_Timestamp = now, me_Details = [(''reason'', GStr reason)]\<rparr>) m
      | Err e \<Rightarrow> (m, Err e) | Panic \<Rightarrow> (m, Panic) | Blocks \<Rightarrow> (m, Blocks))"

definition ForceRemoveHost :: "time \<Rightarrow> string \<Rightarrow> string \<Rightarrow> unit act" where
  "ForceRemoveHost now hostID reason = removeHost now hostID reason"

definition AddHost :: "time \<Rightarrow> HostInfo \<Rightarrow> unit act" where
  "AddHost now host m =
     (if mc_MaxHosts (config m) > 0 \<and> GetHostCount (registry m) \<ge> mc_MaxHosts (config m)
      then (m, Err (HostLimit (mc_MaxHosts (config m))))
      else
        (let (host', r) = RegisterHost now host (registry m)
         in send_event \<lparr>me_Type = ''host_added'', me_HostID = hi_ID host', me_HostInfo = Some host',
              me_Timestamp = now, me_Details = [(''method'', GStr ''manual'')]\<rparr> (m\<lparr>registry := r\<rparr>)))"

text \<open>
  The updates of \<^verbatim>\<open>UpdateHost\<close> in the order of the code; a value of another type panics and leaves
  the fields that were set before.
\<close>

definition upd_field :: "string \<Rightarrow> (gval \<Rightarrow> HostInfo \<Rightarrow> HostInfo option) \<Rightarrow> (string, gval) gomap \<Rightarrow>
    HostInfo \<times> bool \<Rightarrow> HostInfo \<times> bool" where
  "upd_field k f updates = (\<lambda>(host, ok).
     if \<not> ok then (host, ok)
     else (case map_of updates k of
        None \<Rightarrow> (host, True)
      | Some v \<Rightarrow> (case f v host of None \<Rightarrow> (host, False) | Some host' \<Rightarrow> (host', True))))"

fun set_hostname :: "gval \<Rightarrow> HostInfo \<Rightarrow> HostInfo option" where
  "set_hostname (GStr v) host = Some (host\<lparr>Hostname := v\<rparr>)"
| "set_hostname _ host = None"

fun set_ip :: "gval \<Rightarrow> HostInfo \<Rightarrow> HostInfo option" where
  "set_ip (GStr v) host = Some (host\<lparr>IPAddress := v\<rparr>)"
| "set_ip _ host = None"

fun set_port :: "gval \<Rightarrow> HostInfo \<Rightarrow> HostInfo option" where
  "set_port (GInt v) host = Some (host\<lparr>Port := v\<rparr>)"
| "set_port _ host = None"

fun set_state :: "gval \<Rightarrow> HostInfo \<Rightarrow> HostInfo option" where
  "set_state (GState v) host = Some (host\<lparr>State := v\<rparr>)"
| "set_state _ host = None"

fun set_tags :: "gval \<Rightarrow> HostInfo \<Rightarrow> HostInfo option" where
  "set_tags (GStrs v) host = Some (host\<lparr>Tags := v\<rparr>)"
| "set_tags _ host = None"

fun set_metadata :: "gval \<Rightarrow> HostInfo \<Rightarrow> HostInfo option" where
  "set_metadata (GMap v) host = Some (host\<lparr>Metadata := v\<rparr>)"
| "set_metadata _ host = None"

definition apply_updates :: "(string, gval) gomap \<Rightarrow> HostInfo \<Rightarrow> HostInfo \<times> bool" where
  "apply_updates updates host =
     upd_field ''metadata'' set_metadata updates
      (upd_field ''tags'' set_tags updates
        (upd_field ''state'' set_state updates
          (upd_field ''port'' set_port updates
            (upd_field ''ip_address'' set_ip updates
              (upd_field ''hostname'' set_hostname updates (host, True))))))"

definition UpdateHost :: "time \<Rightarrow> string \<Rightarrow> (string, gval) gomap \<Rightarrow> unit act" where
  "UpdateHost now hostID updates m =
     (case Registry_GetHost hostID (registry m) of
        Ok host \<Rightarrow>
          (let (host', ok) = apply_updates updates host;
               m' = m\<lparr>registry := put_host hostID host' (registry m)\<rparr>
           in if \<not> ok then (m', Panic)
              else send_event \<lparr>me_Type = ''host_updated'', me_HostID = hostID, me_HostInfo = Some host',
                     me_Timestamp = now, me_Details = updates\<rparr> m')
      | Err e \<Rightarrow> (m, Err e) | Panic \<Rightarrow> (m, Panic) | Blocks \<Rightarrow> (m, Blocks))"

definition SetHostMaintenance :: "time \<Rightarrow> string \<Rightarrow> bool \<Rightarrow> unit act" where
  "SetHostMaintenance now hostID maintenance =
     (let state = (if maintenance then HostStateMaintenance else HostStateHealthy)
      in act_bind (lift_reg (UpdateHostState now hostID state)) (\<lambda>_.
           send_event \<lparr>me_Type = ''maintenance_changed'', me_HostID = hostID, me_HostInfo = None,
             me_Timestamp = now, me_Details = [(''maintenance'', GBool maintenance)]\<rparr>))"

definition Manager_GetHost :: "string \<Rightarrow> HostManager \<Rightarrow> (host_error, HostInfo) outcome" where
  "Manager_GetHost hostID m = Registry_GetHost hostID (registry m)"

definition Manager_GetAllHosts :: "HostManager \<Rightarrow> HostInfo list" where
  "Manager_GetAllHosts m = Registry_GetAllHosts (registry m)"

definition Manager_GetHealthyHosts :: "HostManager \<Rightarrow> HostInfo list" where
  "Manager_GetHealthyHosts m = Registry_GetHealthyHosts (registry m)"

subsection \<open>Metrics, prediction and cost\<close>

definition UpdateMetrics :: "ResourceMetrics \<Rightarrow> ResourceMetrics \<Rightarrow> ResourceMetrics" where
  "UpdateMetrics metrics mc = metrics"

definition GetResourceMetrics :: "ResourceMetrics \<Rightarrow> ResourceMetrics" where
  "GetResourceMetrics mc = mc"

fun sum_history :: "real list \<Rightarrow> real \<Rightarrow> int \<Rightarrow> real \<times> int" where
  "sum_history [] acc cnt = (acc, cnt)"
| "sum_history (v # vs) acc cnt = sum_history vs (acc + v) (cnt + 1)"

definition PredictLoad :: "LoadPredictor \<Rightarrow> real" where
  "PredictLoad lp =
     (if lp_history lp = [] then 0
      else (let (acc, cnt) = sum_history (lp_history lp) 0 0 in acc / of_int cnt))"

definition AddHistory :: "real \<Rightarrow> LoadPredictor \<Rightarrow> LoadPredictor" where
  "AddHistory load lp =
     (let h = lp_history lp @ [load]
      in lp\<lparr>lp_history := (if length h > lp_maxHistory lp then tl h else h)\<rparr>)"

definition no_decision :: ScalingDecision where
  "no_decision = \<lparr>sd_Action = ''none'', sd_Reason = [], sd_TargetCount = 0, sd_Priority = 0\<rparr>"

definition OptimizeCost :: "CostConfig \<Rightarrow> int \<Rightarrow> ScalingDecision" where
  "OptimizeCost c hostCount =
     (if \<not> EnableCostOptimization c then no_decision
      else if of_int hostCount * CostPerHostHour c > BudgetLimit c then
        \<lparr>sd_Action = ''scale_down'', sd_Reason = ''cost_optimization'', sd_TargetCount = hostCount - 1, sd_Priority = 5\<rparr>
      else no_decision)"

definition calculateLoadScore ::
  "HostManager \<Rightarrow> ResourceMetrics \<Rightarrow> int \<Rightarrow> (host_error, real) outcome" where
  "calculateLoadScore m metrics healthyCount =
     (if healthyCount = 0 then Ok 100
      else (case mc_ScalingConfig (config m) of
        None \<Rightarrow> Panic
      | Some sc \<Rightarrow>
          (let weights = sc_ResourceWeights sc;
               cpuScore = rm_CPUUsage metrics / 100 * w_CPU weights;
               memoryScore = rm_MemoryUsage metrics / 100 * w_Memory weights;
               diskScore = rm_DiskUsage metrics / 100 * w_Disk weights;
               networkScore = rm_NetworkUsage metrics / 100 * w_Network weights;
               densityScore = of_int (rm_ActiveConnections metrics) / of_int (healthyCount * 1000);
               totalScore = cpuScore + memoryScore + diskScore + networkScore + densityScore * w_Custom weights
           in Ok (if totalScore > 100 then 100 else totalScore))))"

subsection \<open>Scaling decisions\<close>

definition go_min :: "int \<Rightarrow> int \<Rightarrow> int" where
  "go_min a b = (if a < b then a else b)"

definition go_max :: "int \<Rightarrow> int \<Rightarrow> int" where
  "go_max a b = (if a > b then a else b)"

definition getRuleTargetCount :: "HostManager \<Rightarrow> TimeBasedRule \<Rightarrow> int" where
  "getRuleTargetCount m rule =
     (let currentCount = GetHostCount (registry m)
      in if tr_Action rule = ''scale_up'' \<and> currentCount < tr_MaxHosts rule
         then go_min (currentCount + 1) (tr_MaxHosts rule)
         else if tr_Action rule = ''scale_down'' \<and> currentCount > tr_MinHosts rule
         then go_max (currentCount - 1) (tr_MinHosts rule)
         else currentCount)"

definition matchesTimeRule :: "TimeBasedRule \<Rightarrow> int \<Rightarrow> string \<Rightarrow> bool" where
  "matchesTimeRule rule currentDay currentTime =
     (if \<not> list_ex (\<lambda>day. day = currentDay) (tr_DaysOfWeek rule) then False
      else currentTime \<ge> tr_StartTime rule \<and> currentTime \<le> tr_EndTime rule)"

fun first_rule :: "HostManager \<Rightarrow> int \<Rightarrow> string \<Rightarrow> TimeBasedRule list \<Rightarrow> ScalingDecision" where
  "first_rule m day clock [] = no_decision"
| "first_rule m day clock (rule # rules) =
     (if matchesTimeRule rule day clock then
        \<lparr>sd_Action = tr_Action rule, sd_Reason = ''time_based_rule:'' @ tr_Name rule,
         sd_TargetCount = getRuleTargetCount m rule, sd_Priority = 10\<rparr>
      else first_rule m day clock rules)"

definition checkTimeBasedRules :: "HostManager \<Rightarrow> int \<Rightarrow> string \<Rightarrow> ScalingDecision" where
  "checkTimeBasedRules m day clock =
     (case mc_ScalingConfig (config m) of
        None \<Rightarrow> no_decision
      | Some sc \<Rightarrow> first_rule m day clock (TimeBasedRules sc))"

text \<open>The part of \<^verbatim>\<open>makeScalingDecision\<close> that looks at the load: scale-down overrides scale-up.\<close>

definition load_decision :: "ScalingConfig \<Rightarrow> real \<Rightarrow> int \<Rightarrow> int \<Rightarrow> ScalingDecision" where
  "load_decision sc currentLoad hostCount healthyCount =
     (let d1 = (if currentLoad > ScaleUpThreshold sc \<and> hostCount < sc_MaxHosts sc
                then no_decision\<lparr>sd_Action := ''scale_up'', sd_Reason := ''high_load'',
                       sd_TargetCount := go_min (hostCount + ScaleStep sc) (sc_MaxHosts sc)\<rparr>
                else no_decision)
      in if currentLoad < ScaleDownThreshold sc \<and> hostCount > sc_MinHosts sc \<and> healthyCount > sc_MinHosts sc
         then d1\<lparr>sd_Action := ''scale_down'', sd_Reason := ''low_load'',
                sd_TargetCount := go_max (hostCount - ScaleStep sc) (sc_MinHosts sc)\<rparr>
         else d1)"

definition makeScalingDecision ::
  "time \<Rightarrow> int \<Rightarrow> string \<Rightarrow> HostManager \<Rightarrow> real \<Rightarrow> real \<Rightarrow> int \<Rightarrow> int \<Rightarrow> (host_error, ScalingDecision) outcome" where
  "makeScalingDecision now day clock m loadScore predictedLoad hostCount healthyCount =
     (case mc_ScalingConfig (config m) of
        None \<Rightarrow> Panic
      | Some sc \<Rightarrow>
          if since now (lastScaleAction m) < CooldownPeriod sc then Ok no_decision
          else
            (let timeBasedDecision = checkTimeBasedRules m day clock
             in if sd_Action timeBasedDecision \<noteq> ''none'' then Ok timeBasedDecision
                else
                  (let decision = load_decision sc (max loadScore predictedLoad) hostCount healthyCount
                   in if ScaleStrategy sc = ''cost_optimized''
                      then (case costAnalyzer m of
                          None \<Rightarrow> Ok decision
                        | Some ca \<Rightarrow>
                            (let costDecision = OptimizeCost ca hostCount
                             in if sd_Action costDecision \<noteq> ''none'' then Ok costDecision else Ok decision))
                      else Ok decision)))"

subsection \<open>Scaling actions\<close>

definition scaled_host :: "time \<Rightarrow> int \<Rightarrow> HostInfo" where
  "scaled_host now i =
     \<lparr>hi_ID = ''host-'' @ itoa (now div 1000000000) @ ''-'' @ itoa i, Hostname = ''broker-'' @ itoa i,
      IPAddress = ''192.168.1.'' @ itoa (100 + i), Port = 9093, State = HostStateHealthy,
      Capacity = \<lparr>cap_CPU = 4, cap_MemoryMB = 8192, cap_DiskGB = 100, cap_NetworkMB = 1000\<rparr>,
      LastHeartbeat = now, LastCheck = now, Metadata = [], Tags = [''auto_scaled''],
      Load = \<lparr>CPUUsage = 0, MemoryUsage = 0, DiskUsage = 0, NetworkUsage = 0, Connections = 0\<rparr>\<rparr>"

definition performScaleUp :: "time \<Rightarrow> int \<Rightarrow> unit act" where
  "performScaleUp now targetCount m =
     (let currentCount = GetHostCount (registry m)
      in if currentCount \<ge> targetCount then (m, Err (AtTarget currentCount targetCount))
         else (m\<lparr>registry := register_all now (map (scaled_host now) [currentCount..targetCount - 1]) (registry m)\<rparr>,
               Ok ()))"

text \<open>The removal loop for the indices \<open>is\<close>; a negative index panics.\<close>

fun remove_loop :: "time \<Rightarrow> HostInfo list \<Rightarrow> int list \<Rightarrow> unit act" where
  "remove_loop now healthy [] m = (m, Ok ())"
| "remove_loop now healthy (i # is) m =
     (if i < int (length healthy) then
        (if i < 0 then (m, Panic)
         else (case removeHost now (hi_ID (healthy ! nat i)) ''scale_down'' m of
             (m', Ok _) \<Rightarrow> remove_loop now healthy is m'
           | (m', Err e) \<Rightarrow> (m', Err (RemoveFailed (hi_ID (healthy ! nat i)) e))
           | (m', Panic) \<Rightarrow> (m', Panic)
           | (m', Blocks) \<Rightarrow> (m', Blocks)))
      else remove_loop now healthy is m)"

definition performScaleDown :: "time \<Rightarrow> int \<Rightarrow> unit act" where
  "performScaleDown now targetCount m =
     (let currentCount = GetHostCount (registry m);
          healthyHosts = Registry_GetHealthyHosts (registry m)
      in if currentCount \<le> targetCount then (m, Err (AtTarget currentCount targetCount))
         else if int (length healthyHosts) \<le> targetCount
         then (m, Err (FewHealthy (int (length healthyHosts)) targetCount))
         else remove_loop now (sort_key hi_ID healthyHosts) [targetCount..currentCount - 1] m)"

definition executeScaling :: "time \<Rightarrow> ScalingDecision \<Rightarrow> unit act" where
  "executeScaling now decision m =
     (if sd_Action decision = ''none'' then (m, Ok ())
      else
        (let (m1, res) =
               (if sd_Action decision = ''scale_up'' then performScaleUp now (sd_TargetCount decision) m
                else if sd_Action decision = ''scale_down'' then performScaleDown now (sd_TargetCount decision) m
                else (m, Ok ()));
             finish = (\<lambda>err.
               (let event = \<lparr>se_Action = sd_Action decision, se_Reason = sd_Reason decision,
                      se_TargetCount = sd_TargetCount decision, se_Timestamp = now,
                      se_Success = (err = None), se_Error = err\<rparr>;
                    m2 = m1\<lparr>scaleHistory := scaleHistory m1 @ [event], lastScaleAction := now\<rparr>
                in send_event \<lparr>me_Type = ''scaling_event'', me_HostID = [], me_HostInfo = None, me_Timestamp = now,
                     me_Details = [(''action'', GStr (sd_Action decision)), (''reason'', GStr (sd_Reason decision)),
                       (''success'', GBool (err = None)), (''target_count'', GInt (sd_TargetCount decision))]\<rparr> m2))
         in case res of
              Ok _ \<Rightarrow> finish None
            | Err e \<Rightarrow> finish (Some e)
            | Panic \<Rightarrow> (m1, Panic)
            | Blocks \<Rightarrow> (m1, Blocks)))"

text \<open>A nil collector or predictor panics when it is used.\<close>

definition checkScaling :: "time \<Rightarrow> int \<Rightarrow> string \<Rightarrow> unit act" where
  "checkScaling now day clock m =
     (let hostCount = GetHostCount (registry m);
          healthyCount = int (length (Registry_GetHealthyHosts (registry m)))
      in case metricsCollector m of
           None \<Rightarrow> (m, Panic)
         | Some mc \<Rightarrow>
             (case calculateLoadScore m (GetResourceMetrics mc) healthyCount of
                Ok loadScore \<Rightarrow>
                  (case predictor m of
                     None \<Rightarrow> (m, Panic)
                   | Some lp \<Rightarrow>
                       (case makeScalingDecision now day clock m loadScore (PredictLoad lp) hostCount healthyCount of
                          Ok scalingDecision \<Rightarrow>
                            (if sd_Action scalingDecision \<noteq> ''none'' then executeScaling now scalingDecision m
                             else (m, Ok ()))
                        | Err e \<Rightarrow> (m, Err e) | Panic \<Rightarrow> (m, Panic) | Blocks \<Rightarrow> (m, Blocks)))
              | Err e \<Rightarrow> (m, Err e) | Panic \<Rightarrow> (m, Panic) | Blocks \<Rightarrow> (m, Blocks)))"

subsection \<open>Maintenance\<close>

text \<open>\<^verbatim>\<open>removeUnhealthyHosts\<close>: an error of one removal is logged, a wait or panic ends the round.\<close>

fun remove_unhealthy :: "time \<Rightarrow> HostInfo list \<Rightarrow> unit act" where
  "remove_unhealthy now [] m = (m, Ok ())"
| "remove_unhealthy now (host # hs) m =
     (let go = (\<lambda>reason. case removeHost now (hi_ID host) reason m of
            (m', Panic) \<Rightarrow> (m', Panic)
          | (m', Blocks) \<Rightarrow> (m', Blocks)
          | (m', _) \<Rightarrow> remove_unhealthy now hs m')
      in if State host = HostStateUnhealthy then
           (if now - LastCheck host > RemoveTimeout (config m) then go ''unhealthy_timeout''
            else remove_unhealthy now hs m)
         else if State host = HostStateOffline then
           (if now - LastHeartbeat host > RemoveTimeout (config m) * 2 then go ''offline_timeout''
            else remove_unhealthy now hs m)
         else remove_unhealthy now hs m)"

definition removeUnhealthyHosts :: "time \<Rightarrow> unit act" where
  "removeUnhealthyHosts now m = remove_unhealthy now (Registry_GetAllHosts (registry m)) m"

text \<open>A receive in a \<^verbatim>\<open>select\<close> succeeds when a value is buffered or the channel is closed.\<close>

definition cleanupResources :: "HostManager \<Rightarrow> HostManager" where
  "cleanupResources m =
     m\<lparr>subscribers := filter (\<lambda>(i, ch). \<not> (ch_buf ch \<noteq> [] \<or> ch_closed ch)) (subscribers m)\<rparr>"

definition maintenanceTasks :: "time \<Rightarrow> int \<Rightarrow> string \<Rightarrow> unit act" where
  "maintenanceTasks now day clock =
     act_bind (\<lambda>m. if AutoRemove (config m) then removeUnhealthyHosts now m else (m, Ok ())) (\<lambda>_.
     act_bind (\<lambda>m. if EnableScaling (config m) then checkScaling now day clock m else (m, Ok ())) (\<lambda>_.
       (\<lambda>m. (cleanupResources m, Ok ()))))"

definition managerLoop :: "time \<Rightarrow> int \<Rightarrow> string \<Rightarrow> loop_event \<Rightarrow> unit act option" where
  "managerLoop now day clock ev = (case ev of Tick \<Rightarrow> Some (maintenanceTasks now day clock) | _ \<Rightarrow> None)"

subsection \<open>Events, statistics and shutdown\<close>

definition Manager_Subscribe :: "string \<Rightarrow> HostManager \<Rightarrow> HostManager" where
  "Manager_Subscribe i m = m\<lparr>subscribers := gm_put i (chan_make 50) (subscribers m)\<rparr>"

definition Manager_Unsubscribe :: "string \<Rightarrow> HostManager \<Rightarrow> (host_error, HostManager) outcome" where
  "Manager_Unsubscribe i m =
     (case map_of (subscribers m) i of
        None \<Rightarrow> Ok m
      | Some ch \<Rightarrow> if ch_closed ch then Panic else Ok (m\<lparr>subscribers := gm_del i (subscribers m)\<rparr>))"

definition Manager_dispatchEvent :: "ManagerEvent \<Rightarrow> HostManager \<Rightarrow> (host_error, HostManager) outcome" where
  "Manager_dispatchEvent event m =
     (case dispatch_all event (subscribers m) of
        Ok subs \<Rightarrow> Ok (m\<lparr>subscribers := subs\<rparr>)
      | Err e \<Rightarrow> Err e | Panic \<Rightarrow> Panic | Blocks \<Rightarrow> Blocks)"

definition Manager_eventDispatcher :: "HostManager \<Rightarrow> (host_error, HostManager) outcome" where
  "Manager_eventDispatcher m =
     (case ch_buf (eventChan m) of
        [] \<Rightarrow> Blocks
      | event # rest \<Rightarrow> Manager_dispatchEvent event (m\<lparr>eventChan := (eventChan m)\<lparr>ch_buf := rest\<rparr>\<rparr>))"

definition ScanNetwork ::
  "(string \<Rightarrow> (ip \<times> nat) option) \<Rightarrow> dialer \<Rightarrow> (string \<Rightarrow> duration \<Rightarrow> bool) \<Rightarrow> (string \<Rightarrow> string list option) \<Rightarrow>
    time \<Rightarrow> string \<Rightarrow> HostManager \<Rightarrow> (HostDiscoveryResponse \<times> HostManager) option" where
  "ScanNetwork parse dial late lookup now networkRange m =
     map_option (\<lambda>(response, r). (response, m\<lparr>registry := r\<rparr>))
       (performNetworkScan parse dial late lookup now
          \<lparr>rq_NetworkRange = networkRange, rq_PortRange = ''9093'', rq_Timeout = 10, rq_Tags = [''manual_scan'']\<rparr>
          (discovery m) (registry m))"

datatype stat = StatInt int | StatBool bool | StatStatus "(string, int) gomap"
  | StatMetrics ResourceMetrics | StatHistory "ScaleEvent list"

definition GetStats :: "HostManager \<Rightarrow> (string, stat) gomap" where
  "GetStats m =
     (let stats = [(''total_hosts'', StatInt (GetHostCount (registry m))),
            (''healthy_hosts'', StatInt (GetHostCountByState HostStateHealthy (registry m))),
            (''unhealthy_hosts'', StatInt (GetHostCountByState HostStateUnhealthy (registry m))),
            (''offline_hosts'', StatInt (GetHostCountByState HostStateOffline (registry m))),
            (''maintenance_hosts'', StatInt (GetHostCountByState HostStateMaintenance (registry m))),
            (''max_hosts'', StatInt (mc_MaxHosts (config m))),
            (''auto_remove'', StatBool (AutoRemove (config m))),
            (''enable_scaling'', StatBool (EnableScaling (config m))),
            (''health_status'', StatStatus (GetHealthStatus (registry m)))];
          stats1 = (case metricsCollector m of None \<Rightarrow> stats
            | Some mc \<Rightarrow> gm_put ''resource_metrics'' (StatMetrics (GetResourceMetrics mc)) stats)
      in gm_put ''scale_history'' (StatHistory (scaleHistory m)) stats1)"

text \<open>\<^verbatim>\<open>Start\<close> starts the goroutines of the components and then its own; \<^verbatim>\<open>Stop\<close> closes the stop channels in order.\<close>

definition Manager_Start :: "HostManager \<Rightarrow> HostManager \<times> discovery_task list" where
  "Manager_Start m = (let (d, tasks) = Discovery_Start (discovery m) in (m\<lparr>discovery := d\<rparr>, tasks))"

definition Manager_Stop :: "unit act" where
  "Manager_Stop m =
     (if mg_stopped m then (m, Panic)
      else (let m1 = m\<lparr>mg_stopped := True\<rparr> in
        case HealthMonitor_Stop (health m1) of
          Ok h \<Rightarrow> lift_reg Registry_Stop (m1\<lparr>health := h\<rparr>)
        | Err e \<Rightarrow> (m1, Err e) | Panic \<Rightarrow> (m1, Panic) | Blocks \<Rightarrow> (m1, Blocks)))"

subsection \<open>The host management system\<close>

text \<open>
  The operations of the manager, of the goroutines of its components and of its callers, each at a
  time; \<open>mgr_run\<close> is any interleaving of them. An operation that panics or waits leaves the state
  it had reached.
\<close>

datatype mgr_op = AddOp HostInfo | RemoveOp string string | UpdateOp string "(string, gval) gomap"
  | MaintenanceOp string bool | TasksOp int string | SubscribeOp string | UnsubscribeOp string
  | DispatcherOp | MetricsOp ResourceMetrics | RegistryOp reg_op
  | HealthOp "string \<Rightarrow> string option" HostInfo

definition ok_or :: "'s \<Rightarrow> ('e, 's) outcome \<Rightarrow> 's" where
  "ok_or m res = (case res of Ok m' \<Rightarrow> m' | _ \<Rightarrow> m)"

fun mgr_apply :: "time \<times> mgr_op \<Rightarrow> HostManager \<Rightarrow> HostManager" where
  "mgr_apply (now, AddOp h) m = fst (AddHost now h m)"
| "mgr_apply (now, RemoveOp i reason) m = fst (ForceRemoveHost now i reason m)"
| "mgr_apply (now, UpdateOp i updates) m = fst (UpdateHost now i updates m)"
| "mgr_apply (now, MaintenanceOp i b) m = fst (SetHostMaintenance now i b m)"
| "mgr_apply (now, TasksOp day clock) m = fst (maintenanceTasks now day clock m)"
| "mgr_apply (now, SubscribeOp i) m = Manager_Subscribe i m"
| "mgr_apply (now, UnsubscribeOp i) m = ok_or m (Manager_Unsubscribe i m)"
| "mgr_apply (now, DispatcherOp) m = ok_or m (Manager_eventDispatcher m)"
| "mgr_apply (now, MetricsOp rm) m = m\<lparr>metricsCollector := map_option (UpdateMetrics rm) (metricsCollector m)\<rparr>"
| "mgr_apply (now, RegistryOp op) m = m\<lparr>registry := reg_apply (now, op) (registry m)\<rparr>"
| "mgr_apply (now, HealthOp dial h) m =
     (let ((hm, r), _) = checkHost dial now now h (health m, registry m) in m\<lparr>health := hm, registry := r\<rparr>)"

definition mgr_run :: "(time \<times> mgr_op) list \<Rightarrow> HostManager \<Rightarrow> HostManager" where
  "mgr_run tr m = fold mgr_apply tr m"

lemma mgr_run_simps [simp]: "mgr_run [] m = m" "mgr_run (x # tr) m = mgr_run tr (mgr_apply x m)"
  by (simp_all add: mgr_run_def)

text \<open>An operation keeps a property of the manager on every path, also when it fails.\<close>

definition keeps :: "(HostManager \<Rightarrow> bool) \<Rightarrow> 'a act \<Rightarrow> bool" where
  "keeps P a \<longleftrightarrow> (\<forall>m. P m \<longrightarrow> P (fst (a m)))"

lemma keepsI [intro]: "(\<And>m. P m \<Longrightarrow> P (fst (a m))) \<Longrightarrow> keeps P a"
  by (simp add: keeps_def)

lemma keepsD: "keeps P a \<Longrightarrow> P m \<Longrightarrow> P (fst (a m))"
  by (simp add: keeps_def)

lemma keeps_bind: "keeps P a \<Longrightarrow> (\<And>x. keeps P (f x)) \<Longrightarrow> keeps P (act_bind a f)"
  unfolding keeps_def act_bind_def by (auto split: outcome.splits prod.splits)

lemma mgr_run_keeps:
  assumes "\<And>x m. P m \<Longrightarrow> P (mgr_apply x m)"
  shows "P m \<Longrightarrow> P (mgr_run tr m)"
  by (induction tr arbitrary: m) (auto intro: assms)

subsection \<open>Invariant\<close>

definition mgr_inv :: "HostManager \<Rightarrow> bool" where
  "mgr_inv m \<longleftrightarrow> reg_inv (registry m) \<and> subs_inv 50 (subscribers m) \<and>
     \<not> ch_closed (eventChan m) \<and> ch_cap (eventChan m) = 100 \<and> chan_wf (eventChan m)"

lemma mgr_inv_New: "mgr_inv (NewHostManager c)"
  by (simp add: mgr_inv_def NewHostManager_def Let_def subs_inv_def) (simp add: chan_make_def)

lemma mgr_inv_registry: "mgr_inv m \<Longrightarrow> reg_inv r \<Longrightarrow> mgr_inv (m\<lparr>registry := r\<rparr>)"
  by (simp add: mgr_inv_def)

lemma mgr_inv_history: "mgr_inv (m\<lparr>scaleHistory := h, lastScaleAction := t\<rparr>) = mgr_inv m"
  by (simp add: mgr_inv_def)

lemma send_event_cases:
  "mgr_inv m \<Longrightarrow> send_event ev m =
    (if length (ch_buf (eventChan m)) < 100
     then (m\<lparr>eventChan := (eventChan m)\<lparr>ch_buf := ch_buf (eventChan m) @ [ev]\<rparr>\<rparr>, Ok ()) else (m, Blocks))"
  by (simp add: mgr_inv_def send_event_def chan_send_def)

lemma inv_send: "keeps mgr_inv (send_event ev)"
  by (rule keepsI) (auto simp: send_event_cases mgr_inv_def chan_wf_def)

lemma inv_lift_reg: "(\<And>r r'. reg_inv r \<Longrightarrow> f r = Ok r' \<Longrightarrow> reg_inv r') \<Longrightarrow> keeps mgr_inv (lift_reg f)"
  by (rule keepsI) (auto simp: lift_reg_def mgr_inv_def split: outcome.splits)

lemma reg_inv_Unregister: "reg_inv r \<Longrightarrow> UnregisterHost i r = Ok r' \<Longrightarrow> reg_inv r'"
  using reg_store.unreg_count by blast

lemma reg_inv_UpdateState: "reg_inv r \<Longrightarrow> UpdateHostState t i s r = Ok r' \<Longrightarrow> reg_inv r'"
  using reg_inv_apply [of r "(t, StateOp i s)"] by (simp add: keep_on_error_def)

lemma inv_removeHost: "keeps mgr_inv (removeHost now i reason)"
proof (rule keepsI)
  fix m assume m: "mgr_inv m"
  have "keeps mgr_inv (act_bind (lift_reg (UnregisterHost i)) (\<lambda>_. send_event ev))" for ev
    by (intro keeps_bind inv_lift_reg inv_send) (rule reg_inv_Unregister)
  from keepsD [OF this m] m show "mgr_inv (fst (removeHost now i reason m))"
    by (cases "host_at (registry m) i") (simp_all add: removeHost_def Registry_GetHost_def)
qed

lemma inv_AddHost: "keeps mgr_inv (AddHost now h)"
proof (rule keepsI)
  fix m assume m: "mgr_inv m"
  then have "reg_inv (snd (RegisterHost now h (registry m)))"
    using reg_store.reg_keeps by (simp add: mgr_inv_def)
  with m show "mgr_inv (fst (AddHost now h m))"
    by (auto simp: AddHost_def Let_def case_prod_beta intro!: keepsD [OF inv_send] mgr_inv_registry)
qed

lemma apply_updates_ID: "hi_ID (fst (apply_updates u h)) = hi_ID h"
proof -
  have "hi_ID (fst (upd_field k f u x)) = hi_ID (fst x)"
    if "\<And>v h h'. f v h = Some h' \<Longrightarrow> hi_ID h' = hi_ID h" for k f x
    using that by (auto simp: upd_field_def split: prod.splits option.splits)
  note * = this
  have "f v h = Some h' \<Longrightarrow> f \<in> {set_hostname, set_ip, set_port, set_state, set_tags, set_metadata} \<Longrightarrow>
      hi_ID h' = hi_ID h" for f v h h'
    by (cases v) auto
  then show ?thesis unfolding apply_updates_def by (simp add: *)
qed

lemma inv_UpdateHost: "keeps mgr_inv (UpdateHost now i u)"
proof (rule keepsI)
  fix m assume m: "mgr_inv m"
  show "mgr_inv (fst (UpdateHost now i u m))"
  proof (cases "host_at (registry m) i")
    case None
    with m show ?thesis by (simp add: UpdateHost_def Registry_GetHost_def)
  next
    case (Some h)
    obtain h' ok where u: "apply_updates u h = (h', ok)" by (cases "apply_updates u h")
    have "hi_ID h' = i"
      using apply_updates_ID [of u h] u reg_inv_ID [OF _ Some] m by (simp add: mgr_inv_def)
    then have "mgr_inv (m\<lparr>registry := put_host i h' (registry m)\<rparr>)"
      using m by (auto intro!: mgr_inv_registry reg_inv_put simp: mgr_inv_def)
    with Some u show ?thesis
      by (simp add: UpdateHost_def Registry_GetHost_def Let_def keepsD [OF inv_send])
  qed
qed

lemma inv_Maintenance: "keeps mgr_inv (SetHostMaintenance now i b)"
  unfolding SetHostMaintenance_def Let_def
  by (intro keeps_bind inv_lift_reg inv_send) (rule reg_inv_UpdateState)

lemma inv_ScaleUp: "keeps mgr_inv (performScaleUp now n)"
proof (rule keepsI)
  fix m assume "mgr_inv m"
  then show "mgr_inv (fst (performScaleUp now n m))"
    using register_all_dom [of "registry m"]
    by (auto simp: performScaleUp_def Let_def mgr_inv_def)
qed

lemma inv_remove_loop: "mgr_inv m \<Longrightarrow> mgr_inv (fst (remove_loop now hs is m))"
proof (induction now hs "is" m rule: remove_loop.induct)
  case (2 now hs i "is" m)
  have "mgr_inv (fst (removeHost now (hi_ID (hs ! nat i)) ''scale_down'' m))"
    by (rule keepsD [OF inv_removeHost "2.prems"])
  with 2 show ?case by (auto split: prod.splits outcome.splits)
qed simp

lemma inv_ScaleDown: "keeps mgr_inv (performScaleDown now n)"
  by (rule keepsI) (simp add: performScaleDown_def Let_def inv_remove_loop)

lemma inv_executeScaling: "keeps mgr_inv (executeScaling now d)"
proof (rule keepsI)
  fix m assume m: "mgr_inv m"
  let ?p = "if sd_Action d = ''scale_up'' then performScaleUp now (sd_TargetCount d) m
    else if sd_Action d = ''scale_down'' then performScaleDown now (sd_TargetCount d) m else (m, Ok ())"
  have "mgr_inv (fst ?p)" using keepsD [OF inv_ScaleUp m] keepsD [OF inv_ScaleDown m] m by simp
  moreover obtain m1 res where p: "?p = (m1, res)" by (cases ?p)
  ultimately have "mgr_inv m1" by simp
  then have "mgr_inv (m1\<lparr>scaleHistory := h, lastScaleAction := t\<rparr>)" for h t by (simp add: mgr_inv_history)
  with \<open>mgr_inv m1\<close> m show "mgr_inv (fst (executeScaling now d m))"
    unfolding executeScaling_def p Let_def prod.case
    by (auto split: outcome.splits intro!: keepsD [OF inv_send])
qed

lemma inv_checkScaling: "keeps mgr_inv (checkScaling now day clock)"
  by (rule keepsI)
    (auto simp: checkScaling_def Let_def intro: keepsD [OF inv_executeScaling] split: option.splits outcome.splits)

lemma inv_remove_unhealthy: "mgr_inv m \<Longrightarrow> mgr_inv (fst (remove_unhealthy now hs m))"
proof (induction hs arbitrary: m)
  case (Cons h hs)
  have "mgr_inv (fst (removeHost now (hi_ID h) reason m))" for reason
    by (rule keepsD [OF inv_removeHost Cons.prems])
  then have "mgr_inv (fst (case removeHost now (hi_ID h) reason m of
      (m', Panic) \<Rightarrow> (m', Panic) | (m', Blocks) \<Rightarrow> (m', Blocks) | (m', _) \<Rightarrow> remove_unhealthy now hs m'))" for reason
    using Cons.IH by (auto split: prod.splits outcome.splits) (metis fst_conv)+
  with Cons show ?case by (simp add: Let_def)
qed simp

lemma inv_tasks: "keeps mgr_inv (maintenanceTasks now day clock)"
  unfolding maintenanceTasks_def
  by (intro keeps_bind keepsI)
    (auto simp: removeUnhealthyHosts_def cleanupResources_def inv_remove_unhealthy
      intro: keepsD [OF inv_checkScaling], auto simp: mgr_inv_def subs_inv_def distinct_map_filter)

lemma inv_dispatch:
  assumes "mgr_inv m"
  shows "\<exists>m'. Manager_dispatchEvent ev m = Ok m' \<and> mgr_inv m'"
  using assms dispatch_all_ok [of 50 "subscribers m" ev, where 'x = host_error]
  by (auto simp: Manager_dispatchEvent_def mgr_inv_def)

lemma inv_dispatcher:
  assumes "mgr_inv m"
  shows "mgr_inv (ok_or m (Manager_eventDispatcher m))"
proof (cases "ch_buf (eventChan m)")
  case Nil
  with assms show ?thesis by (simp add: Manager_eventDispatcher_def ok_or_def)
next
  case (Cons ev rest)
  with assms have "mgr_inv (m\<lparr>eventChan := (eventChan m)\<lparr>ch_buf := rest\<rparr>\<rparr>)"
    by (simp add: mgr_inv_def chan_wf_def)
  from inv_dispatch [OF this, of ev] Cons show ?thesis
    by (auto simp: Manager_eventDispatcher_def ok_or_def)
qed

lemma inv_unsubscribe:
  assumes "mgr_inv m"
  shows "mgr_inv (ok_or m (Manager_Unsubscribe i m))"
proof (cases "map_of (subscribers m) i")
  case None
  with assms show ?thesis by (simp add: Manager_Unsubscribe_def ok_or_def)
next
  case (Some ch)
  have "subs_inv 50 (gm_del i (subscribers m))"
    using assms by (intro subs_inv_del) (simp add: mgr_inv_def)
  with Some assms show ?thesis by (simp add: Manager_Unsubscribe_def ok_or_def mgr_inv_def)
qed

lemma inv_checkHost:
  assumes "reg_inv r"
  shows "reg_inv (snd (fst (checkHost dial t1 t2 h (hm, r))))"
  using assms reg_inv_UpdateState [OF assms]
  by (auto simp: checkHost_def Let_def case_prod_beta split: outcome.splits)

lemma mgr_inv_apply: "mgr_inv m \<Longrightarrow> mgr_inv (mgr_apply x m)"
proof (induction x m rule: mgr_apply.induct)
  case (5 now day clock m)
  then show ?case by (simp add: keepsD [OF inv_tasks])
next
  case (11 now dial h m)
  then have "reg_inv (snd (fst (checkHost dial now now h (health m, registry m))))"
    by (intro inv_checkHost) (simp add: mgr_inv_def)
  with 11 show ?case by (simp add: Let_def case_prod_beta mgr_inv_def)
next
  case (7 now i m)
  then show ?case by (simp add: inv_unsubscribe)
next
  case (6 now i m)
  then show ?case using subs_inv_put [of 50 "subscribers m" i] by (simp add: mgr_inv_def Manager_Subscribe_def)
next
  case (9 now rm m)
  then show ?case by (simp add: mgr_inv_def)
next
  case (10 now op m)
  then show ?case by (simp add: mgr_inv_def reg_inv_apply)
qed (simp_all add: ForceRemoveHost_def inv_dispatcher keepsD [OF inv_AddHost]
    keepsD [OF inv_removeHost] keepsD [OF inv_UpdateHost] keepsD [OF inv_Maintenance])

text \<open>
  C24: host management keeps its state consistent. After any interleaving of manual
  operations, maintenance rounds, health checks, registry operations, subscriptions and dispatches,
  whether they succeed, fail, wait or panic, the registry has one record per id under that id,
  the event channel is open and holds at most its 100 events, and every registered
  subscriber has an open channel of 50 places.
\<close>

theorem manager_inv_reachable: "mgr_inv (mgr_run tr (NewHostManager c))"
  by (rule mgr_run_keeps [where P = mgr_inv]) (simp_all add: mgr_inv_apply mgr_inv_New)

subsection \<open>Cool-down\<close>

text \<open>The fields that only \<^verbatim>\<open>executeScaling\<close> changes.\<close>

definition frame :: "HostManager \<Rightarrow> ManagerConfig \<times> ScaleEvent list \<times> time" where
  "frame m = (config m, scaleHistory m, lastScaleAction m)"

lemma frame_updates [simp]:
  "frame (m\<lparr>registry := r\<rparr>) = frame m" "frame (m\<lparr>eventChan := ch\<rparr>) = frame m"
  "frame (m\<lparr>subscribers := ss\<rparr>) = frame m" "frame (m\<lparr>health := h\<rparr>) = frame m"
  "frame (m\<lparr>metricsCollector := mc\<rparr>) = frame m"
  by (simp_all add: frame_def)

lemma frame_send [simp]: "frame (fst (send_event ev m)) = frame m"
  by (simp add: send_event_def split: outcome.splits)

lemma frame_lift_reg [simp]: "frame (fst (lift_reg f m)) = frame m"
  by (simp add: lift_reg_def split: outcome.splits)

lemma frame_bind:
  assumes "frame (fst (a m)) = frame m" and "\<And>x m'. frame (fst (f x m')) = frame m'"
  shows "frame (fst (act_bind a f m)) = frame m"
  using assms by (auto simp: act_bind_def split: prod.splits outcome.splits)

lemma frame_removeHost [simp]: "frame (fst (removeHost now i reason m)) = frame m"
  by (cases "host_at (registry m) i") (simp_all add: removeHost_def Registry_GetHost_def frame_bind)

lemma frame_removeHostD: "removeHost now i reason m = (m', res) \<Longrightarrow> frame m' = frame m"
  using frame_removeHost [of now i reason m] by simp

lemma frame_AddHost [simp]: "frame (fst (AddHost now h m)) = frame m"
  by (simp add: AddHost_def Let_def case_prod_beta)

lemma frame_UpdateHost [simp]: "frame (fst (UpdateHost now i u m)) = frame m"
  by (cases "host_at (registry m) i") (simp_all add: UpdateHost_def Registry_GetHost_def Let_def case_prod_beta)

lemma frame_Maintenance [simp]: "frame (fst (SetHostMaintenance now i b m)) = frame m"
  by (simp add: SetHostMaintenance_def Let_def frame_bind)

lemma frame_remove_loop [simp]: "frame (fst (remove_loop now hs is m)) = frame m"
proof (induction now hs "is" m rule: remove_loop.induct)
  case (2 now hs i "is" m)
  then show ?case by (auto dest: frame_removeHostD split: prod.splits outcome.splits)
qed simp

lemma frame_scale [simp]:
  "frame (fst (performScaleUp now n m)) = frame m" "frame (fst (performScaleDown now n m)) = frame m"
  by (simp_all add: performScaleUp_def performScaleDown_def Let_def)

lemma frame_remove_unhealthy [simp]: "frame (fst (remove_unhealthy now hs m)) = frame m"
proof (induction hs arbitrary: m)
  case (Cons h hs)
  have "frame (fst (case removeHost now (hi_ID h) reason m of
      (m', Panic) \<Rightarrow> (m', Panic) | (m', Blocks) \<Rightarrow> (m', Blocks) | (m', _) \<Rightarrow> remove_unhealthy now hs m')) = frame m" for reason
    using Cons.IH by (auto dest: frame_removeHostD split: prod.splits outcome.splits)
  with Cons show ?case by (simp add: Let_def)
qed simp

lemma frame_executeScaling:
  "frame (fst (executeScaling now d m)) = frame m \<or>
    (\<exists>e. se_Timestamp e = now \<and> frame (fst (executeScaling now d m)) = (config m, scaleHistory m @ [e], now))"
proof -
  let ?p = "if sd_Action d = ''scale_up'' then performScaleUp now (sd_TargetCount d) m
    else if sd_Action d = ''scale_down'' then performScaleDown now (sd_TargetCount d) m else (m, Ok ())"
  obtain m1 res where p: "?p = (m1, res)" by (cases ?p)
  have "frame (fst ?p) = frame m" by simp
  then have m1: "frame m1 = frame m" unfolding p by simp
  then have "frame (m1\<lparr>scaleHistory := scaleHistory m1 @ [e], lastScaleAction := now\<rparr>) =
      (config m, scaleHistory m @ [e], now)" for e
    by (simp add: frame_def)
  with m1 show ?thesis
    unfolding executeScaling_def p Let_def prod.case by (auto split: outcome.splits)
qed

text \<open>A scaling round does something only when the cool-down is over.\<close>

lemma frame_checkScaling:
  "frame (fst (checkScaling now day clock m)) = frame m \<or>
    (\<exists>e sc. mc_ScalingConfig (config m) = Some sc \<and> CooldownPeriod sc \<le> now - lastScaleAction m \<and>
      se_Timestamp e = now \<and> frame (fst (checkScaling now day clock m)) = (config m, scaleHistory m @ [e], now))"
proof -
  have cool: "\<exists>sc. mc_ScalingConfig (config m) = Some sc \<and> CooldownPeriod sc \<le> now - lastScaleAction m"
    if "makeScalingDecision now day clock m l p hc hh = Ok d" "sd_Action d \<noteq> ''none''" for l p hc hh d
    using that by (auto simp: makeScalingDecision_def since_def no_decision_def split: option.splits if_splits)
  show ?thesis
    using cool frame_executeScaling [of now _ m]
    by (auto simp: checkScaling_def Let_def split: option.splits outcome.splits) metis+
qed

definition cooled :: "ScalingConfig \<Rightarrow> ManagerConfig \<times> ScaleEvent list \<times> time \<Rightarrow> bool" where
  "cooled sc = (\<lambda>(c, h, t). mc_ScalingConfig c = Some sc \<and>
     successively (\<lambda>a b. CooldownPeriod sc \<le> se_Timestamp b - se_Timestamp a) h \<and>
     (h \<noteq> [] \<longrightarrow> t = se_Timestamp (last h)))"

lemma cooled_tasks:
  assumes "cooled sc (frame m)"
  shows "cooled sc (frame (fst (maintenanceTasks now day clock m)))"
proof -
  have 1: "keeps (\<lambda>m. cooled sc (frame m)) (\<lambda>m. if AutoRemove (config m) then removeUnhealthyHosts now m else (m, Ok ()))"
    by (rule keepsI) (simp add: removeUnhealthyHosts_def)
  have 2: "keeps (\<lambda>m. cooled sc (frame m)) (\<lambda>m. if EnableScaling (config m) then checkScaling now day clock m else (m, Ok ()))"
  proof (rule keepsI)
    fix m assume c: "cooled sc (frame m)"
    then have "cooled sc (frame (fst (checkScaling now day clock m)))"
      using frame_checkScaling [of now day clock m]
      by (auto simp: cooled_def frame_def successively_append_iff)
    with c show "cooled sc (frame (fst (if EnableScaling (config m) then checkScaling now day clock m else (m, Ok ()))))"
      by simp
  qed
  have 3: "keeps (\<lambda>m. cooled sc (frame m)) (\<lambda>m. (cleanupResources m, Ok ()))"
    by (rule keepsI) (simp add: cleanupResources_def)
  from 1 2 3 assms show ?thesis
    unfolding maintenanceTasks_def by (intro keepsD [where P = "\<lambda>m. cooled sc (frame m)"] keeps_bind)
qed

lemma frame_apply:
  assumes "\<And>now day clock. snd x \<noteq> TasksOp day clock"
  shows "frame (mgr_apply x m) = frame m"
proof -
  have "frame (ok_or m (Manager_dispatchEvent ev m')) \<in> {frame m, frame m'}" for ev m'
    by (auto simp: Manager_dispatchEvent_def ok_or_def split: outcome.splits)
  then have d: "frame (ok_or m (Manager_eventDispatcher m)) = frame m"
    by (fastforce simp: Manager_eventDispatcher_def ok_or_def split: list.splits)
  have u: "frame (ok_or m (Manager_Unsubscribe i m)) = frame m" for i
    by (auto simp: Manager_Unsubscribe_def ok_or_def split: option.splits outcome.splits)
  have h: "frame (m\<lparr>health := a, registry := b\<rparr>) = frame m" for a b
    by (simp add: frame_def)
  show ?thesis using assms
    by (cases "(x, m)" rule: mgr_apply.cases)
      (auto simp: d u h ForceRemoveHost_def Manager_Subscribe_def Let_def case_prod_beta)
qed

text \<open>
  C25: scaling respects its cool-down. In any interleaving of operations two consecutive scaling
  actions in the manager's history, successful or not, are at least \<^verbatim>\<open>CooldownPeriod\<close> apart.
\<close>

theorem scaling_respects_cooldown:
  assumes "mc_ScalingConfig c = Some sc"
  shows "successively (\<lambda>a b. CooldownPeriod sc \<le> se_Timestamp b - se_Timestamp a)
    (scaleHistory (mgr_run tr (NewHostManager c)))"
proof -
  have "cooled sc (frame (mgr_apply x m))" if "cooled sc (frame m)" for x m
  proof (cases "\<exists>day clock. snd x = TasksOp day clock")
    case True
    with that show ?thesis by (cases x) (auto simp: cooled_tasks)
  next
    case False
    with that frame_apply [of x m] show ?thesis by simp
  qed
  moreover have "cooled sc (frame (NewHostManager c))"
    using assms by (simp add: cooled_def frame_def NewHostManager_def Let_def)
  ultimately have "cooled sc (frame (mgr_run tr (NewHostManager c)))"
    by (rule mgr_run_keeps [where P = "\<lambda>m. cooled sc (frame m)"])
  then show ?thesis by (simp add: cooled_def frame_def)
qed

definition demo_scaling :: ScalingConfig where
  "demo_scaling = \<lparr>EnableHorizontalScale = True, EnableVerticalScale = False, ScaleUpThreshold = 80,
     ScaleDownThreshold = 20, CooldownPeriod = 300 * second, ScaleStep = 1, MaxScaleUpPerCycle = 2,
     MaxScaleDownPerCycle = 1, PredictionWindow = 600 * second, EnablePrediction = True,
     ScaleStrategy = ''threshold'',
     sc_ResourceWeights = \<lparr>w_CPU = 40, w_Memory = 30, w_Disk = 20, w_Network = 10, w_Custom = 0\<rparr>,
     TimeBasedRules = [], sc_MinHosts = 1, sc_MaxHosts = 10\<rparr>"

definition demo_config :: ManagerConfig where
  "demo_config = \<lparr>mc_RegistryConfig = demo_reg_config, mc_DiscoveryConfig = ds_config demo_discovery,
     mc_HealthConfig = demo_health_config, AutoRemove = True, RemoveTimeout = 600 * second, mc_MaxHosts = 10,
     mc_MinHosts = 1, EnableScaling = True, mc_ScalingConfig = Some demo_scaling, mc_LoadBalancer = None,
     mc_CostConfig = None\<rparr>"

theorem scaling_respects_cooldown_witness:
  "successively (\<lambda>a b. CooldownPeriod demo_scaling \<le> se_Timestamp b - se_Timestamp a)
    (scaleHistory (mgr_run [(0, TasksOp 1 ''08:00''), (30 * second, TasksOp 1 ''08:00''),
       (60 * second, AddOp (demo_host ''a'')), (400 * second, TasksOp 1 ''08:06'')] (NewHostManager demo_config)))"
  by (rule scaling_respects_cooldown) (simp add: demo_config_def)

subsection \<open>Types of updates\<close>

datatype gtype = TNil | TBool | TInt | TFloat | TString | TStrings | TState | TMap

fun gtype_of :: "gval \<Rightarrow> gtype" where
  "gtype_of GNil = TNil"
| "gtype_of (GBool _) = TBool"
| "gtype_of (GInt _) = TInt"
| "gtype_of (GFloat _) = TFloat"
| "gtype_of (GStr _) = TString"
| "gtype_of (GStrs _) = TStrings"
| "gtype_of (GState _) = TState"
| "gtype_of (GMap _) = TMap"

text \<open>The types of the fields that \<^verbatim>\<open>UpdateHost\<close> knows; other keys are ignored.\<close>

definition host_schema :: "(string \<times> gtype) list" where
  "host_schema = [(''hostname'', TString), (''ip_address'', TString), (''port'', TInt), (''state'', TState),
     (''tags'', TStrings), (''metadata'', TMap)]"

definition field_ok :: "string \<Rightarrow> gtype \<Rightarrow> (string, gval) gomap \<Rightarrow> bool" where
  "field_ok k t u \<longleftrightarrow> (case map_of u k of None \<Rightarrow> True | Some v \<Rightarrow> gtype_of v = t)"

definition well_typed :: "(string, gval) gomap \<Rightarrow> bool" where
  "well_typed updates \<longleftrightarrow> list_all (\<lambda>(k, t). field_ok k t updates) host_schema"

lemma upd_field_typed:
  assumes "\<And>v h. f v h \<noteq> None \<longleftrightarrow> gtype_of v = t"
  shows "snd (upd_field k f u x) \<longleftrightarrow> snd x \<and> field_ok k t u"
proof (cases "map_of u k")
  case (Some v)
  then show ?thesis using assms [of v "fst x"] by (cases x) (auto simp: upd_field_def field_ok_def split: option.splits)
qed (cases x; simp add: upd_field_def field_ok_def)

lemma setters_typed:
  "set_hostname v h \<noteq> None \<longleftrightarrow> gtype_of v = TString" "set_ip v h \<noteq> None \<longleftrightarrow> gtype_of v = TString"
  "set_port v h \<noteq> None \<longleftrightarrow> gtype_of v = TInt" "set_state v h \<noteq> None \<longleftrightarrow> gtype_of v = TState"
  "set_tags v h \<noteq> None \<longleftrightarrow> gtype_of v = TStrings" "set_metadata v h \<noteq> None \<longleftrightarrow> gtype_of v = TMap"
  by (cases v; simp)+

lemma apply_updates_typed: "snd (apply_updates u h) \<longleftrightarrow> well_typed u"
  unfolding apply_updates_def well_typed_def host_schema_def
  by (simp add: setters_typed [THEN upd_field_typed] conj_ac)

text \<open>
  C27: well-typed updates do not panic, and only those. On every reachable manager \<^verbatim>\<open>UpdateHost\<close>
  panics exactly when the host exists and some known field comes with a value of another type.
\<close>

theorem UpdateHost_type_safe:
  "snd (UpdateHost now i u (mgr_run tr (NewHostManager c))) = Panic \<longleftrightarrow>
    host_at (registry (mgr_run tr (NewHostManager c))) i \<noteq> None \<and> \<not> well_typed u"
proof -
  define m where "m = mgr_run tr (NewHostManager c)"
  have m: "mgr_inv m"
    unfolding m_def by (rule mgr_run_keeps [where P = mgr_inv]) (simp_all add: mgr_inv_apply mgr_inv_New)
  have s: "snd (send_event ev (m\<lparr>registry := r\<rparr>)) \<noteq> Panic" for ev r
    using m by (simp add: send_event_def chan_send_def mgr_inv_def)
  have "snd (UpdateHost now i u m) = Panic \<longleftrightarrow> host_at (registry m) i \<noteq> None \<and> \<not> well_typed u"
  proof (cases "host_at (registry m) i")
    case (Some h)
    then show ?thesis
      using s apply_updates_typed [of u h]
      by (simp add: UpdateHost_def Registry_GetHost_def Let_def case_prod_beta)
  qed (simp add: UpdateHost_def Registry_GetHost_def)
  then show ?thesis by (simp add: m_def)
qed

subsection \<open>Scaling down\<close>

lemma removeHost_ok:
  assumes "mgr_inv m" and "i \<in> dom (host_at (registry m))" and "length (ch_buf (eventChan m)) < 100"
  shows "\<exists>m'. removeHost now i reason m = (m', Ok ()) \<and> mgr_inv m' \<and>
    host_at (registry m') = (host_at (registry m))(i := None) \<and>
    length (ch_buf (eventChan m')) = Suc (length (ch_buf (eventChan m)))"
proof -
  from assms(1) have r: "reg_inv (registry m)" by (simp add: mgr_inv_def)
  from reg_store.unreg_present [OF r assms(2)] obtain r'
    where r': "UnregisterHost i (registry m) = Ok r'" "reg_inv r'" "host_at r' = (host_at (registry m))(i := None)"
    by blast
  have "mgr_inv (m\<lparr>registry := r'\<rparr>)" using assms(1) r'(2) by (rule mgr_inv_registry)
  from send_event_cases [OF this] keepsD [OF inv_removeHost assms(1), of now i reason] assms(2,3) r' show ?thesis
    by (auto simp: removeHost_def Registry_GetHost_def act_bind_def lift_reg_def)
qed

lemma remove_loop_ok:
  assumes "mgr_inv m" and "distinct is" and "\<forall>i\<in>set is. 0 \<le> i" and "distinct (map hi_ID hs)"
    and "\<forall>i\<in>set is. i < int (length hs) \<longrightarrow> hi_ID (hs ! nat i) \<in> dom (host_at (registry m))"
    and "length (ch_buf (eventChan m)) + length (filter (\<lambda>i. i < int (length hs)) is) \<le> 100"
  shows "\<exists>m'. remove_loop now hs is m = (m', Ok ()) \<and> mgr_inv m' \<and>
    host_at (registry m') = host_at (registry m) |` (- (\<lambda>i. hi_ID (hs ! nat i)) ` {i \<in> set is. i < int (length hs)})"
  using assms
proof (induction "is" arbitrary: m)
  case (Cons i "is")
  show ?case
  proof (cases "i < int (length hs)")
    case False
    then have "{j \<in> set (i # is). j < int (length hs)} = {j \<in> set is. j < int (length hs)}" by auto
    with Cons.IH [OF Cons.prems(1)] Cons.prems False show ?thesis by simp
  next
    case True
    let ?k = "hi_ID (hs ! nat i)"
    have nn: "0 \<le> i" "\<forall>j\<in>set is. 0 \<le> j" "i \<notin> set is" "distinct is" using Cons.prems by auto
    from removeHost_ok [OF Cons.prems(1), of ?k now "''scale_down''"] Cons.prems True obtain m1
      where m1: "removeHost now ?k ''scale_down'' m = (m1, Ok ())" "mgr_inv m1"
        "host_at (registry m1) = (host_at (registry m))(?k := None)"
        "length (ch_buf (eventChan m1)) = Suc (length (ch_buf (eventChan m)))"
      by auto
    have ne: "hi_ID (hs ! nat j) \<noteq> ?k" if "j \<in> set is" "j < int (length hs)" for j
    proof -
      have "0 \<le> j" "j \<noteq> i" using that nn by auto
      then have "nat j \<noteq> nat i" "nat j < length hs" "nat i < length hs"
        using that nn(1) True by (simp_all add: eq_nat_nat_iff)
      with Cons.prems(4) show ?thesis by (metis length_map nth_eq_iff_index_eq nth_map)
    qed
    have pres: "\<forall>j\<in>set is. j < int (length hs) \<longrightarrow> hi_ID (hs ! nat j) \<in> dom (host_at (registry m1))"
      using Cons.prems(5) ne unfolding m1(3) by auto
    have room: "length (ch_buf (eventChan m1)) + length (filter (\<lambda>i. i < int (length hs)) is) \<le> 100"
      using Cons.prems(6) m1(4) True by simp
    from Cons.IH [OF m1(2) nn(4,2) Cons.prems(4) pres room] obtain m'
      where m': "remove_loop now hs is m1 = (m', Ok ())" "mgr_inv m'"
        "host_at (registry m') = host_at (registry m1) |` (- (\<lambda>i. hi_ID (hs ! nat i)) ` {i \<in> set is. i < int (length hs)})"
      by blast
    have "{j \<in> set (i # is). j < int (length hs)} = insert i {j \<in> set is. j < int (length hs)}" using True by auto
    moreover have "host_at (registry m') = host_at (registry m) |`
        (- (\<lambda>i. hi_ID (hs ! nat i)) ` insert i {j \<in> set is. j < int (length hs)})"
      unfolding m'(3) m1(3) by (auto simp: fun_eq_iff restrict_map_def)
    ultimately have "host_at (registry m') = host_at (registry m) |`
        (- (\<lambda>i. hi_ID (hs ! nat i)) ` {j \<in> set (i # is). j < int (length hs)})" by (simp only:)
    moreover have "remove_loop now hs (i # is) m = (m', Ok ())" using m1(1) m'(1) True nn(1) by simp
    ultimately show ?thesis using m'(2) by blast
  qed
qed (simp add: restrict_map_def)

lemma count_state_card:
  assumes "reg_inv r"
  shows "GetHostCountByState s r = int (card {i. map_option State (host_at r i) = Some s})"
proof -
  let ?L = "filter (\<lambda>x. State (snd x) = s) (hosts r)"
  have "map_option State (host_at r i) = Some s \<longleftrightarrow> (\<exists>h. (i, h) \<in> set (hosts r) \<and> State h = s)" for i
    using assms map_of_eq_Some_iff [of "hosts r" i] by (auto simp: reg_inv_def)
  then have "{i. map_option State (host_at r i) = Some s} = set (map fst ?L)"
    by (force simp: image_iff)
  moreover have "distinct (map fst ?L)"
    using assms by (simp add: reg_inv_def distinct_map_filter)
  ultimately have "card {i. map_option State (host_at r i) = Some s} = length (map fst ?L)"
    by (simp only: distinct_card)
  then show ?thesis by (simp add: GetHostCountByState_def count_state_filter filter_map comp_def)
qed

lemma healthy_facts:
  fixes r :: HostRegistry
  assumes "reg_inv r"
  defines "hs \<equiv> sort_key hi_ID (Registry_GetHealthyHosts r)"
  shows "distinct (map hi_ID hs)" and "h \<in> set hs \<longleftrightarrow> host_at r (hi_ID h) = Some h \<and> State h = HostStateHealthy"
    and "int (length hs) = GetHostCountByState HostStateHealthy r"
proof -
  have "distinct (map hi_ID (Registry_GetAllHosts r))" using all_hosts_ids [OF assms(1)] assms(1) by (simp add: reg_inv_def)
  then have "distinct (map hi_ID (Registry_GetHealthyHosts r))"
    unfolding Registry_GetHealthyHosts_def Registry_GetAllHosts_def by (rule distinct_map_filter)
  moreover have "mset (map hi_ID hs) = mset (map hi_ID (Registry_GetHealthyHosts r))" by (simp add: hs_def)
  ultimately show "distinct (map hi_ID hs)" by (metis mset_eq_imp_distinct_iff)
  have "h \<in> set (Registry_GetAllHosts r) \<longleftrightarrow> host_at r (hi_ID h) = Some h"
    using all_hosts_at [OF assms(1), of h] GetAllHosts_ran [OF assms(1)] by (blast intro: ranI)
  then show "h \<in> set hs \<longleftrightarrow> host_at r (hi_ID h) = Some h \<and> State h = HostStateHealthy"
    by (simp add: hs_def Registry_GetHealthyHosts_def Registry_GetAllHosts_def)
  show "int (length hs) = GetHostCountByState HostStateHealthy r" by (simp add: hs_def healthy_count)
qed

end
