(* ===== verification/Host_Scaling.thy ===== *)
theory Host_Scaling
  imports Host_Manager
begin

text \<open>
  What the scaling, statistics and event operations of \<open>Host_Manager\<close> achieve: the effect of scaling
  up and down on the registry, the bounds of the decisions, the agreement of the statistics with each
  other, the events that subscribers receive, and the cases in which the code
  does less than it means to.
\<close>

subsection \<open>Scaling down\<close>

lemma scale_down_set:
  fixes t n :: int and hs :: "HostInfo list"
  assumes "0 \<le> t" and "int (length hs) \<le> n"
  shows "(\<lambda>i. hi_ID (hs ! nat i)) ` {i \<in> set [t..n - 1]. i < int (length hs)} = hi_ID ` set (drop (nat t) hs)"
proof -
  have "{i \<in> set [t..n - 1]. i < int (length hs)} = int ` {nat t..<length hs}" (is "?L = ?R")
  proof
    show "?L \<subseteq> ?R"
    proof
      fix i assume "i \<in> ?L"
      then have "i = int (nat i)" "nat i \<in> {nat t..<length hs}" using assms by auto
      then show "i \<in> ?R" by blast
    qed
    show "?R \<subseteq> ?L" using assms by auto
  qed
  then have "(\<lambda>i. hi_ID (hs ! nat i)) ` {i \<in> set [t..n - 1]. i < int (length hs)} =
      (\<lambda>j. hi_ID (hs ! j)) ` {nat t..<length hs}"
    by (simp add: image_image)
  moreover have "set (drop (nat t) hs) = (!) hs ` {nat t..<length hs}"
    by (auto simp: set_conv_nth image_iff) (metis add_diff_inverse_nat diff_less_mono not_le)
  ultimately show ?thesis by (simp add: image_image)
qed

lemma scale_down_effect:
  assumes "mgr_inv m" and "0 \<le> t" and "t < GetHostCountByState HostStateHealthy (registry m)"
    and "int (length (ch_buf (eventChan m))) + (GetHostCountByState HostStateHealthy (registry m) - t) \<le> 100"
  shows "\<exists>m'. performScaleDown now t m = (m', Ok ()) \<and> mgr_inv m' \<and>
    host_at (registry m') = host_at (registry m) |`
      (- hi_ID ` set (drop (nat t) (sort_key hi_ID (Registry_GetHealthyHosts (registry m)))))"
proof -
  let ?r = "registry m"
  let ?hs = "sort_key hi_ID (Registry_GetHealthyHosts ?r)"
  let ?is = "[t..GetHostCount ?r - 1]"
  have r: "reg_inv ?r" using assms(1) by (simp add: mgr_inv_def)
  note hs = healthy_facts [OF r]
  have len: "int (length ?hs) \<le> GetHostCount ?r"
    using length_filter_le [of "\<lambda>h. State h = HostStateHealthy" "map snd (hosts ?r)"]
    by (simp add: Registry_GetHealthyHosts_def GetHostCount_def)
  have pres: "\<forall>i\<in>set ?is. i < int (length ?hs) \<longrightarrow> hi_ID (?hs ! nat i) \<in> dom (host_at ?r)"
  proof (intro ballI impI)
    fix i assume "i \<in> set ?is" "i < int (length ?hs)"
    then have "?hs ! nat i \<in> set ?hs" using assms(2) by (intro nth_mem) (simp add: nat_less_iff)
    then show "hi_ID (?hs ! nat i) \<in> dom (host_at ?r)" using hs(2) by blast
  qed
  have "filter (\<lambda>i. i < int (length ?hs)) ?is = [t..int (length ?hs) - 1]"
    by (rule sorted_distinct_set_unique) (use len in \<open>auto simp: sorted_wrt_filter\<close>)
  then have "int (length (filter (\<lambda>i. i < int (length ?hs)) ?is)) = GetHostCountByState HostStateHealthy ?r - t"
    using assms(2,3) hs(3) by simp
  then have room: "length (ch_buf (eventChan m)) + length (filter (\<lambda>i. i < int (length ?hs)) ?is) \<le> 100"
    using assms(4) by linarith
  from remove_loop_ok [OF assms(1) _ _ hs(1) pres room, of now] assms(2) obtain m'
    where "remove_loop now ?hs ?is m = (m', Ok ())" "mgr_inv m'"
      "host_at (registry m') = host_at ?r |` (- hi_ID ` set (drop (nat t) ?hs))"
    unfolding scale_down_set [OF assms(2) len] by auto
  moreover have "performScaleDown now t m = remove_loop now ?hs ?is m"
    using assms(3) len hs(3) by (simp add: performScaleDown_def Let_def)
  ultimately show ?thesis by auto
qed

text \<open>
  C26: scaling down leaves exactly the target number of healthy hosts. When the event channel has
  room for the removals, \<^verbatim>\<open>performScaleDown\<close> succeeds; it removes healthy hosts only,
  keeps those with the smallest ids and all hosts in other states, and ends with \<open>t\<close>
  healthy hosts.
\<close>

theorem scale_down_leaves_target:
  assumes "mgr_inv m" and "0 \<le> t" and "t < GetHostCountByState HostStateHealthy (registry m)"
    and "int (length (ch_buf (eventChan m))) + (GetHostCountByState HostStateHealthy (registry m) - t) \<le> 100"
  shows "\<exists>m'. performScaleDown now t m = (m', Ok ()) \<and>
    GetHostCountByState HostStateHealthy (registry m') = t \<and>
    (\<forall>i h. host_at (registry m') i = Some h \<longleftrightarrow> host_at (registry m) i = Some h \<and>
      (State h = HostStateHealthy \<longrightarrow>
        h \<in> set (take (nat t) (sort_key hi_ID (Registry_GetHealthyHosts (registry m))))))"
proof -
  let ?r = "registry m"
  let ?hs = "sort_key hi_ID (Registry_GetHealthyHosts ?r)"
  have r: "reg_inv ?r" using assms(1) by (simp add: mgr_inv_def)
  note hs = healthy_facts [OF r]
  from scale_down_effect [OF assms, of now] obtain m'
    where m': "performScaleDown now t m = (m', Ok ())" "mgr_inv m'"
      "host_at (registry m') = host_at ?r |` (- hi_ID ` set (drop (nat t) ?hs))" by blast
  have dj: "hi_ID ` set (take (nat t) ?hs) \<inter> hi_ID ` set (drop (nat t) ?hs) = {}"
    using hs(1) by (metis append_take_drop_id distinct_append list.set_map map_append)
  have sets: "set ?hs = set (take (nat t) ?hs) \<union> set (drop (nat t) ?hs)"
    by (metis append_take_drop_id set_append)
  have at: "host_at (registry m') i = Some h \<longleftrightarrow> host_at ?r i = Some h \<and>
      (State h = HostStateHealthy \<longrightarrow> h \<in> set (take (nat t) ?hs))" for i h
  proof (cases "host_at ?r i = Some h")
    case True
    then have i: "hi_ID h = i" by (rule reg_inv_ID [OF r])
    have "i \<in> hi_ID ` set (drop (nat t) ?hs) \<longleftrightarrow> State h = HostStateHealthy \<and> h \<notin> set (take (nat t) ?hs)"
    proof
      assume "i \<in> hi_ID ` set (drop (nat t) ?hs)"
      then obtain g where g: "g \<in> set (drop (nat t) ?hs)" "hi_ID g = i" by auto
      with sets hs(2) [of g] True have "g = h" "State h = HostStateHealthy" by auto
      with g dj show "State h = HostStateHealthy \<and> h \<notin> set (take (nat t) ?hs)" by blast
    next
      assume "State h = HostStateHealthy \<and> h \<notin> set (take (nat t) ?hs)"
      with hs(2) [of h] True i sets show "i \<in> hi_ID ` set (drop (nat t) ?hs)" by blast
    qed
    with True show ?thesis by (auto simp: m'(3) restrict_map_def)
  qed (simp add: m'(3) restrict_map_def)
  have "{i. map_option State (host_at (registry m') i) = Some HostStateHealthy} = hi_ID ` set (take (nat t) ?hs)"
  proof -
    have "h \<in> set (take (nat t) ?hs) \<Longrightarrow> host_at ?r (hi_ID h) = Some h \<and> State h = HostStateHealthy" for h
      using sets hs(2) by blast
    with at reg_inv_ID [OF r] show ?thesis by (auto simp: image_iff) blast+
  qed
  moreover have "card (hi_ID ` set (take (nat t) ?hs)) = nat t"
  proof -
    have "distinct (map hi_ID (take (nat t) ?hs))" using hs(1) by (simp add: take_map [symmetric])
    then have "card (set (map hi_ID (take (nat t) ?hs))) = length (take (nat t) ?hs)" by (simp only: distinct_card length_map)
    then show ?thesis using assms(3) hs(3) by simp
  qed
  moreover have "reg_inv (registry m')" using m'(2) by (simp add: mgr_inv_def)
  ultimately have "GetHostCountByState HostStateHealthy (registry m') = t"
    using assms(2) by (simp add: count_state_card)
  with m'(1) at show ?thesis by blast
qed

definition demo_manager :: HostManager where
  "demo_manager = (NewHostManager demo_config)\<lparr>registry :=
     \<lparr>hosts = [(''b'', (demo_host ''b'')\<lparr>State := HostStateHealthy\<rparr>), (''a'', (demo_host ''a'')\<lparr>State := HostStateHealthy\<rparr>)],
      reg_config = demo_reg_config, reg_stopped = False\<rparr>\<rparr>"

lemma demo_manager_facts:
  "mgr_inv demo_manager" "GetHostCountByState HostStateHealthy (registry demo_manager) = 2"
  "ch_buf (eventChan demo_manager) = []"
proof -
  have "reg_inv (registry demo_manager)"
    by (simp add: reg_inv_def demo_manager_def)
  then show "mgr_inv demo_manager"
    unfolding demo_manager_def by (intro mgr_inv_registry mgr_inv_New) simp
  show "GetHostCountByState HostStateHealthy (registry demo_manager) = 2"
    by (simp add: GetHostCountByState_def demo_manager_def)
  show "ch_buf (eventChan demo_manager) = []"
    by (simp add: demo_manager_def NewHostManager_def Let_def chan_make_def)
qed

theorem scale_down_leaves_target_witness:
  "\<exists>m'. performScaleDown 9 1 demo_manager = (m', Ok ()) \<and>
    GetHostCountByState HostStateHealthy (registry m') = 1 \<and>
    (\<forall>i h. host_at (registry m') i = Some h \<longleftrightarrow> host_at (registry demo_manager) i = Some h \<and>
      (State h = HostStateHealthy \<longrightarrow>
        h \<in> set (take (nat 1) (sort_key hi_ID (Registry_GetHealthyHosts (registry demo_manager))))))"
  by (rule scale_down_leaves_target) (simp_all add: demo_manager_facts)

subsection \<open>Scaling up\<close>

lemma scaled_host_ID_inj: "hi_ID (scaled_host now i) = hi_ID (scaled_host now j) \<Longrightarrow> i = j"
  by (simp add: scaled_host_def itoa_inj)

lemma scale_up_reaches_target:
  assumes "mgr_inv m" and "GetHostCount (registry m) < t"
    and "\<forall>i. hi_ID (scaled_host now i) \<notin> dom (host_at (registry m))"
  shows "\<exists>m'. performScaleUp now t m = (m', Ok ()) \<and> GetHostCount (registry m') = t"
proof -
  let ?hs = "map (scaled_host now) [GetHostCount (registry m)..t - 1]"
  have "distinct (map hi_ID ?hs)"
    by (auto simp: distinct_map intro!: inj_onI dest: scaled_host_ID_inj)
  moreover have "dom (host_at (registry m)) \<inter> hi_ID ` set ?hs = {}" using assms(3) by auto
  ultimately have "GetHostCount (register_all now ?hs (registry m)) = t"
    using register_all_count [of "registry m" ?hs now] assms(1,2) by (simp add: mgr_inv_def)
  with assms(2) show ?thesis by (simp add: performScaleUp_def Let_def)
qed

subsection \<open>Decisions\<close>

text \<open>
  Decisions on the load stay within the configured bounds. With a positive step a decision
  to scale up has a target above the current number of hosts and at most \<^verbatim>\<open>MaxHosts\<close>, a decision
  to scale down has one below the current number and at least \<^verbatim>\<open>MinHosts\<close>.
\<close>

theorem load_decision_bounds:
  assumes "0 < ScaleStep sc" and "d = load_decision sc load hostCount healthyCount"
  shows "(sd_Action d = ''scale_up'' \<longrightarrow> hostCount < sd_TargetCount d \<and> sd_TargetCount d \<le> sc_MaxHosts sc) \<and>
    (sd_Action d = ''scale_down'' \<longrightarrow> sc_MinHosts sc \<le> sd_TargetCount d \<and> sd_TargetCount d < hostCount) \<and>
    sd_Action d \<in> {''none'', ''scale_up'', ''scale_down''}"
  using assms(1) unfolding assms(2)
  by (simp add: load_decision_def Let_def go_min_def go_max_def no_decision_def)

theorem load_decision_bounds_witness:
  "sd_TargetCount (load_decision demo_scaling 95 4 4) \<le> 10 \<and> 4 < sd_TargetCount (load_decision demo_scaling 95 4 4)"
  using load_decision_bounds [of demo_scaling "load_decision demo_scaling 95 4 4" 95 4 4]
  by (simp add: demo_scaling_def load_decision_def no_decision_def go_min_def)

text \<open>The cost optimiser looks at the budget only and goes below \<^verbatim>\<open>MinHosts\<close>.\<close>

lemma cost_decision_ignores_min:
  assumes "mc_ScalingConfig (config m) = Some sc" and "ScaleStrategy sc = ''cost_optimized''"
    and "costAnalyzer m = Some ca" and "EnableCostOptimization ca"
    and "of_int (sc_MinHosts sc) * CostPerHostHour ca > BudgetLimit ca"
    and "CooldownPeriod sc \<le> since now (lastScaleAction m)" and "TimeBasedRules sc = []"
  shows "\<exists>d. makeScalingDecision now day clock m l p (sc_MinHosts sc) healthy = Ok d \<and>
    sd_Action d = ''scale_down'' \<and> sd_TargetCount d = sc_MinHosts sc - 1"
  using assms by (simp add: makeScalingDecision_def checkTimeBasedRules_def no_decision_def OptimizeCost_def Let_def)

subsection \<open>Prediction\<close>

lemma sum_history_eq: "sum_history vs a n = (a + sum_list vs, n + int (length vs))"
  by (induction vs a n rule: sum_history.induct) auto

lemma PredictLoad_average: "lp_history lp \<noteq> [] \<Longrightarrow> PredictLoad lp = sum_list (lp_history lp) / length (lp_history lp)"
  by (simp add: PredictLoad_def sum_history_eq)

text \<open>After any number of samples the predictor holds the last 100 of them.\<close>

lemma AddHistory_last:
  "lp_history (fold AddHistory vs (NewLoadPredictor w)) = drop (length vs - 100) vs \<and>
    lp_maxHistory (fold AddHistory vs (NewLoadPredictor w)) = 100"
proof (induction vs rule: rev_induct)
  case Nil
  show ?case by (simp add: NewLoadPredictor_def)
next
  case (snoc v vs)
  have "Suc (length vs) - 100 = Suc (length vs - 100)" if "100 \<le> length vs" using that by simp
  with snoc show ?case
    by (cases "100 \<le> length vs") (simp_all add: AddHistory_def Let_def drop_Suc tl_drop)
qed

subsection \<open>Statistics\<close>

text \<open>
  The statistics agree with each other. The host counts that \<^verbatim>\<open>GetStats\<close> reports equal those of the
  nested report of the health monitor, which counts in a pass of its own, and the reported total
  is the sum of the counts per state.
\<close>

theorem stats_agree:
  "\<exists>hs. map_of (GetStats m) ''health_status'' = Some (StatStatus hs) \<and>
    map_of (GetStats m) ''total_hosts'' = map_option StatInt (map_of hs ''total'') \<and>
    map_of (GetStats m) ''healthy_hosts'' = map_option StatInt (map_of hs ''healthy'') \<and>
    map_of (GetStats m) ''unhealthy_hosts'' = map_option StatInt (map_of hs ''unhealthy'') \<and>
    map_of (GetStats m) ''offline_hosts'' = map_option StatInt (map_of hs ''offline'') \<and>
    map_of (GetStats m) ''maintenance_hosts'' = map_option StatInt (map_of hs ''maintenance'') \<and>
    map_of hs ''total'' = Some (\<Sum>s\<leftarrow>[HostStateUnknown, HostStateHealthy, HostStateUnhealthy, HostStateOffline,
      HostStateMaintenance]. GetHostCountByState s (registry m))"
proof -
  note counts = GetHealthStatus_state [of HostStateHealthy] GetHealthStatus_state [of HostStateUnhealthy]
    GetHealthStatus_state [of HostStateOffline] GetHealthStatus_state [of HostStateMaintenance]
  show ?thesis
    by (rule exI [of _ "GetHealthStatus (registry m)"])
      (use counts counts_partition [of "registry m"] in
        \<open>auto simp: GetStats_def Let_def GetHealthStatus_total split: option.split\<close>)
qed

subsection \<open>Subscribers\<close>

definition Manager_receive :: "string \<Rightarrow> HostManager \<Rightarrow> HostManager" where
  "Manager_receive i m = m\<lparr>subscribers := receive_from i (subscribers m)\<rparr>"

interpretation manager_bus: event_bus mgr_inv "\<lambda>m. map_of (subscribers m)" 50
  Manager_Subscribe Manager_Unsubscribe Manager_dispatchEvent Manager_receive
proof unfold_locales
  fix m :: HostManager and i :: string and e :: ManagerEvent
  assume inv: "mgr_inv m"
  then have s: "subs_inv 50 (subscribers m)" by (simp add: mgr_inv_def)
  have upd: "subs_inv 50 ss \<Longrightarrow> mgr_inv (m\<lparr>subscribers := ss\<rparr>)" for ss using inv by (simp add: mgr_inv_def)
  show "mgr_inv (Manager_Subscribe i m) \<and>
      map_of (subscribers (Manager_Subscribe i m)) = (map_of (subscribers m))(i \<mapsto> chan_make 50)"
    using upd [OF subs_inv_put [OF s]] by (simp add: Manager_Subscribe_def)
  show "\<exists>m'. Manager_Unsubscribe i m = Ok m' \<and> mgr_inv m' \<and>
      map_of (subscribers m') = (map_of (subscribers m))(i := None)"
    using inv upd [OF subs_inv_del [OF s, of i]] subs_inv_open [OF s, of i]
    by (cases "map_of (subscribers m) i") (auto simp: Manager_Unsubscribe_def)
  show "\<exists>m'. Manager_dispatchEvent e m = Ok m' \<and> mgr_inv m' \<and>
      (\<forall>i. map_option ch_buf (map_of (subscribers m') i) =
        map_option (offer 50 e \<circ> ch_buf) (map_of (subscribers m) i))"
    using upd dispatch_all_ok [OF s, of e, where 'x = host_error] by (auto simp: Manager_dispatchEvent_def)
  show "mgr_inv (Manager_receive i m) \<and>
      (\<forall>j. map_option ch_buf (map_of (subscribers (Manager_receive i m)) j) =
        map_option ((if j = i then tl else (\<lambda>l. l)) \<circ> ch_buf) (map_of (subscribers m) j))"
    using upd receive_from_ok [OF s, of i] by (simp add: Manager_receive_def)
qed

lemma manager_subscriber_gets_all:
  assumes "mgr_inv m" and "keeps_up 50 i xs []"
  shows "\<exists>m' c. bus_run Manager_Subscribe Manager_Unsubscribe Manager_dispatchEvent Manager_receive
      (pre @ Subscribe i # xs) m = Ok m' \<and>
    map_of (subscribers m') i = Some c \<and> length (ch_buf c) \<le> 50 \<and>
    received 50 i xs (Some []) @ ch_buf c = dispatched xs"
  by (rule manager_bus.subscriber_gets_all_after [OF assms])

text \<open>
  A maintenance round cancels live subscriptions. \<^verbatim>\<open>cleanupResources\<close> means to
  remove closed channels, but it receives from every channel and removes those that had a value: every
  subscriber with an undelivered event loses its subscription without its channel being
  closed, and exactly the subscribers without one stay.
\<close>

theorem cleanup_drops_pending:
  assumes "mgr_inv m"
  shows "map_of (subscribers (cleanupResources m)) i =
    (case map_of (subscribers m) i of
       None \<Rightarrow> None
     | Some ch \<Rightarrow> if ch_buf ch = [] then Some ch else None)"
proof -
  have wf: "gm_wf (subscribers m)" and op: "\<And>i ch. (i, ch) \<in> set (subscribers m) \<Longrightarrow> \<not> ch_closed ch"
    using assms by (auto simp: mgr_inv_def subs_inv_def)
  let ?F = "filter (\<lambda>(i, ch). \<not> (ch_buf ch \<noteq> [] \<or> ch_closed ch)) (subscribers m)"
  have F: "gm_wf ?F" using wf by (rule distinct_map_filter)
  show ?thesis
  proof (cases "map_of ?F i")
    case (Some ch)
    then have "(i, ch) \<in> set (subscribers m)" "ch_buf ch = []" by (auto dest: map_of_SomeD)
    with Some wf show ?thesis by (simp add: cleanupResources_def)
  next
    case None
    then have "ch_buf ch \<noteq> []" if "map_of (subscribers m) i = Some ch" for ch
      using that F op [OF map_of_SomeD [OF that]] map_of_SomeD [OF that]
      by (auto simp: map_of_eq_None_iff image_iff)
    with None show ?thesis by (simp add: cleanupResources_def split: option.split)
  qed
qed

theorem cleanup_drops_pending_witness:
  "map_of (subscribers (cleanupResources (demo_manager\<lparr>subscribers :=
      [(''x'', (chan_make 50)\<lparr>ch_buf := [\<lparr>me_Type = ''host_added'', me_HostID = ''a'', me_HostInfo = None,
         me_Timestamp = 1, me_Details = []\<rparr>]\<rparr>)]\<rparr>))) ''x'' = None"
  using cleanup_drops_pending [of "demo_manager\<lparr>subscribers :=
      [(''x'', (chan_make 50)\<lparr>ch_buf := [\<lparr>me_Type = ''host_added'', me_HostID = ''a'', me_HostInfo = None,
         me_Timestamp = 1, me_Details = []\<rparr>]\<rparr>)]\<rparr>" "''x''"] demo_manager_facts(1)
  by (simp add: mgr_inv_def subs_inv_def chan_make_def)

text \<open>
  \<^verbatim>\<open>UpdateHost\<close> holds the manager's lock while it waits for room in the event channel, and the
  dispatcher, which makes room, needs the lock for the event it has taken out: with a full
  channel both wait.
\<close>

lemma full_channel_deadlock:
  assumes "mgr_inv m" and "host_at (registry m) i = Some h" and "well_typed u"
    and "length (ch_buf (eventChan m)) = 100"
  shows "snd (UpdateHost now i u m) = Blocks \<and> rw_rlock Writing = Blocks"
proof -
  obtain h' where h': "apply_updates u h = (h', True)"
    using apply_updates_typed [of u h] assms(3) by (cases "apply_updates u h") auto
  have "send_event ev (m\<lparr>registry := r\<rparr>) = (m\<lparr>registry := r\<rparr>, Blocks)" for ev r
    using assms(1,4) by (simp add: send_event_def chan_send_def mgr_inv_def)
  with assms(2) h' show ?thesis by (simp add: UpdateHost_def Registry_GetHost_def Let_def)
qed

end
