(* ===== verification/Quic_Protocol.thy ===== *)
theory Quic_Protocol
  imports Big_Endian Utf8
begin

text \<open>
  The message format of the QUIC transport, \<^verbatim>\<open>pkg/quic/protocol.go\<close> with the types of
  \<^verbatim>\<open>pkg/quic/types.go\<close>: a header of fifteen bytes (version, type, length of the data, time stamp,
  length of the id), the id and the data.

  A stream that is read is the list of the bytes it delivers before it ends or fails; writing to a stream
  is an argument, a function on the state of the stream that returns the error, if any. A nil slice of
  bytes is the empty list.

  Reading accepts exactly the frames of messages within the limits (\<open>ReadMessage_iff\<close>), so that writing and reading
  are inverse; the length of an id is not checked against its byte (\<open>long_id_is_lost\<close>).
\<close>

subsection \<open>Types\<close>

type_synonym MessageType = u8

definition MessageTypeMetrics :: MessageType where "MessageTypeMetrics = 1"
definition MessageTypeHeartbeat :: MessageType where "MessageTypeHeartbeat = 2"
definition MessageTypeSubscribe :: MessageType where "MessageTypeSubscribe = 3"
definition MessageTypeUnsubscribe :: MessageType where "MessageTypeUnsubscribe = 4"
definition MessageTypeQuery :: MessageType where "MessageTypeQuery = 5"
definition MessageTypeResponse :: MessageType where "MessageTypeResponse = 6"
definition MessageTypeError :: MessageType where "MessageTypeError = 7"
definition MessageTypeAck :: MessageType where "MessageTypeAck = 8"

lemmas message_types = MessageTypeMetrics_def MessageTypeHeartbeat_def MessageTypeSubscribe_def
  MessageTypeUnsubscribe_def MessageTypeQuery_def MessageTypeResponse_def MessageTypeError_def MessageTypeAck_def

text \<open>A string is converted to and from its bytes.\<close>

definition bytes_of :: "string \<Rightarrow> u8 list" where
  "bytes_of s = map (\<lambda>c. of_nat (of_char c)) s"

definition string_of :: "u8 list \<Rightarrow> string" where
  "string_of bs = map (\<lambda>b. char_of (unat b)) bs"

record Message =
  msg_Type :: MessageType
  msg_ID :: string
  msg_Timestamp :: int
  msg_Data :: "u8 list"

record Subscription =
  sub_HostID :: string
  sub_StreamID :: string
  sub_CreatedAt :: time
  sub_LastSeen :: time

record ProtocolHandler =
  maxMessageSize :: int

text \<open>
  The errors of reading, which the callers only log, and the others, with the text of the error they wrap.
  \<open>Plain\<close> is an error of a library that is returned as it is.
\<close>

datatype read_error = ShortHeader | BadVersion u8 | LengthTooLarge int int | ShortID | ShortData

datatype quic_error = MessageTooLarge int int | WriteFailed string | Plain string | BadMetrics string
  | BadSubscription string | UnknownType u8 | MetricsUndecoded quic_error | SubscriptionUndecoded quic_error
  | MetricsFailed string | HeartbeatFailed string | SubscribeFailed string | UnsubscribeFailed string

definition label :: "nat list \<Rightarrow> string" where
  "label rs = string_of_runes rs @ '': ''"

text \<open>\<^verbatim>\<open>Error()\<close>: the formats of the source, whose text is given by its code points.\<close>

primrec error_text :: "quic_error \<Rightarrow> string" where
  "error_text (MessageTooLarge n limit) =
     label [0x6d88, 0x606f, 0x5927, 0x5c0f, 0x8d85, 0x8fc7, 0x9650, 0x5236] @ itoa n @ '' > '' @ itoa limit"
| "error_text (WriteFailed e) = label [0x5199, 0x5165, 0x6d88, 0x606f, 0x5931, 0x8d25] @ e"
| "error_text (Plain e) = e"
| "error_text (BadMetrics e) =
     label [0x89e3, 0x7801, 0x6307, 0x6807, 0x6570, 0x636e, 0x5931, 0x8d25] @ e"
| "error_text (BadSubscription e) =
     label [0x89e3, 0x7801, 0x8ba2, 0x9605, 0x8bf7, 0x6c42, 0x5931, 0x8d25] @ e"
| "error_text (UnknownType t) = label [0x672a, 0x77e5, 0x6d88, 0x606f, 0x7c7b, 0x578b] @ itoa (uint t)"
| "error_text (MetricsUndecoded e) =
     label [0x89e3, 0x7801, 0x6307, 0x6807, 0x6570, 0x636e, 0x5931, 0x8d25] @ error_text e"
| "error_text (SubscriptionUndecoded e) =
     label [0x89e3, 0x7801, 0x8ba2, 0x9605, 0x8bf7, 0x6c42, 0x5931, 0x8d25] @ error_text e"
| "error_text (MetricsFailed e) =
     label [0x5904, 0x7406, 0x6307, 0x6807, 0x6570, 0x636e, 0x5931, 0x8d25] @ e"
| "error_text (HeartbeatFailed e) = label [0x5904, 0x7406, 0x5fc3, 0x8df3, 0x5931, 0x8d25] @ e"
| "error_text (SubscribeFailed e) = label [0x5904, 0x7406, 0x8ba2, 0x9605, 0x5931, 0x8d25] @ e"
| "error_text (UnsubscribeFailed e) =
     label [0x5904, 0x7406, 0x53d6, 0x6d88, 0x8ba2, 0x9605, 0x5931, 0x8d25] @ e"

definition ProtocolVersion :: u8 where
  "ProtocolVersion = 1"

definition MessageHeaderSize :: nat where
  "MessageHeaderSize = 15"

definition NewProtocolHandler :: "int \<Rightarrow> ProtocolHandler" where
  "NewProtocolHandler n = \<lparr>maxMessageSize = n\<rparr>"

subsection \<open>Writing and reading\<close>

text \<open>The buffer that \<^verbatim>\<open>WriteMessage\<close> fills: lengths and the time stamp are cut to their fields.\<close>

definition frame_bytes :: "Message \<Rightarrow> u8 list" where
  "frame_bytes msg =
     [ProtocolVersion, msg_Type msg]
       @ be_bytes 4 (unat (of_nat (length (msg_Data msg)) :: u32))
       @ be_bytes 8 (unat (of_int (msg_Timestamp msg) :: u64))
       @ [of_nat (length (msg_ID msg))] @ bytes_of (msg_ID msg) @ msg_Data msg"

definition WriteMessage ::
  "(u8 list \<Rightarrow> 'st \<Rightarrow> string option \<times> 'st) \<Rightarrow> ProtocolHandler \<Rightarrow> Message \<Rightarrow> 'st \<Rightarrow>
    (quic_error, unit) outcome \<times> 'st" where
  "WriteMessage write p msg st =
     (let totalSize = int (MessageHeaderSize + length (msg_ID msg) + length (msg_Data msg))
      in if totalSize > maxMessageSize p then (Err (MessageTooLarge totalSize (maxMessageSize p)), st)
         else (case write (frame_bytes msg) st of
             (Some err, st') \<Rightarrow> (Err (WriteFailed err), st')
           | (None, st') \<Rightarrow> (Ok (), st')))"

text \<open>\<^verbatim>\<open>io.ReadFull\<close>: the bytes and the rest of the stream, or an error when the stream ends before.\<close>

definition ReadFull :: "nat \<Rightarrow> u8 list \<Rightarrow> (u8 list \<times> u8 list) option" where
  "ReadFull n bs = (if n \<le> length bs then Some (take n bs, drop n bs) else None)"

definition ReadMessage :: "ProtocolHandler \<Rightarrow> u8 list \<Rightarrow> (read_error, Message \<times> u8 list) outcome" where
  "ReadMessage p stream =
     (case ReadFull MessageHeaderSize stream of
        None \<Rightarrow> Err ShortHeader
      | Some (headerBuf, stream1) \<Rightarrow>
          (let version = headerBuf ! 0
           in if version \<noteq> ProtocolVersion then Err (BadVersion version)
              else
                (let msgType = headerBuf ! 1;
                     len = be_val (take 4 (drop 2 headerBuf));
                     timestamp = sint (of_nat (be_val (take 8 (drop 6 headerBuf))) :: u64);
                     idLength = headerBuf ! 14
                 in if int len > maxMessageSize p then Err (LengthTooLarge (int len) (maxMessageSize p))
                    else
                      (case (if idLength > 0 then ReadFull (unat idLength) stream1 else Some ([], stream1)) of
                         None \<Rightarrow> Err ShortID
                       | Some (idBytes, stream2) \<Rightarrow>
                           (case (if len > 0 then ReadFull len stream2 else Some ([], stream2)) of
                              None \<Rightarrow> Err ShortData
                            | Some (data, stream3) \<Rightarrow>
                                Ok (\<lparr>msg_Type = msgType, msg_ID = string_of idBytes, msg_Timestamp = timestamp,
                                     msg_Data = data\<rparr>, stream3))))))"

subsection \<open>Messages\<close>

text \<open>Protocol buffers and JSON are arguments: \<open>marshal\<close> and \<open>unmarshal\<close> with \<open>Inl\<close> the text of an error.\<close>

definition EncodeMetrics :: "('m \<Rightarrow> string + u8 list) \<Rightarrow> 'm \<Rightarrow> (quic_error, u8 list) outcome" where
  "EncodeMetrics marshal metrics = (case marshal metrics of Inl e \<Rightarrow> Err (Plain e) | Inr d \<Rightarrow> Ok d)"

definition DecodeMetrics :: "(u8 list \<Rightarrow> string + 'm) \<Rightarrow> u8 list \<Rightarrow> (quic_error, 'm) outcome" where
  "DecodeMetrics unmarshal data = (case unmarshal data of Inl e \<Rightarrow> Err (BadMetrics e) | Inr metrics \<Rightarrow> Ok metrics)"

definition EncodeSubscription :: "(Subscription \<Rightarrow> string + u8 list) \<Rightarrow> Subscription \<Rightarrow> (quic_error, u8 list) outcome" where
  "EncodeSubscription marshal sub = (case marshal sub of Inl e \<Rightarrow> Err (Plain e) | Inr d \<Rightarrow> Ok d)"

definition DecodeSubscription :: "(u8 list \<Rightarrow> string + Subscription) \<Rightarrow> u8 list \<Rightarrow> (quic_error, Subscription) outcome" where
  "DecodeSubscription unmarshal data = (case unmarshal data of Inl e \<Rightarrow> Err (BadSubscription e) | Inr sub \<Rightarrow> Ok sub)"

definition CreateMessage :: "time \<Rightarrow> MessageType \<Rightarrow> string \<Rightarrow> u8 list \<Rightarrow> Message" where
  "CreateMessage now msgType i data = \<lparr>msg_Type = msgType, msg_ID = i, msg_Timestamp = now, msg_Data = data\<rparr>"

definition CreateMetricsMessage ::
  "('m \<Rightarrow> string + u8 list) \<Rightarrow> time \<Rightarrow> string \<Rightarrow> 'm \<Rightarrow> (quic_error, Message) outcome" where
  "CreateMetricsMessage marshal now i metrics =
     (case EncodeMetrics marshal metrics of
        Ok data \<Rightarrow> Ok (CreateMessage now MessageTypeMetrics i data)
      | Err e \<Rightarrow> Err e | Panic \<Rightarrow> Panic | Blocks \<Rightarrow> Blocks)"

definition CreateHeartbeatMessage :: "time \<Rightarrow> string \<Rightarrow> Message" where
  "CreateHeartbeatMessage now hostID = CreateMessage now MessageTypeHeartbeat hostID (bytes_of hostID)"

definition CreateSubscribeMessage ::
  "(Subscription \<Rightarrow> string + u8 list) \<Rightarrow> time \<Rightarrow> Subscription \<Rightarrow> (quic_error, Message) outcome" where
  "CreateSubscribeMessage marshal now sub =
     (case EncodeSubscription marshal sub of
        Ok data \<Rightarrow> Ok (CreateMessage now MessageTypeSubscribe (sub_HostID sub) data)
      | Err e \<Rightarrow> Err e | Panic \<Rightarrow> Panic | Blocks \<Rightarrow> Blocks)"

definition CreateErrorMessage :: "time \<Rightarrow> string \<Rightarrow> string \<Rightarrow> Message" where
  "CreateErrorMessage now i errMsg = CreateMessage now MessageTypeError i (bytes_of errMsg)"

definition CreateAckMessage :: "time \<Rightarrow> string \<Rightarrow> Message" where
  "CreateAckMessage now i = CreateMessage now MessageTypeAck i (bytes_of ''ok'')"

subsection \<open>Framing is unambiguous\<close>

lemma length_bytes_of [simp]: "length (bytes_of s) = length s"
  by (simp add: bytes_of_def)

lemma length_string_of [simp]: "length (string_of bs) = length bs"
  by (simp add: string_of_def)

lemma string_of_bytes_of [simp]: "string_of (bytes_of s) = s"
proof -
  have "char_of (unat (of_nat (of_char c) :: u8)) = c" for c
    by (simp add: unat_of_nat of_char_mod_256)
  then show ?thesis by (simp add: string_of_def bytes_of_def comp_def map_idI)
qed

lemma bytes_of_string_of [simp]: "bytes_of (string_of bs) = bs"
proof -
  have "of_nat (of_char (char_of (unat b))) = (b :: u8)" for b
    by (simp add: of_char_of word_unat_eq_iff unat_of_nat)
  then show ?thesis by (simp add: string_of_def bytes_of_def comp_def map_idI)
qed

text \<open>The messages whose fields fit and whose data the reader accepts.\<close>

definition readable :: "ProtocolHandler \<Rightarrow> Message \<Rightarrow> bool" where
  "readable p msg \<longleftrightarrow> length (msg_ID msg) \<le> 255 \<and> length (msg_Data msg) < 2 ^ 32 \<and>
     int (length (msg_Data msg)) \<le> maxMessageSize p \<and>
     - (2 ^ 63) \<le> msg_Timestamp msg \<and> msg_Timestamp msg < 2 ^ 63"

definition header_bytes :: "Message \<Rightarrow> u8 list" where
  "header_bytes msg =
     [ProtocolVersion, msg_Type msg]
       @ be_bytes 4 (unat (of_nat (length (msg_Data msg)) :: u32))
       @ be_bytes 8 (unat (of_int (msg_Timestamp msg) :: u64)) @ [of_nat (length (msg_ID msg))]"

lemma frame_split: "frame_bytes msg = header_bytes msg @ bytes_of (msg_ID msg) @ msg_Data msg"
  by (simp add: frame_bytes_def header_bytes_def)

lemma header_fields:
  "length (header_bytes msg) = 15" "header_bytes msg ! 0 = ProtocolVersion" "header_bytes msg ! 1 = msg_Type msg"
  "take 4 (drop 2 (header_bytes msg)) = be_bytes 4 (unat (of_nat (length (msg_Data msg)) :: u32))"
  "take 8 (drop 6 (header_bytes msg)) = be_bytes 8 (unat (of_int (msg_Timestamp msg) :: u64))"
  "header_bytes msg ! 14 = of_nat (length (msg_ID msg))"
  by (simp_all add: header_bytes_def nth_append drop_Cons')

lemma header_parts:
  assumes "length h = 15"
  shows "h = [h ! 0, h ! 1] @ take 4 (drop 2 h) @ take 8 (drop 6 h) @ [h ! 14]"
proof -
  have 4: "take 4 (drop 2 h) @ drop 6 h = drop 2 h" using append_take_drop_id [of 4 "drop 2 h"] by simp
  have 8: "take 8 (drop 6 h) @ drop 14 h = drop 6 h" using append_take_drop_id [of 8 "drop 6 h"] by simp
  have "take 2 h = [h ! 0, h ! 1]" "drop 14 h = [h ! 14]"
    using assms Cons_nth_drop_Suc [of 14 h]
    by (auto simp: numeral_2_eq_2 take_Suc_conv_app_nth)
  then have "[h ! 0, h ! 1] @ take 4 (drop 2 h) @ take 8 (drop 6 h) @ [h ! 14] =
      take 2 h @ take 4 (drop 2 h) @ take 8 (drop 6 h) @ drop 14 h" by (simp only:)
  also have "\<dots> = h" by (simp only: 8 4 append_take_drop_id)
  finally show ?thesis ..
qed

lemma ReadFull_append [simp]: "length a = n \<Longrightarrow> ReadFull n (a @ b) = Some (a, b)"
  by (simp add: ReadFull_def)

lemma ReadFull_Some: "ReadFull n bs = Some (a, b) \<longleftrightarrow> bs = a @ b \<and> length a = n"
  by (auto simp: ReadFull_def)

lemma u32_length [simp]: "n < 2 ^ 32 \<Longrightarrow> unat (of_nat n :: u32) = n"
  by (simp add: unat_of_nat)

lemma u8_length [simp]: "n \<le> 255 \<Longrightarrow> unat (of_nat n :: u8) = n"
  by (simp add: unat_of_nat)

lemma timestamp_roundtrip: "- (2 ^ 63) \<le> t \<Longrightarrow> t < 2 ^ 63 \<Longrightarrow> sint (of_int t :: u64) = t"
  by (simp add: signed_of_int signed_take_bit_int_eq_self)

lemma u64_be: "be_val (be_bytes 8 (unat (w :: u64))) = unat w"
  using unsigned_less [of w, where 'a = nat] by (intro be_val_of) simp

lemma u32_be: "be_val (be_bytes 4 (unat (w :: u32))) = unat w"
  using unsigned_less [of w, where 'a = nat] by (intro be_val_of) simp

text \<open>Reading nothing succeeds, so that the guards of the two optional reads do not matter.\<close>

lemma ReadFull_guarded: "(if n > 0 then ReadFull n bs else Some ([], bs)) = ReadFull n bs"
  by (simp add: ReadFull_def)

definition header_of :: "u8 list \<Rightarrow> Message \<Rightarrow> bool" where
  "header_of h msg \<longleftrightarrow> length h = 15 \<and> h ! 0 = ProtocolVersion \<and> h ! 1 = msg_Type msg \<and>
     be_val (take 4 (drop 2 h)) = length (msg_Data msg) \<and>
     sint (of_nat (be_val (take 8 (drop 6 h))) :: u64) = msg_Timestamp msg \<and>
     unat (h ! 14) = length (msg_ID msg)"

lemma ReadMessage_Ok:
  "ReadMessage p inp = Ok (msg, rest) \<longleftrightarrow>
    (\<exists>h. header_of h msg \<and> int (length (msg_Data msg)) \<le> maxMessageSize p \<and>
      inp = h @ bytes_of (msg_ID msg) @ msg_Data msg @ rest)"
proof -
  have guard: "(if (b :: u8) > 0 then ReadFull (unat b) bs else Some ([], bs)) = ReadFull (unat b) bs" for b bs
    using ReadFull_guarded [of "unat b" bs] by (simp add: word_gt_0 unat_gt_0)
  have bytes: "xs = bytes_of (msg_ID msg) \<longleftrightarrow> string_of xs = msg_ID msg" for xs
    by (metis bytes_of_string_of string_of_bytes_of)
  show ?thesis
    unfolding ReadMessage_def guard ReadFull_guarded MessageHeaderSize_def header_of_def
    by (cases msg) (fastforce simp: Let_def ReadFull_Some bytes split: option.splits prod.splits if_splits)
qed

lemma header_of_header:
  "header_of h msg \<longleftrightarrow> h = header_bytes msg \<and> length (msg_ID msg) \<le> 255 \<and> length (msg_Data msg) < 2 ^ 32 \<and>
    - (2 ^ 63) \<le> msg_Timestamp msg \<and> msg_Timestamp msg < 2 ^ 63"
  (is "_ \<longleftrightarrow> ?R")
proof
  assume "header_of h msg"
  then have h: "length h = 15" "h ! 0 = ProtocolVersion" "h ! 1 = msg_Type msg"
    "be_val (take 4 (drop 2 h)) = length (msg_Data msg)"
    "sint (of_nat (be_val (take 8 (drop 6 h))) :: u64) = msg_Timestamp msg"
    "unat (h ! 14) = length (msg_ID msg)"
    by (simp_all add: header_of_def)
  have len: "length (take 4 (drop 2 h)) = 4" "length (take 8 (drop 6 h)) = 8" using h(1) by simp_all
  have d: "length (msg_Data msg) < 2 ^ 32" using be_val_less [of "take 4 (drop 2 h)"] h(1,4) by simp
  have t: "be_val (take 8 (drop 6 h)) < 2 ^ 64" using be_val_less [of "take 8 (drop 6 h)"] h(1) by simp
  have i: "h ! 14 = of_nat (length (msg_ID msg))" by (simp flip: h(6))
  have il: "length (msg_ID msg) \<le> 255" using h(6) u8_less [of "h ! 14"] by linarith
  have "take 4 (drop 2 h) = be_bytes 4 (unat (of_nat (length (msg_Data msg)) :: u32))"
    using be_bytes_val [of "take 4 (drop 2 h)"] len(1) h(4) d by simp
  moreover have "take 8 (drop 6 h) = be_bytes 8 (unat (of_int (msg_Timestamp msg) :: u64))"
    using be_bytes_val [of "take 8 (drop 6 h)"] len(2) t by (simp add: unat_of_nat flip: h(5))
  ultimately have "h = header_bytes msg"
    using header_parts [OF h(1)] h(2,3) i by (simp add: header_bytes_def)
  moreover have "- (2 ^ 63) \<le> msg_Timestamp msg \<and> msg_Timestamp msg < 2 ^ 63"
    using sint_ge [of "of_nat (be_val (take 8 (drop 6 h))) :: u64"]
      sint_lt [of "of_nat (be_val (take 8 (drop 6 h))) :: u64"] h(5) by simp
  ultimately show ?R using d il by simp
next
  assume ?R
  then show "header_of h msg"
    by (simp add: header_of_def header_fields [simplified] be_val_of u64_be timestamp_roundtrip)
qed

text \<open>
  C28: writing and reading messages are inverse. \<^verbatim>\<open>ReadMessage\<close> returns a message and leaves a rest
  of the stream exactly when the stream begins with the frame that \<^verbatim>\<open>WriteMessage\<close> writes for the
  message, its id has at most 255 bytes, its data fit the length field and the configured limit, and
  its time stamp is a 64-bit number.
\<close>

theorem ReadMessage_iff:
  "ReadMessage p inp = Ok (msg, rest) \<longleftrightarrow> inp = frame_bytes msg @ rest \<and> readable p msg"
  by (auto simp: ReadMessage_Ok header_of_header frame_split readable_def)

text \<open>
  An id of 256 bytes is written with length byte 0: the reader loses it and takes the first bytes of the id for data.
\<close>

lemma long_id_is_lost:
  assumes "length (msg_ID msg) = 256" and "length (msg_Data msg) < 2 ^ 32"
    and "int (length (msg_Data msg)) \<le> maxMessageSize p"
    and "- (2 ^ 63) \<le> msg_Timestamp msg" and "msg_Timestamp msg < 2 ^ 63"
  shows "ReadMessage p (frame_bytes msg) =
    Ok (msg\<lparr>msg_ID := [], msg_Data := take (length (msg_Data msg)) (bytes_of (msg_ID msg) @ msg_Data msg)\<rparr>,
        drop (length (msg_Data msg)) (bytes_of (msg_ID msg) @ msg_Data msg))"
proof -
  let ?n = "length (msg_Data msg)" and ?b = "bytes_of (msg_ID msg) @ msg_Data msg"
  define d e where "d = take ?n ?b" and "e = drop ?n ?b"
  have de: "?b = d @ e" "length d = ?n" unfolding d_def e_def by (rule append_take_drop_id [symmetric]) simp
  let ?msg = "msg\<lparr>msg_ID := [], msg_Data := d\<rparr>"
  have "(of_nat 256 :: u8) = 0" by simp
  then have "header_bytes ?msg = header_bytes msg" using assms(1) de(2) by (simp add: header_bytes_def)
  then have "frame_bytes msg = frame_bytes ?msg @ e"
    using de(1) by (simp add: frame_split bytes_of_def [of "[]"])
  moreover have "readable p ?msg" using assms de(2) by (simp add: readable_def)
  ultimately have "ReadMessage p (frame_bytes msg) = Ok (?msg, e)"
    by (simp add: ReadMessage_Ok header_of_header frame_split readable_def)
  then show ?thesis by (simp only: d_def e_def)
qed

end
