(* ===== verification/Quic_Server.thy ===== *)
theory Quic_Server
  imports Quic_Protocol
begin

text \<open>
  The QUIC server and the default data handler, \<^verbatim>\<open>pkg/quic/server.go\<close> and \<^verbatim>\<open>pkg/quic/handler.go\<close>.

  What is outside is gathered in \<open>quic_env\<close>: protocol buffers and JSON, and the streams and connections
  of the QUIC library, which act on their own state \<open>'st\<close>. The application behind the data handler has a
  state \<open>'h\<close>. A goroutine is the sequence of its steps, and what it sees of the others is an argument: the
  clock, and whether the context has been cancelled. The map of connections is a list, in the order in
  which \<^verbatim>\<open>Range\<close> visits it. Certificates, the listener and waiting for goroutines are not modelled.

  A stream handler handles every complete message of its stream, in order, and then ends
  (\<open>handleStream_in_order\<close>), and it answers or reports each one (\<open>handleStream_accounts\<close>).
\<close>

subsection \<open>Data handler\<close>

text \<open>A method returns the text of its error, if any.\<close>

record ('m, 'h) DataHandler =
  dh_HandleMetrics :: "'m \<Rightarrow> 'h \<Rightarrow> string option \<times> 'h"
  dh_HandleHeartbeat :: "string \<Rightarrow> 'h \<Rightarrow> string option \<times> 'h"
  dh_HandleSubscribe :: "string \<Rightarrow> string \<Rightarrow> 'h \<Rightarrow> string option \<times> 'h"
  dh_HandleUnsubscribe :: "string \<Rightarrow> string \<Rightarrow> 'h \<Rightarrow> string option \<times> 'h"

text \<open>\<open>None\<close> is a nil function.\<close>

record ('m, 'h) DefaultDataHandler =
  metricsHandler :: "('m \<Rightarrow> 'h \<Rightarrow> string option \<times> 'h) option"
  heartbeatHandler :: "(string \<Rightarrow> 'h \<Rightarrow> string option \<times> 'h) option"
  subscribeHandler :: "(string \<Rightarrow> string \<Rightarrow> 'h \<Rightarrow> string option \<times> 'h) option"
  unsubscribeHandler :: "(string \<Rightarrow> string \<Rightarrow> 'h \<Rightarrow> string option \<times> 'h) option"

text \<open>The initial functions only write to the log.\<close>

definition NewDefaultDataHandler :: "('m, 'h) DefaultDataHandler" where
  "NewDefaultDataHandler =
     \<lparr>metricsHandler = Some (\<lambda>metrics h. (None, h)), heartbeatHandler = Some (\<lambda>hostID h. (None, h)),
      subscribeHandler = Some (\<lambda>hostID streamID h. (None, h)),
      unsubscribeHandler = Some (\<lambda>hostID streamID h. (None, h))\<rparr>"

definition SetMetricsHandler ::
  "('m \<Rightarrow> 'h \<Rightarrow> string option \<times> 'h) option \<Rightarrow> ('m, 'h) DefaultDataHandler \<Rightarrow> ('m, 'h) DefaultDataHandler" where
  "SetMetricsHandler f d = d\<lparr>metricsHandler := f\<rparr>"

definition SetHeartbeatHandler ::
  "(string \<Rightarrow> 'h \<Rightarrow> string option \<times> 'h) option \<Rightarrow> ('m, 'h) DefaultDataHandler \<Rightarrow> ('m, 'h) DefaultDataHandler" where
  "SetHeartbeatHandler f d = d\<lparr>heartbeatHandler := f\<rparr>"

definition SetSubscribeHandler ::
  "(string \<Rightarrow> string \<Rightarrow> 'h \<Rightarrow> string option \<times> 'h) option \<Rightarrow> ('m, 'h) DefaultDataHandler \<Rightarrow>
    ('m, 'h) DefaultDataHandler" where
  "SetSubscribeHandler f d = d\<lparr>subscribeHandler := f\<rparr>"

definition SetUnsubscribeHandler ::
  "(string \<Rightarrow> string \<Rightarrow> 'h \<Rightarrow> string option \<times> 'h) option \<Rightarrow> ('m, 'h) DefaultDataHandler \<Rightarrow>
    ('m, 'h) DefaultDataHandler" where
  "SetUnsubscribeHandler f d = d\<lparr>unsubscribeHandler := f\<rparr>"

definition HandleMetrics :: "('m, 'h) DefaultDataHandler \<Rightarrow> 'm \<Rightarrow> 'h \<Rightarrow> string option \<times> 'h" where
  "HandleMetrics d metrics h = (case metricsHandler d of Some f \<Rightarrow> f metrics h | None \<Rightarrow> (None, h))"

definition HandleHeartbeat :: "('m, 'h) DefaultDataHandler \<Rightarrow> string \<Rightarrow> 'h \<Rightarrow> string option \<times> 'h" where
  "HandleHeartbeat d hostID h = (case heartbeatHandler d of Some f \<Rightarrow> f hostID h | None \<Rightarrow> (None, h))"

definition HandleSubscribe :: "('m, 'h) DefaultDataHandler \<Rightarrow> string \<Rightarrow> string \<Rightarrow> 'h \<Rightarrow> string option \<times> 'h" where
  "HandleSubscribe d hostID streamID h =
     (case subscribeHandler d of Some f \<Rightarrow> f hostID streamID h | None \<Rightarrow> (None, h))"

definition HandleUnsubscribe :: "('m, 'h) DefaultDataHandler \<Rightarrow> string \<Rightarrow> string \<Rightarrow> 'h \<Rightarrow> string option \<times> 'h" where
  "HandleUnsubscribe d hostID streamID h =
     (case unsubscribeHandler d of Some f \<Rightarrow> f hostID streamID h | None \<Rightarrow> (None, h))"

text \<open>The default handler as the interface that the server calls.\<close>

definition default_handler :: "('m, 'h) DefaultDataHandler \<Rightarrow> ('m, 'h) DataHandler" where
  "default_handler d = \<lparr>dh_HandleMetrics = HandleMetrics d, dh_HandleHeartbeat = HandleHeartbeat d,
     dh_HandleSubscribe = HandleSubscribe d, dh_HandleUnsubscribe = HandleUnsubscribe d\<rparr>"

subsection \<open>Server state\<close>

record Statistics =
  ConnectionsTotal :: int
  ConnectionsActive :: int
  StreamsTotal :: int
  StreamsActive :: int
  MessagesReceived :: int
  MessagesSent :: int
  BytesReceived :: int
  BytesSent :: int
  ErrorsTotal :: int
  Uptime :: duration
  LastUpdateTime :: time

record ('m, 'h, 'c, 'k, 'st) quic_env =
  env_marshal :: "'m \<Rightarrow> string + u8 list"
  env_unmarshal :: "u8 list \<Rightarrow> string + 'm"
  env_HostId :: "'m \<Rightarrow> string"
  env_unmarshal_sub :: "u8 list \<Rightarrow> string + Subscription"
  env_write :: "'k \<Rightarrow> u8 list \<Rightarrow> 'st \<Rightarrow> string option \<times> 'st"
  env_open :: "'c \<Rightarrow> 'st \<Rightarrow> (string + 'k) \<times> 'st"
  env_close :: "'k \<Rightarrow> 'st \<Rightarrow> 'st"
  env_close_conn :: "'c \<Rightarrow> 'st \<Rightarrow> 'st"
  env_close_listener :: "'st \<Rightarrow> 'st"
  env_handler :: "('m, 'h) DataHandler"

text \<open>\<open>sv_done\<close> says that the context of the server has been cancelled.\<close>

record ('h, 'c, 'st) Server =
  sv_protocol :: ProtocolHandler
  sv_connections :: "(string, 'c) gomap"
  sv_subscriptions :: "string \<rightharpoonup> Subscription"
  sv_statistics :: Statistics
  sv_done :: bool
  sv_running :: int
  sv_app :: 'h
  sv_streams :: 'st

type_synonym ('h, 'c, 'st) handled = "quic_error option \<times> ('h, 'c, 'st) Server"

text \<open>The server that \<^verbatim>\<open>NewServer\<close> returns once the certificate and the listener are there.\<close>

definition NewServer :: "int \<Rightarrow> time \<Rightarrow> 'h \<Rightarrow> 'st \<Rightarrow> ('h, 'c, 'st) Server" where
  "NewServer MaxMessageSize now h st =
     \<lparr>sv_protocol = NewProtocolHandler MaxMessageSize, sv_connections = [], sv_subscriptions = Map.empty,
      sv_statistics = \<lparr>ConnectionsTotal = 0, ConnectionsActive = 0, StreamsTotal = 0, StreamsActive = 0,
        MessagesReceived = 0, MessagesSent = 0, BytesReceived = 0, BytesSent = 0, ErrorsTotal = 0,
        Uptime = 0, LastUpdateTime = now\<rparr>,
      sv_done = False, sv_running = 0, sv_app = h, sv_streams = st\<rparr>"

text \<open>\<open>None\<close> is the error of a server that already runs, or does not run.\<close>

definition Server_Start :: "('h, 'c, 'st) Server \<Rightarrow> ('h, 'c, 'st) Server option" where
  "Server_Start s = (if sv_running s = 0 then Some (s\<lparr>sv_running := 1\<rparr>) else None)"

text \<open>What \<^verbatim>\<open>Stop\<close> does before it waits for the goroutines.\<close>

definition Server_Stop :: "('m, 'h, 'c, 'k, 'st) quic_env \<Rightarrow> ('h, 'c, 'st) Server \<Rightarrow> ('h, 'c, 'st) Server option" where
  "Server_Stop env s =
     (if sv_running s = 1 then
        Some (s\<lparr>sv_running := 0, sv_done := True,
          sv_streams := foldl (\<lambda>st (connID, conn). env_close_conn env conn st)
            (env_close_listener env (sv_streams s)) (sv_connections s)\<rparr>)
      else None)"

text \<open>
  The steps of \<^verbatim>\<open>acceptConnections\<close> and \<^verbatim>\<open>handleConnection\<close> that change the server: a connection has been
  accepted, a connection has ended, a stream has been accepted.
\<close>

definition accept_connection :: "string \<Rightarrow> 'c \<Rightarrow> ('h, 'c, 'st) Server \<Rightarrow> ('h, 'c, 'st) Server" where
  "accept_connection connID conn s =
     s\<lparr>sv_connections := gm_put connID conn (sv_connections s),
       sv_statistics := (sv_statistics s)
         \<lparr>ConnectionsTotal := add64 (ConnectionsTotal (sv_statistics s)) 1,
          ConnectionsActive := add64 (ConnectionsActive (sv_statistics s)) 1\<rparr>\<rparr>"

definition end_connection :: "string \<Rightarrow> ('h, 'c, 'st) Server \<Rightarrow> ('h, 'c, 'st) Server" where
  "end_connection connID s =
     s\<lparr>sv_connections := gm_del connID (sv_connections s),
       sv_statistics := (sv_statistics s)
         \<lparr>ConnectionsActive := add64 (ConnectionsActive (sv_statistics s)) (- 1)\<rparr>\<rparr>"

definition accept_stream :: "('h, 'c, 'st) Server \<Rightarrow> ('h, 'c, 'st) Server" where
  "accept_stream s =
     s\<lparr>sv_statistics := (sv_statistics s)
         \<lparr>StreamsTotal := add64 (StreamsTotal (sv_statistics s)) 1,
          StreamsActive := add64 (StreamsActive (sv_statistics s)) 1\<rparr>\<rparr>"

subsection \<open>Messages\<close>

definition writeMessage ::
  "('m, 'h, 'c, 'k, 'st) quic_env \<Rightarrow> 'k \<Rightarrow> Message \<Rightarrow> ('h, 'c, 'st) Server \<Rightarrow> ('h, 'c, 'st) handled" where
  "writeMessage env stream msg s =
     (case WriteMessage (env_write env stream) (sv_protocol s) msg (sv_streams s) of
        (Err e, st) \<Rightarrow> (Some e, s\<lparr>sv_streams := st\<rparr>)
      | (_, st) \<Rightarrow>
          (None, s\<lparr>sv_streams := st,
             sv_statistics := (sv_statistics s)
               \<lparr>MessagesSent := add64 (MessagesSent (sv_statistics s)) 1,
                BytesSent := add64 (BytesSent (sv_statistics s)) (int (length (msg_Data msg)))\<rparr>\<rparr>))"

definition handleMetricsMessage ::
  "('m, 'h, 'c, 'k, 'st) quic_env \<Rightarrow> time \<Rightarrow> 'k \<Rightarrow> Message \<Rightarrow> ('h, 'c, 'st) Server \<Rightarrow> ('h, 'c, 'st) handled" where
  "handleMetricsMessage env now stream msg s =
     (case DecodeMetrics (env_unmarshal env) (msg_Data msg) of
        Ok metrics \<Rightarrow>
          (case dh_HandleMetrics (env_handler env) metrics (sv_app s) of
             (Some err, h) \<Rightarrow> (Some (MetricsFailed err), s\<lparr>sv_app := h\<rparr>)
           | (None, h) \<Rightarrow> writeMessage env stream (CreateAckMessage now (msg_ID msg)) (s\<lparr>sv_app := h\<rparr>))
      | Err e \<Rightarrow> (Some (MetricsUndecoded e), s))"

definition handleHeartbeatMessage ::
  "('m, 'h, 'c, 'k, 'st) quic_env \<Rightarrow> time \<Rightarrow> 'k \<Rightarrow> Message \<Rightarrow> ('h, 'c, 'st) Server \<Rightarrow> ('h, 'c, 'st) handled" where
  "handleHeartbeatMessage env now stream msg s =
     (let hostID = string_of (msg_Data msg)
      in case dh_HandleHeartbeat (env_handler env) hostID (sv_app s) of
           (Some err, h) \<Rightarrow> (Some (HeartbeatFailed err), s\<lparr>sv_app := h\<rparr>)
         | (None, h) \<Rightarrow> writeMessage env stream (CreateHeartbeatMessage now ''server'') (s\<lparr>sv_app := h\<rparr>))"

definition subKey :: "Subscription \<Rightarrow> string" where
  "subKey sub = sub_HostID sub @ '':'' @ sub_StreamID sub"

definition handleSubscribeMessage ::
  "('m, 'h, 'c, 'k, 'st) quic_env \<Rightarrow> time \<Rightarrow> 'k \<Rightarrow> Message \<Rightarrow> ('h, 'c, 'st) Server \<Rightarrow> ('h, 'c, 'st) handled" where
  "handleSubscribeMessage env now stream msg s =
     (case DecodeSubscription (env_unmarshal_sub env) (msg_Data msg) of
        Ok sub \<Rightarrow>
          (let s1 = s\<lparr>sv_subscriptions := (sv_subscriptions s)(subKey sub \<mapsto> sub)\<rparr>
           in case dh_HandleSubscribe (env_handler env) (sub_HostID sub) (sub_StreamID sub) (sv_app s1) of
                (Some err, h) \<Rightarrow> (Some (SubscribeFailed err), s1\<lparr>sv_app := h\<rparr>)
              | (None, h) \<Rightarrow> writeMessage env stream (CreateAckMessage now (msg_ID msg)) (s1\<lparr>sv_app := h\<rparr>))
      | Err e \<Rightarrow> (Some (SubscriptionUndecoded e), s))"

definition handleUnsubscribeMessage ::
  "('m, 'h, 'c, 'k, 'st) quic_env \<Rightarrow> time \<Rightarrow> 'k \<Rightarrow> Message \<Rightarrow> ('h, 'c, 'st) Server \<Rightarrow> ('h, 'c, 'st) handled" where
  "handleUnsubscribeMessage env now stream msg s =
     (case DecodeSubscription (env_unmarshal_sub env) (msg_Data msg) of
        Ok sub \<Rightarrow>
          (let s1 = s\<lparr>sv_subscriptions := (sv_subscriptions s)(subKey sub := None)\<rparr>
           in case dh_HandleUnsubscribe (env_handler env) (sub_HostID sub) (sub_StreamID sub) (sv_app s1) of
                (Some err, h) \<Rightarrow> (Some (UnsubscribeFailed err), s1\<lparr>sv_app := h\<rparr>)
              | (None, h) \<Rightarrow> writeMessage env stream (CreateAckMessage now (msg_ID msg)) (s1\<lparr>sv_app := h\<rparr>))
      | Err e \<Rightarrow> (Some (SubscriptionUndecoded e), s))"

definition handleQueryMessage ::
  "('m, 'h, 'c, 'k, 'st) quic_env \<Rightarrow> time \<Rightarrow> 'k \<Rightarrow> Message \<Rightarrow> ('h, 'c, 'st) Server \<Rightarrow> ('h, 'c, 'st) handled" where
  "handleQueryMessage env now stream msg s =
     writeMessage env stream (CreateMessage now MessageTypeResponse (msg_ID msg) (bytes_of ''{}'')) s"

definition handleMessage ::
  "('m, 'h, 'c, 'k, 'st) quic_env \<Rightarrow> time \<Rightarrow> 'k \<Rightarrow> Message \<Rightarrow> ('h, 'c, 'st) Server \<Rightarrow> ('h, 'c, 'st) handled" where
  "handleMessage env now stream msg s =
     (if msg_Type msg = MessageTypeMetrics then handleMetricsMessage env now stream msg s
      else if msg_Type msg = MessageTypeHeartbeat then handleHeartbeatMessage env now stream msg s
      else if msg_Type msg = MessageTypeSubscribe then handleSubscribeMessage env now stream msg s
      else if msg_Type msg = MessageTypeUnsubscribe then handleUnsubscribeMessage env now stream msg s
      else if msg_Type msg = MessageTypeQuery then handleQueryMessage env now stream msg s
      else (Some (UnknownType (msg_Type msg)), s))"

subsection \<open>Streams\<close>

text \<open>
  What one round of the loop of \<^verbatim>\<open>handleStream\<close> sees: whether the context was cancelled before it, and the clock
  when the answer and when the error message is made.
\<close>

record round =
  rd_cancelled :: bool
  rd_answer :: time
  rd_error :: time

definition observe :: "round \<Rightarrow> ('h, 'c, 'st) Server \<Rightarrow> ('h, 'c, 'st) Server" where
  "observe r s = (if rd_cancelled r then s\<lparr>sv_done := True\<rparr> else s)"

text \<open>The round after a message has been read.\<close>

definition process_message ::
  "('m, 'h, 'c, 'k, 'st) quic_env \<Rightarrow> round \<Rightarrow> 'k \<Rightarrow> Message \<Rightarrow> ('h, 'c, 'st) Server \<Rightarrow> ('h, 'c, 'st) Server" where
  "process_message env r stream msg s =
     (let s1 = s\<lparr>sv_statistics := (sv_statistics s)
            \<lparr>MessagesReceived := add64 (MessagesReceived (sv_statistics s)) 1,
             BytesReceived := add64 (BytesReceived (sv_statistics s)) (int (length (msg_Data msg)))\<rparr>\<rparr>
      in case handleMessage env (rd_answer r) stream msg s1 of
           (None, s2) \<Rightarrow> s2
         | (Some err, s2) \<Rightarrow>
             (let errMsg = CreateErrorMessage (rd_error r) (msg_ID msg) (error_text err);
                  (_, st) = WriteMessage (env_write env stream) (sv_protocol s2) errMsg (sv_streams s2)
              in s2\<lparr>sv_streams := st,
                   sv_statistics := (sv_statistics s2)
                     \<lparr>ErrorsTotal := add64 (ErrorsTotal (sv_statistics s2)) 1\<rparr>\<rparr>))"

definition end_stream ::
  "('m, 'h, 'c, 'k, 'st) quic_env \<Rightarrow> 'k \<Rightarrow> ('h, 'c, 'st) Server \<Rightarrow> ('h, 'c, 'st) Server" where
  "end_stream env stream s =
     s\<lparr>sv_streams := env_close env stream (sv_streams s),
       sv_statistics := (sv_statistics s)\<lparr>StreamsActive := add64 (StreamsActive (sv_statistics s)) (- 1)\<rparr>\<rparr>"

lemma ReadMessage_shorter: "ReadMessage p inp = Ok (msg, rest) \<Longrightarrow> length rest < length inp"
  by (auto simp: ReadMessage_Ok header_of_def)

text \<open>The loop on the bytes \<open>inp\<close> that the stream still delivers; \<open>rs i\<close> is what round \<open>i\<close> sees.\<close>

function handleStream ::
  "('m, 'h, 'c, 'k, 'st) quic_env \<Rightarrow> (nat \<Rightarrow> round) \<Rightarrow> nat \<Rightarrow> 'k \<Rightarrow> u8 list \<Rightarrow> ('h, 'c, 'st) Server \<Rightarrow>
    ('h, 'c, 'st) Server" where
  "handleStream env rs i stream inp s =
     (let s = observe (rs i) s
      in if sv_done s then end_stream env stream s
         else (case ReadMessage (sv_protocol s) inp of
             Ok (msg, rest) \<Rightarrow> handleStream env rs (Suc i) stream rest (process_message env (rs i) stream msg s)
           | _ \<Rightarrow> end_stream env stream s))"
  by pat_completeness auto
termination
  by (relation "measure (\<lambda>(env, rs, i, stream, inp, s). length inp)") (auto dest: ReadMessage_shorter)

declare handleStream.simps [simp del]

subsection \<open>Broadcast and statistics\<close>

text \<open>The body of \<^verbatim>\<open>Range\<close> over the connections that are left, with the error so far.\<close>

fun broadcast ::
  "('m, 'h, 'c, 'k, 'st) quic_env \<Rightarrow> Message \<Rightarrow> (string, 'c) gomap \<Rightarrow> quic_error option \<Rightarrow>
    ('h, 'c, 'st) Server \<Rightarrow> ('h, 'c, 'st) handled" where
  "broadcast env msg [] broadcastErr s = (broadcastErr, s)"
| "broadcast env msg ((_, conn) # rest) broadcastErr s =
     (case env_open env conn (sv_streams s) of
        (Inl err, st) \<Rightarrow> (Some (Plain err), s\<lparr>sv_streams := st\<rparr>)
      | (Inr stream, st) \<Rightarrow>
          (case writeMessage env stream msg (s\<lparr>sv_streams := st\<rparr>) of
             (err, s1) \<Rightarrow>
               broadcast env msg rest (if err = None then broadcastErr else err)
                 (s1\<lparr>sv_streams := env_close env stream (sv_streams s1)\<rparr>)))"

definition BroadcastMetrics ::
  "('m, 'h, 'c, 'k, 'st) quic_env \<Rightarrow> time \<Rightarrow> 'm \<Rightarrow> ('h, 'c, 'st) Server \<Rightarrow> ('h, 'c, 'st) handled" where
  "BroadcastMetrics env now metrics s =
     (case CreateMetricsMessage (env_marshal env) now (env_HostId env metrics) metrics of
        Ok msg \<Rightarrow> broadcast env msg (sv_connections s) None s
      | Err e \<Rightarrow> (Some e, s))"

definition Server_GetStatistics :: "time \<Rightarrow> ('h, 'c, 'st) Server \<Rightarrow> Statistics" where
  "Server_GetStatistics now s = (sv_statistics s)\<lparr>Uptime := now - LastUpdateTime (sv_statistics s)\<rparr>"

text \<open>One tick of \<^verbatim>\<open>updateStatistics\<close>.\<close>

definition update_tick :: "time \<Rightarrow> ('h, 'c, 'st) Server \<Rightarrow> ('h, 'c, 'st) Server" where
  "update_tick now s = s\<lparr>sv_statistics := (sv_statistics s)\<lparr>LastUpdateTime := now\<rparr>\<rparr>"

subsection \<open>Every message is handled, in order\<close>

lemmas handler_defs = handleMetricsMessage_def handleHeartbeatMessage_def handleSubscribeMessage_def
  handleUnsubscribeMessage_def handleQueryMessage_def DecodeMetrics_def DecodeSubscription_def

text \<open>The state after the counters of a received message, on which the handlers run.\<close>

definition received :: "Message \<Rightarrow> ('h, 'c, 'st) Server \<Rightarrow> ('h, 'c, 'st) Server" where
  "received msg s = s\<lparr>sv_statistics := (sv_statistics s)
     \<lparr>MessagesReceived := add64 (MessagesReceived (sv_statistics s)) 1,
      BytesReceived := add64 (BytesReceived (sv_statistics s)) (int (length (msg_Data msg)))\<rparr>\<rparr>"

lemma process_message_cases:
  assumes "handleMessage env (rd_answer r) stream msg (received msg s) = (err, s2)"
  obtains (answered) "err = None" "process_message env r stream msg s = s2"
  | (reported) e st where "err = Some e"
      "process_message env r stream msg s = s2\<lparr>sv_streams := st, sv_statistics := (sv_statistics s2)
         \<lparr>ErrorsTotal := add64 (ErrorsTotal (sv_statistics s2)) 1\<rparr>\<rparr>"
proof (cases err)
  case None
  then show ?thesis using assms answered by (simp add: process_message_def received_def)
next
  case (Some e)
  obtain x st where "WriteMessage (env_write env stream) (sv_protocol s2)
      (CreateErrorMessage (rd_error r) (msg_ID msg) (error_text e)) (sv_streams s2) = (x, st)" by fastforce
  then show ?thesis using assms Some reported by (simp add: process_message_def received_def)
qed

lemma writeMessage_keeps [simp]:
  "sv_protocol (snd (writeMessage env stream msg s)) = sv_protocol s"
  "sv_done (snd (writeMessage env stream msg s)) = sv_done s"
  by (auto simp: writeMessage_def split: prod.splits outcome.splits)

lemma handleMessage_keeps:
  "sv_protocol (snd (handleMessage env now stream msg s)) = sv_protocol s"
  "sv_done (snd (handleMessage env now stream msg s)) = sv_done s"
  by (simp_all add: handleMessage_def handler_defs Let_def split: sum.split option.split prod.split)

lemma process_message_keeps [simp]:
  "sv_protocol (process_message env r stream msg s) = sv_protocol s"
  "sv_done (process_message env r stream msg s) = sv_done s"
proof -
  obtain err s2 where h: "handleMessage env (rd_answer r) stream msg (received msg s) = (err, s2)" by fastforce
  then have k: "sv_protocol s2 = sv_protocol s" "sv_done s2 = sv_done s"
    using handleMessage_keeps [of env "rd_answer r" stream msg "received msg s"] by (simp_all add: received_def)
  show "sv_protocol (process_message env r stream msg s) = sv_protocol s"
    using h by (rule process_message_cases) (simp_all add: k)
  show "sv_done (process_message env r stream msg s) = sv_done s"
    using h by (rule process_message_cases) (simp_all add: k)
qed

text \<open>The rounds of a list of messages.\<close>

primrec process_all ::
  "('m, 'h, 'c, 'k, 'st) quic_env \<Rightarrow> (nat \<Rightarrow> round) \<Rightarrow> nat \<Rightarrow> 'k \<Rightarrow> Message list \<Rightarrow> ('h, 'c, 'st) Server \<Rightarrow>
    ('h, 'c, 'st) Server" where
  "process_all env rs i stream [] s = s"
| "process_all env rs i stream (msg # msgs) s =
     process_all env rs (Suc i) stream msgs (process_message env (rs i) stream msg s)"

lemma ReadMessage_frame: "readable p msg \<Longrightarrow> ReadMessage p (frame_bytes msg @ rest) = Ok (msg, rest)"
  by (simp add: ReadMessage_Ok header_of_header frame_split readable_def)

lemma handleStream_frame:
  "\<not> sv_done s \<Longrightarrow> \<not> rd_cancelled (rs i) \<Longrightarrow> readable (sv_protocol s) msg \<Longrightarrow>
    handleStream env rs i stream (frame_bytes msg @ rest) s =
      handleStream env rs (Suc i) stream rest (process_message env (rs i) stream msg s)"
  by (simp add: handleStream.simps [of env rs i] observe_def ReadMessage_frame)

lemma handleStream_frames:
  "\<not> sv_done s \<Longrightarrow> (\<And>j. i \<le> j \<Longrightarrow> j < i + length msgs \<Longrightarrow> \<not> rd_cancelled (rs j)) \<Longrightarrow>
    (\<And>msg. msg \<in> set msgs \<Longrightarrow> readable (sv_protocol s) msg) \<Longrightarrow>
    handleStream env rs i stream (concat (map frame_bytes msgs) @ rest) s =
      handleStream env rs (i + length msgs) stream rest (process_all env rs i stream msgs s)"
  by (induction msgs arbitrary: i s) (simp_all add: handleStream_frame)

lemma process_all_keeps [simp]:
  "sv_protocol (process_all env rs i stream msgs s) = sv_protocol s"
  "sv_done (process_all env rs i stream msgs s) = sv_done s"
  by (induction msgs arbitrary: i s) simp_all

text \<open>
  C29: a stream handler handles exactly the complete messages of its stream, in the order in which they
  were sent, and then ends. When the stream delivers the frames of messages that the reader accepts,
  followed by bytes that are not a message (none, a frame cut short, or another version), and the
  server is not stopped meanwhile, the handler processes these messages one after the other and
  closes the stream.
\<close>

theorem handleStream_in_order:
  assumes "\<not> sv_done s" and "\<And>j. j \<le> length msgs \<Longrightarrow> \<not> rd_cancelled (rs j)"
    and "\<And>msg. msg \<in> set msgs \<Longrightarrow> readable (sv_protocol s) msg"
    and "ReadMessage (sv_protocol s) rest = Err e"
  shows "handleStream env rs 0 stream (concat (map frame_bytes msgs) @ rest) s =
    end_stream env stream (process_all env rs 0 stream msgs s)"
  using assms
  by (simp add: handleStream_frames handleStream.simps [of env rs "length msgs"] observe_def)

text \<open>
  An environment to run the server in: the metrics are bytes, a stream keeps what is written to it, and
  the application notes the hosts whose heartbeats it gets.
\<close>

definition noting_env :: "(u8 list, string list, unit, unit, u8 list list) quic_env" where
  "noting_env =
     \<lparr>env_marshal = Inr, env_unmarshal = Inr, env_HostId = string_of, env_unmarshal_sub = (\<lambda>d. Inl ''no JSON''),
      env_write = (\<lambda>k bs st. (None, st @ [bs])), env_open = (\<lambda>c st. (Inr (), st)), env_close = (\<lambda>k st. st),
      env_close_conn = (\<lambda>c st. st), env_close_listener = (\<lambda>st. st),
      env_handler = default_handler
        (SetHeartbeatHandler (Some (\<lambda>hostID h. (None, h @ [hostID]))) NewDefaultDataHandler)\<rparr>"

definition quiet_rounds :: "nat \<Rightarrow> round" where
  "quiet_rounds i = \<lparr>rd_cancelled = False, rd_answer = 5, rd_error = 6\<rparr>"

lemma noting_heartbeat:
  "maxMessageSize (sv_protocol s) = 100 \<Longrightarrow>
    sv_app (process_message noting_env (quiet_rounds i) k (CreateHeartbeatMessage t hostID) s) = sv_app s @ [hostID]"
  by (simp add: process_message_def handleMessage_def handleHeartbeatMessage_def message_types noting_env_def
      CreateHeartbeatMessage_def CreateMessage_def default_handler_def HandleHeartbeat_def SetHeartbeatHandler_def
      NewDefaultDataHandler_def writeMessage_def WriteMessage_def MessageHeaderSize_def)

theorem handleStream_in_order_witness:
  "sv_app (handleStream noting_env quiet_rounds 0 ()
     (concat (map frame_bytes [CreateHeartbeatMessage 1 ''h1'', CreateHeartbeatMessage 2 ''h2'']) @ [1, 2])
     (NewServer 100 0 [] [])) = [''h1'', ''h2'']"
proof -
  let ?s = "NewServer 100 0 [] [] :: (string list, unit, u8 list list) Server"
  have s: "\<not> sv_done ?s" "maxMessageSize (sv_protocol ?s) = 100" "sv_app ?s = []"
    by (simp_all add: NewServer_def NewProtocolHandler_def)
  have m: "readable (sv_protocol ?s) msg"
    if "msg \<in> set [CreateHeartbeatMessage 1 ''h1'', CreateHeartbeatMessage 2 ''h2'']" for msg
    using that s(2) by (auto simp: readable_def CreateHeartbeatMessage_def CreateMessage_def)
  have r: "ReadMessage (sv_protocol ?s) [1, 2] = Err ShortHeader"
    by (simp add: ReadMessage_def ReadFull_def MessageHeaderSize_def)
  have q: "\<not> rd_cancelled (quiet_rounds j)" for j by (simp add: quiet_rounds_def)
  have e: "sv_app (end_stream env k x) = sv_app x" for env k and x :: "(string list, unit, u8 list list) Server"
    by (simp add: end_stream_def)
  have "handleStream noting_env quiet_rounds 0 ()
      (concat (map frame_bytes [CreateHeartbeatMessage 1 ''h1'', CreateHeartbeatMessage 2 ''h2'']) @ [1, 2]) ?s =
    end_stream noting_env () (process_all noting_env quiet_rounds 0 ()
      [CreateHeartbeatMessage 1 ''h1'', CreateHeartbeatMessage 2 ''h2''] ?s)"
    by (rule handleStream_in_order [OF s(1) q m r])
  then show ?thesis using s(2,3) by (simp only: e) (simp add: noting_heartbeat)
qed

subsection \<open>Every message is answered or reported\<close>

text \<open>The balance of the counters, as 64-bit numbers.\<close>

definition unaccounted :: "('h, 'c, 'st) Server \<Rightarrow> u64" where
  "unaccounted s = of_int (MessagesReceived (sv_statistics s)) - of_int (MessagesSent (sv_statistics s))
     - of_int (ErrorsTotal (sv_statistics s))"

lemma unaccounted_update [simp]:
  "unaccounted (s\<lparr>sv_app := h\<rparr>) = unaccounted s"
  "unaccounted (s\<lparr>sv_subscriptions := m\<rparr>) = unaccounted s"
  "unaccounted (s\<lparr>sv_done := b\<rparr>) = unaccounted s"
  by (simp_all add: unaccounted_def)

text \<open>A handler that began with balance \<open>u\<close> has either sent one message or returned an error.\<close>

definition settles :: "u64 \<Rightarrow> ('h, 'c, 'st) handled \<Rightarrow> bool" where
  "settles u r \<longleftrightarrow> unaccounted (snd r) = u - (if fst r = None then 1 else 0)"

lemma settles_error [simp]: "settles u (Some e, s) \<longleftrightarrow> unaccounted s = u"
  by (simp add: settles_def)

lemma settles_write [simp]: "unaccounted s = u \<Longrightarrow> settles u (writeMessage env stream msg s)"
  by (auto simp: settles_def writeMessage_def unaccounted_def split: prod.splits outcome.splits)

lemma handleMessage_settles: "settles (unaccounted s) (handleMessage env now stream msg s)"
  unfolding handleMessage_def handler_defs Let_def
  by (simp split: sum.split option.split prod.split)

lemma process_message_unaccounted [simp]: "unaccounted (process_message env r stream msg s) = unaccounted s"
proof -
  obtain err s2 where h: "handleMessage env (rd_answer r) stream msg (received msg s) = (err, s2)" by fastforce
  have "unaccounted (received msg s) = unaccounted s + 1" by (simp add: received_def unaccounted_def)
  then have u: "unaccounted s2 = unaccounted s + (if err = None then 0 else 1)"
    using handleMessage_settles [of "received msg s" env "rd_answer r" stream msg] h by (simp add: settles_def)
  show ?thesis using h
  proof (rule process_message_cases)
    fix e st
    assume "err = Some e" and p: "process_message env r stream msg s = s2\<lparr>sv_streams := st,
      sv_statistics := (sv_statistics s2)\<lparr>ErrorsTotal := add64 (ErrorsTotal (sv_statistics s2)) 1\<rparr>\<rparr>"
    then have "unaccounted s2 = unaccounted s + 1" using u by simp
    then show ?thesis unfolding p by (simp add: unaccounted_def algebra_simps)
  qed (use u in simp)
qed

lemma end_stream_unaccounted [simp]: "unaccounted (end_stream env stream s) = unaccounted s"
  by (simp add: end_stream_def unaccounted_def)

lemma observe_unaccounted [simp]: "unaccounted (observe r s) = unaccounted s"
  by (simp add: observe_def)

text \<open>
  C30: the counters account for every message. Whatever a stream delivers and whenever the server is
  stopped, a stream handler leaves the number of messages received minus the messages sent minus the
  errors as it was, in 64-bit arithmetic: each message that it reads is either answered, which counts
  as sent, or counted as an error, and never both.
\<close>

theorem handleStream_accounts: "unaccounted (handleStream env rs i stream inp s) = unaccounted s"
proof (induction env rs i stream inp s rule: handleStream.induct)
  case (1 env rs i stream inp s)
  show ?case
  proof (cases "\<not> sv_done (observe (rs i) s) \<and> is_ok (ReadMessage (sv_protocol (observe (rs i) s)) inp)")
    case True
    then obtain msg rest where "ReadMessage (sv_protocol (observe (rs i) s)) inp = Ok (msg, rest)"
      by (cases "ReadMessage (sv_protocol (observe (rs i) s)) inp") (auto simp: is_ok_def)
    then show ?thesis using 1 [OF refl] True by (simp add: handleStream.simps [of env rs i])
  next
    case False
    then have "handleStream env rs i stream inp s = end_stream env stream (observe (rs i) s)"
      by (cases "ReadMessage (sv_protocol (observe (rs i) s)) inp") (auto simp: handleStream.simps [of env rs i] Let_def)
    then show ?thesis by simp
  qed
qed

subsection \<open>Where the server differs from what it means to do\<close>

text \<open>The key of a subscription does not determine it: an unsubscription can remove that of another host.\<close>

lemma subKey_ambiguous:
  "subKey (a\<lparr>sub_HostID := ''a:b'', sub_StreamID := ''c''\<rparr>) = subKey (a\<lparr>sub_HostID := ''a'', sub_StreamID := ''b:c''\<rparr>)"
  by (simp add: subKey_def)

text \<open>
  A server that has been stopped starts again without an error, with the context still cancelled: a
  stream that it gets is closed at once.
\<close>

lemma restart_stays_cancelled:
  assumes "Server_Stop env s = Some s1" and "Server_Start s1 = Some s2"
  shows "sv_running s2 = 1" and "handleStream env rs i stream inp s2 = end_stream env stream s2"
proof -
  have "sv_done s2" and "sv_running s2 = 1"
    using assms by (auto simp: Server_Stop_def Server_Start_def split: if_splits)
  moreover from \<open>sv_done s2\<close> have "observe (rs i) s2 = s2" by (simp add: observe_def)
  ultimately show "sv_running s2 = 1" and "handleStream env rs i stream inp s2 = end_stream env stream s2"
    by (simp_all add: handleStream.simps [of env rs i])
qed

text \<open>The uptime is the time since the last tick, which comes every second.\<close>

lemma uptime_since_tick: "Uptime (Server_GetStatistics now (update_tick t s)) = now - t"
  by (simp add: Server_GetStatistics_def update_tick_def)

text \<open>
  When a peer connects again from its address before its old connection has ended, the end of the old
  one removes the new one from the map: it is active, and no broadcast reaches it.
\<close>

lemma reconnect_is_forgotten:
  "connID \<notin> fst ` set (sv_connections (end_connection connID (accept_connection connID new s)))"
  by (auto simp: end_connection_def accept_connection_def set_del)

end
