(* ===== verification/Redis_Storage.thy ===== *)
theory Redis_Storage
  imports Json_Data
begin

text \<open>
  The storage of the broker, \<^verbatim>\<open>broker/internal/storage/redis_storage.go\<close>. The package
  \<^verbatim>\<open>pkg/storage/redis_storage.go\<close> is an older copy, with another \<^verbatim>\<open>GetBatch\<close> and another address of a single server.

  Redis and its client are an argument, \<open>redis_client\<close>, on a state \<open>'s\<close> of the server; so is the text of JSON,
  \<open>json_text\<close>. The metrics that are kept in it are the subject of \<open>Metrics_Store\<close>.
\<close>

subsection \<open>Redis\<close>

text \<open>A reply of a reading command; \<open>RNil\<close> is \<^verbatim>\<open>redis.Nil\<close>, for a key that does not exist.\<close>

datatype 'a redis_reply = RVal 'a | RNil | RFail string

datatype redis_cmd = CSet string string duration | CDel "string list" | CExpire string duration
  | CHSet string string string | CLPush string string | CSAdd string string | CPublish string string
  | CZAdd string real string | CZRem string string

text \<open>\<open>rc_do\<close> is one writing command, \<open>rc_exec\<close> a pipeline of them, \<open>rc_get_all\<close> a pipeline of \<^verbatim>\<open>GET\<close>; all return their error, if any.\<close>

record 's redis_client =
  rc_do :: "redis_cmd \<Rightarrow> 's \<Rightarrow> string option \<times> 's"
  rc_exec :: "redis_cmd list \<Rightarrow> 's \<Rightarrow> string option \<times> 's"
  rc_get :: "string \<Rightarrow> 's \<Rightarrow> string redis_reply"
  rc_get_all :: "string list \<Rightarrow> 's \<Rightarrow> string option \<times> string redis_reply list"
  rc_hget :: "string \<Rightarrow> string \<Rightarrow> 's \<Rightarrow> string redis_reply"
  rc_hgetall :: "string \<Rightarrow> 's \<Rightarrow> string + (string, string) gomap"
  rc_rpop :: "string \<Rightarrow> 's \<Rightarrow> string redis_reply \<times> 's"
  rc_exists :: "string \<Rightarrow> 's \<Rightarrow> string + int"
  rc_incr :: "string \<Rightarrow> 's \<Rightarrow> (string + int) \<times> 's"
  rc_incrby :: "string \<Rightarrow> int \<Rightarrow> 's \<Rightarrow> (string + int) \<times> 's"
  rc_zrangebyscore :: "string \<Rightarrow> string \<Rightarrow> string \<Rightarrow> 's \<Rightarrow> string + string list"
  rc_keys :: "string \<Rightarrow> 's \<Rightarrow> string + string list"
  rc_lrange :: "string \<Rightarrow> int \<Rightarrow> int \<Rightarrow> 's \<Rightarrow> string + string list"
  rc_smembers :: "string \<Rightarrow> 's \<Rightarrow> string + string list"
  rc_ttl :: "string \<Rightarrow> 's \<Rightarrow> string + duration"
  rc_ping :: "'s \<Rightarrow> string option"

text \<open>\<^verbatim>\<open>json.Marshal\<close> and \<^verbatim>\<open>json.Unmarshal\<close> into \<^verbatim>\<open>interface{}\<close>.\<close>

record json_text =
  marshal :: "json \<Rightarrow> string option"
  unmarshal :: "string \<Rightarrow> json option"

record RedisConfig =
  rf_Addresses :: "string list"
  rf_Password :: string
  rf_DB :: int
  rf_PoolSize :: int
  rf_KeyPrefix :: string
  rf_DefaultTTL :: duration
  rf_EnableCluster :: bool
  rf_EnableSentinel :: bool
  rf_SentinelAddrs :: "string list"
  rf_SentinelMaster :: string
  rf_Address :: string

record RedisStorage =
  rs_keyPrefix :: string
  rs_keyTTL :: duration
  rs_config :: RedisConfig

text \<open>The options with which the client is made: master, addresses, password, database, pool, and the timeouts for reading and writing.\<close>

datatype client_options = FailoverOptions string "string list" string int int
  | ClusterOptions "string list" string int duration duration
  | Options string string int int duration duration

datatype storage_error = MarshalError | RedisError string | KeyNotFound string | GetFailed string | UnmarshalError
  | FieldNotFound string | HashGetFailed string | EmptyList | PopFailed string | MetricsNotFound
  | ConnectFailed string

definition client_for :: "RedisConfig \<Rightarrow> client_options" where
  "client_for c =
     (if rf_EnableSentinel c \<and> length (rf_SentinelAddrs c) > 0 then
        FailoverOptions (rf_SentinelMaster c) (rf_SentinelAddrs c) (rf_Password c) (rf_DB c) (rf_PoolSize c)
      else if rf_EnableCluster c \<and> length (rf_Addresses c) > 1 then
        ClusterOptions (rf_Addresses c) (rf_Password c) (rf_PoolSize c) 5000000000 5000000000
      else
        (let addr = (if rf_Address c \<noteq> [] then rf_Address c
                     else case rf_Addresses c of [] \<Rightarrow> ''localhost:6379'' | a # _ \<Rightarrow> a)
         in Options addr (rf_Password c) (rf_DB c) (rf_PoolSize c) 5000000000 5000000000))"

text \<open>\<open>ping\<close> is the error of the first \<^verbatim>\<open>PING\<close> of a client with such options, if any.\<close>

definition NewRedisStorage ::
  "(client_options \<Rightarrow> string option) \<Rightarrow> RedisConfig \<Rightarrow> (storage_error, client_options \<times> RedisStorage) outcome" where
  "NewRedisStorage ping config =
     (case ping (client_for config) of
        Some e \<Rightarrow> Err (ConnectFailed e)
      | None \<Rightarrow>
          (let c1 = (if rf_PoolSize config = 0 then config\<lparr>rf_PoolSize := 10\<rparr> else config);
               c2 = (if rf_KeyPrefix c1 = [] then c1\<lparr>rf_KeyPrefix := ''monitor:''\<rparr> else c1)
           in Ok (client_for config,
                \<lparr>rs_keyPrefix = rf_KeyPrefix c2, rs_keyTTL = rf_DefaultTTL c2, rs_config = c2\<rparr>)))"

definition formatKey :: "RedisStorage \<Rightarrow> string \<Rightarrow> string" where
  "formatKey rs key = rs_keyPrefix rs @ key"

definition redis_result :: "string option \<times> 's \<Rightarrow> (storage_error, unit) outcome \<times> 's" where
  "redis_result r = (case r of (None, st) \<Rightarrow> (Ok (), st) | (Some e, st) \<Rightarrow> (Err (RedisError e), st))"

subsection \<open>Values, hashes, lists and sets\<close>

text \<open>A writing operation marshals its value and sends one command.\<close>

definition send_value ::
  "'s redis_client \<Rightarrow> json_text \<Rightarrow> (string \<Rightarrow> redis_cmd) \<Rightarrow> json \<Rightarrow> 's \<Rightarrow> (storage_error, unit) outcome \<times> 's" where
  "send_value rc jt cmd v st =
     (case marshal jt v of None \<Rightarrow> (Err MarshalError, st) | Some data \<Rightarrow> redis_result (rc_do rc (cmd data) st))"

definition Storage_Set ::
  "'s redis_client \<Rightarrow> json_text \<Rightarrow> RedisStorage \<Rightarrow> string \<Rightarrow> json \<Rightarrow> 's \<Rightarrow> (storage_error, unit) outcome \<times> 's" where
  "Storage_Set rc jt rs key v = send_value rc jt (\<lambda>data. CSet (formatKey rs key) data (rs_keyTTL rs)) v"

definition Storage_SetWithTTL ::
  "'s redis_client \<Rightarrow> json_text \<Rightarrow> RedisStorage \<Rightarrow> string \<Rightarrow> json \<Rightarrow> duration \<Rightarrow> 's \<Rightarrow>
    (storage_error, unit) outcome \<times> 's" where
  "Storage_SetWithTTL rc jt rs key v ttl = send_value rc jt (\<lambda>data. CSet (formatKey rs key) data ttl) v"

definition Storage_HashSet ::
  "'s redis_client \<Rightarrow> json_text \<Rightarrow> RedisStorage \<Rightarrow> string \<Rightarrow> string \<Rightarrow> json \<Rightarrow> 's \<Rightarrow>
    (storage_error, unit) outcome \<times> 's" where
  "Storage_HashSet rc jt rs key field v = send_value rc jt (\<lambda>data. CHSet (formatKey rs key) field data) v"

definition Storage_ListPush ::
  "'s redis_client \<Rightarrow> json_text \<Rightarrow> RedisStorage \<Rightarrow> string \<Rightarrow> json \<Rightarrow> 's \<Rightarrow> (storage_error, unit) outcome \<times> 's" where
  "Storage_ListPush rc jt rs key v = send_value rc jt (\<lambda>data. CLPush (formatKey rs key) data) v"

definition Storage_SetAdd ::
  "'s redis_client \<Rightarrow> json_text \<Rightarrow> RedisStorage \<Rightarrow> string \<Rightarrow> json \<Rightarrow> 's \<Rightarrow> (storage_error, unit) outcome \<times> 's" where
  "Storage_SetAdd rc jt rs key v = send_value rc jt (\<lambda>data. CSAdd (formatKey rs key) data) v"

definition Storage_Publish ::
  "'s redis_client \<Rightarrow> json_text \<Rightarrow> RedisStorage \<Rightarrow> string \<Rightarrow> json \<Rightarrow> 's \<Rightarrow> (storage_error, unit) outcome \<times> 's" where
  "Storage_Publish rc jt rs chan v = send_value rc jt (\<lambda>data. CPublish (formatKey rs chan) data) v"

text \<open>The reading operations take the conversion of the decoded value to the type of their target.\<close>

definition decode_into :: "json_text \<Rightarrow> (json \<Rightarrow> 'v option) \<Rightarrow> string \<Rightarrow> (storage_error, 'v) outcome" where
  "decode_into jt conv data =
     (case unmarshal jt data of
        None \<Rightarrow> Err UnmarshalError
      | Some j \<Rightarrow> (case conv j of None \<Rightarrow> Err UnmarshalError | Some v \<Rightarrow> Ok v))"

definition Storage_Get ::
  "'s redis_client \<Rightarrow> json_text \<Rightarrow> RedisStorage \<Rightarrow> (json \<Rightarrow> 'v option) \<Rightarrow> string \<Rightarrow> 's \<Rightarrow> (storage_error, 'v) outcome" where
  "Storage_Get rc jt rs conv key st =
     (case rc_get rc (formatKey rs key) st of
        RNil \<Rightarrow> Err (KeyNotFound key)
      | RFail e \<Rightarrow> Err (GetFailed e)
      | RVal data \<Rightarrow> decode_into jt conv data)"

definition Storage_HashGet ::
  "'s redis_client \<Rightarrow> json_text \<Rightarrow> RedisStorage \<Rightarrow> (json \<Rightarrow> 'v option) \<Rightarrow> string \<Rightarrow> string \<Rightarrow> 's \<Rightarrow>
    (storage_error, 'v) outcome" where
  "Storage_HashGet rc jt rs conv key field st =
     (case rc_hget rc (formatKey rs key) field st of
        RNil \<Rightarrow> Err (FieldNotFound field)
      | RFail e \<Rightarrow> Err (HashGetFailed e)
      | RVal data \<Rightarrow> decode_into jt conv data)"

definition Storage_ListPop ::
  "'s redis_client \<Rightarrow> json_text \<Rightarrow> RedisStorage \<Rightarrow> (json \<Rightarrow> 'v option) \<Rightarrow> string \<Rightarrow> 's \<Rightarrow>
    (storage_error, 'v) outcome \<times> 's" where
  "Storage_ListPop rc jt rs conv key st =
     (case rc_rpop rc (formatKey rs key) st of
        (RNil, st1) \<Rightarrow> (Err EmptyList, st1)
      | (RFail e, st1) \<Rightarrow> (Err (PopFailed e), st1)
      | (RVal data, st1) \<Rightarrow> (decode_into jt conv data, st1))"

definition Storage_Delete :: "'s redis_client \<Rightarrow> RedisStorage \<Rightarrow> string \<Rightarrow> 's \<Rightarrow> (storage_error, unit) outcome \<times> 's" where
  "Storage_Delete rc rs key st = redis_result (rc_do rc (CDel [formatKey rs key]) st)"

definition Storage_DeleteBatch ::
  "'s redis_client \<Rightarrow> RedisStorage \<Rightarrow> string list \<Rightarrow> 's \<Rightarrow> (storage_error, unit) outcome \<times> 's" where
  "Storage_DeleteBatch rc rs keys st = redis_result (rc_do rc (CDel (map (formatKey rs) keys)) st)"

definition Storage_SetTTL ::
  "'s redis_client \<Rightarrow> RedisStorage \<Rightarrow> string \<Rightarrow> duration \<Rightarrow> 's \<Rightarrow> (storage_error, unit) outcome \<times> 's" where
  "Storage_SetTTL rc rs key ttl st = redis_result (rc_do rc (CExpire (formatKey rs key) ttl) st)"

definition redis_value :: "string + 'a \<Rightarrow> (storage_error, 'a) outcome" where
  "redis_value r = (case r of Inl e \<Rightarrow> Err (RedisError e) | Inr x \<Rightarrow> Ok x)"

definition Storage_GetTTL :: "'s redis_client \<Rightarrow> RedisStorage \<Rightarrow> string \<Rightarrow> 's \<Rightarrow> (storage_error, duration) outcome" where
  "Storage_GetTTL rc rs key st = redis_value (rc_ttl rc (formatKey rs key) st)"

definition Storage_Keys :: "'s redis_client \<Rightarrow> string \<Rightarrow> 's \<Rightarrow> (storage_error, string list) outcome" where
  "Storage_Keys rc pattern st = redis_value (rc_keys rc pattern st)"

definition Storage_Exists :: "'s redis_client \<Rightarrow> RedisStorage \<Rightarrow> string \<Rightarrow> 's \<Rightarrow> (storage_error, bool) outcome" where
  "Storage_Exists rc rs key st =
     (case redis_value (rc_exists rc (formatKey rs key) st) of Ok n \<Rightarrow> Ok (n > 0) | Err e \<Rightarrow> Err e | _ \<Rightarrow> Panic)"

definition Storage_HashGetAll ::
  "'s redis_client \<Rightarrow> RedisStorage \<Rightarrow> string \<Rightarrow> 's \<Rightarrow> (storage_error, (string, string) gomap) outcome" where
  "Storage_HashGetAll rc rs key st = redis_value (rc_hgetall rc (formatKey rs key) st)"

definition Storage_ListRange ::
  "'s redis_client \<Rightarrow> RedisStorage \<Rightarrow> string \<Rightarrow> int \<Rightarrow> int \<Rightarrow> 's \<Rightarrow> (storage_error, string list) outcome" where
  "Storage_ListRange rc rs key start stop st = redis_value (rc_lrange rc (formatKey rs key) start stop st)"

definition Storage_SetMembers :: "'s redis_client \<Rightarrow> RedisStorage \<Rightarrow> string \<Rightarrow> 's \<Rightarrow> (storage_error, string list) outcome" where
  "Storage_SetMembers rc rs key st = redis_value (rc_smembers rc (formatKey rs key) st)"

definition Storage_Increment ::
  "'s redis_client \<Rightarrow> RedisStorage \<Rightarrow> string \<Rightarrow> int \<Rightarrow> 's \<Rightarrow> (storage_error, int) outcome \<times> 's" where
  "Storage_Increment rc rs key delta st =
     (case (if delta = 1 then rc_incr rc (formatKey rs key) st else rc_incrby rc (formatKey rs key) delta st) of
        (r, st1) \<Rightarrow> (redis_value r, st1))"

definition Storage_Health :: "'s redis_client \<Rightarrow> 's \<Rightarrow> (storage_error, unit) outcome" where
  "Storage_Health rc st = (case rc_ping rc st of None \<Rightarrow> Ok () | Some e \<Rightarrow> Err (RedisError e))"

subsection \<open>Batches\<close>

text \<open>The commands of \<^verbatim>\<open>SetBatch\<close>; the first value that cannot be marshalled ends it before anything is sent.\<close>

fun batch_cmds :: "json_text \<Rightarrow> RedisStorage \<Rightarrow> (string \<times> json) list \<Rightarrow> redis_cmd list option" where
  "batch_cmds jt rs [] = Some []"
| "batch_cmds jt rs ((key, v) # items) =
     (case marshal jt v of
        None \<Rightarrow> None
      | Some data \<Rightarrow> map_option ((#) (CSet (formatKey rs key) data (rs_keyTTL rs))) (batch_cmds jt rs items))"

definition Storage_SetBatch ::
  "'s redis_client \<Rightarrow> json_text \<Rightarrow> RedisStorage \<Rightarrow> (string, json) gomap \<Rightarrow> 's \<Rightarrow>
    (storage_error, unit) outcome \<times> 's" where
  "Storage_SetBatch rc jt rs items st =
     (case batch_cmds jt rs items of
        None \<Rightarrow> (Err MarshalError, st)
      | Some cmds \<Rightarrow> redis_result (rc_exec rc cmds st))"

definition batch_key :: "RedisStorage \<Rightarrow> string \<Rightarrow> string" where
  "batch_key rs key = (if has_prefix key (rs_keyPrefix rs) then key else formatKey rs key)"

text \<open>The loop over the replies; \<^verbatim>\<open>keys[i]\<close> belongs to reply \<open>i\<close>.\<close>

fun collect_replies ::
  "string list \<Rightarrow> string redis_reply list \<Rightarrow> (string, string) gomap \<Rightarrow> (storage_error, (string, string) gomap) outcome" where
  "collect_replies keys [] result = Ok result"
| "collect_replies [] (RVal v # rs) result = Panic"
| "collect_replies [] (RNil # rs) result = collect_replies [] rs result"
| "collect_replies [] (RFail e # rs) result = Err (RedisError e)"
| "collect_replies (k # keys) (RVal v # rs) result = collect_replies keys rs (gm_put k v result)"
| "collect_replies (k # keys) (RNil # rs) result = collect_replies keys rs result"
| "collect_replies (k # keys) (RFail e # rs) result = Err (RedisError e)"

definition Storage_GetBatch ::
  "'s redis_client \<Rightarrow> RedisStorage \<Rightarrow> string list \<Rightarrow> 's \<Rightarrow> (storage_error, (string, string) gomap) outcome" where
  "Storage_GetBatch rc rs keys st =
     (case rc_get_all rc (map (batch_key rs) keys) st of
        (Some e, _) \<Rightarrow> Err (RedisError e)
      | (None, cmds) \<Rightarrow> collect_replies keys cmds [])"

subsection \<open>A missing key makes a batch fail\<close>

text \<open>
  \<^verbatim>\<open>Exec\<close> of the client returns the error of the first command that failed, and \<^verbatim>\<open>redis.Nil\<close> is one: the test for it in
  the loop of \<^verbatim>\<open>GetBatch\<close> is never reached.
\<close>

lemma GetBatch_missing_key:
  assumes "\<And>keys st. RNil \<in> set (snd (rc_get_all rc keys st)) \<Longrightarrow> fst (rc_get_all rc keys st) \<noteq> None"
    and "RNil \<in> set (snd (rc_get_all rc (map (batch_key rs) keys) st))"
  shows "\<exists>e. Storage_GetBatch rc rs keys st = Err (RedisError e)"
  using assms(1) [OF assms(2)] by (auto simp: Storage_GetBatch_def split: prod.splits option.splits)

text \<open>The default size of the pool is set after the client has been made.\<close>

lemma default_pool_unused:
  assumes "NewRedisStorage ping config = Ok (opts, rs)" and "rf_PoolSize config = 0"
  shows "opts = client_for config" and "rf_PoolSize (rs_config rs) = 10"
  using assms by (auto simp: NewRedisStorage_def Let_def split: option.splits if_splits)

end
