(* ===== verification/Metrics_Store.thy ===== *)
theory Metrics_Store
  imports Redis_Storage
begin

text \<open>
  The metrics that the broker keeps in Redis: the second half of \<^verbatim>\<open>broker/internal/storage/redis_storage.go\<close>.

  A set of metrics is a hash with a field per metric and per tag, and an index of the keys by time stamp. What the
  theorems use of Redis is \<open>hash_law\<close>. Metrics come back as they were saved
  (\<open>saved_metrics_come_back\<close>), a range query resolves every key of the index when the host has no colon
  (\<open>range_resolves_index\<close>), and the aggregation computes sums, bounds and means (\<open>aggregate_correct\<close>).
\<close>

subsection \<open>Saving and reading\<close>

definition storage_key :: "string \<Rightarrow> int \<Rightarrow> string" where
  "storage_key hostID timestamp = ''metrics:'' @ hostID @ CHR '':'' # itoa timestamp"

definition index_key :: "string \<Rightarrow> string" where
  "index_key hostID = ''index:metrics:'' @ hostID"

definition metric_text :: "json_text \<Rightarrow> json \<Rightarrow> string" where
  "metric_text jt v = (case marshal jt v of None \<Rightarrow> [] | Some data \<Rightarrow> data)"

definition saved_fields :: "json_text \<Rightarrow> metrics_data \<Rightarrow> (string \<times> string) list" where
  "saved_fields jt d =
     [(''host_id'', md_HostID d), (''timestamp'', itoa (md_Timestamp d))]
       @ map (\<lambda>(k, v). (''metric:'' @ k, metric_text jt v)) (md_Metrics d)
       @ map (\<lambda>(k, v). (''tag:'' @ k, v)) (md_Tags d)"

text \<open>Seven days are \<open>604800000000000\<close> nanoseconds.\<close>

definition save_cmds :: "json_text \<Rightarrow> RedisStorage \<Rightarrow> metrics_data \<Rightarrow> redis_cmd list" where
  "save_cmds jt rs d =
     (let key = storage_key (md_HostID d) (md_Timestamp d);
          formattedKey = formatKey rs key;
          formattedIndexKey = formatKey rs (index_key (md_HostID d))
      in map (\<lambda>(f, v). CHSet formattedKey f v) (saved_fields jt d)
           @ [CExpire formattedKey 604800000000000, CZAdd formattedIndexKey (of_int (md_Timestamp d)) key,
              CExpire formattedIndexKey 604800000000000])"

definition SaveMetricsData ::
  "'s redis_client \<Rightarrow> json_text \<Rightarrow> RedisStorage \<Rightarrow> metrics_data \<Rightarrow> 's \<Rightarrow> (storage_error, unit) outcome \<times> 's" where
  "SaveMetricsData rc jt rs d st =
     (case rc_exec rc (save_cmds jt rs d) st of
        (None, st1) \<Rightarrow> (Ok (), st1)
      | (Some e, st1) \<Rightarrow>
          (if contains e ''tx closed'' then redis_result (rc_exec rc (save_cmds jt rs d) st1)
           else (Err (RedisError e), st1)))"

definition StoreMetrics ::
  "'s redis_client \<Rightarrow> json_text \<Rightarrow> RedisStorage \<Rightarrow> metrics_data \<Rightarrow> 's \<Rightarrow> (storage_error, unit) outcome \<times> 's" where
  "StoreMetrics rc jt rs d st = SaveMetricsData rc jt rs d st"

text \<open>One field of the hash.\<close>

definition parse_field :: "json_text \<Rightarrow> string \<times> string \<Rightarrow> metrics_data \<Rightarrow> metrics_data" where
  "parse_field jt kv d =
     (if has_prefix (fst kv) ''metric:'' then
        (case unmarshal jt (snd kv) of
           None \<Rightarrow> d
         | Some j \<Rightarrow> d\<lparr>md_Metrics := gm_put (drop 7 (fst kv)) j (md_Metrics d)\<rparr>)
      else if has_prefix (fst kv) ''tag:'' then d\<lparr>md_Tags := gm_put (drop 4 (fst kv)) (snd kv) (md_Tags d)\<rparr>
      else d)"

definition GetMetricsData ::
  "'s redis_client \<Rightarrow> json_text \<Rightarrow> RedisStorage \<Rightarrow> string \<Rightarrow> int \<Rightarrow> 's \<Rightarrow> (storage_error, metrics_data) outcome" where
  "GetMetricsData rc jt rs hostID timestamp st =
     (case rc_hgetall rc (formatKey rs (storage_key hostID timestamp)) st of
        Inl e \<Rightarrow> Err (RedisError e)
      | Inr result \<Rightarrow>
          (if length result = 0 then Err MetricsNotFound
           else Ok (fold (parse_field jt) result
             \<lparr>md_HostID = (case map_of result ''host_id'' of None \<Rightarrow> [] | Some h \<Rightarrow> h), md_Timestamp = timestamp,
              md_Metrics = [], md_Tags = []\<rparr>)))"

fun range_loop ::
  "'s redis_client \<Rightarrow> json_text \<Rightarrow> RedisStorage \<Rightarrow> string \<Rightarrow> string list \<Rightarrow> 's \<Rightarrow> metrics_data list" where
  "range_loop rc jt rs hostID [] st = []"
| "range_loop rc jt rs hostID (key # keys) st =
     (let parts = split_on CHR '':'' key;
          found = (if length parts \<ge> 3 then
                     (case parse_int64 (parts ! 2) of
                        None \<Rightarrow> []
                      | Some timestamp \<Rightarrow>
                          (case GetMetricsData rc jt rs hostID timestamp st of Ok data \<Rightarrow> [data] | _ \<Rightarrow> []))
                   else [])
      in found @ range_loop rc jt rs hostID keys st)"

definition GetMetricsDataRange ::
  "'s redis_client \<Rightarrow> json_text \<Rightarrow> RedisStorage \<Rightarrow> string \<Rightarrow> int \<Rightarrow> int \<Rightarrow> 's \<Rightarrow>
    (storage_error, metrics_data list) outcome" where
  "GetMetricsDataRange rc jt rs hostID start stop st =
     (case rc_zrangebyscore rc (formatKey rs (index_key hostID)) (itoa start) (itoa stop) st of
        Inl e \<Rightarrow> Err (RedisError e)
      | Inr keys \<Rightarrow> Ok (range_loop rc jt rs hostID keys st))"

definition DeleteMetricsData ::
  "'s redis_client \<Rightarrow> RedisStorage \<Rightarrow> string \<Rightarrow> int \<Rightarrow> 's \<Rightarrow> (storage_error, unit) outcome \<times> 's" where
  "DeleteMetricsData rc rs hostID timestamp st =
     (let key = storage_key hostID timestamp
      in redis_result (rc_exec rc [CDel [formatKey rs key], CZRem (formatKey rs (index_key hostID)) key] st))"

subsection \<open>Aggregation\<close>

record aggregate =
  ag_count :: nat
  ag_sum :: real
  ag_avg :: real
  ag_min :: real
  ag_max :: real

definition add_metric :: "string \<times> json \<Rightarrow> (string, real list) gomap \<Rightarrow> (string, real list) gomap" where
  "add_metric nv m =
     (case snd nv of
        JNum v \<Rightarrow> gm_put (fst nv) ((case map_of m (fst nv) of None \<Rightarrow> [] | Some vs \<Rightarrow> vs) @ [v]) m
      | _ \<Rightarrow> m)"

definition metric_values :: "metrics_data list \<Rightarrow> (string, real list) gomap" where
  "metric_values data = fold (\<lambda>d m. fold add_metric (md_Metrics d) m) data []"

fun stats_loop :: "real list \<Rightarrow> real \<Rightarrow> real \<Rightarrow> real \<Rightarrow> real \<times> real \<times> real" where
  "stats_loop [] sm mn mx = (sm, mn, mx)"
| "stats_loop (v # vs) sm mn mx = stats_loop vs (sm + v) (if v < mn then v else mn) (if v > mx then v else mx)"

definition stats_of :: "real list \<Rightarrow> aggregate option" where
  "stats_of vs =
     (case vs of
        [] \<Rightarrow> None
      | v0 # _ \<Rightarrow>
          (case stats_loop vs 0 v0 v0 of
             (sm, mn, mx) \<Rightarrow>
               Some \<lparr>ag_count = length vs, ag_sum = sm, ag_avg = sm / real (length vs), ag_min = mn, ag_max = mx\<rparr>))"

definition put_stats :: "string \<times> real list \<Rightarrow> (string, aggregate) gomap \<Rightarrow> (string, aggregate) gomap" where
  "put_stats nvs m = (case stats_of (snd nvs) of None \<Rightarrow> m | Some a \<Rightarrow> gm_put (fst nvs) a m)"

definition AggregateMetrics ::
  "'s redis_client \<Rightarrow> json_text \<Rightarrow> RedisStorage \<Rightarrow> string \<Rightarrow> int \<Rightarrow> int \<Rightarrow> duration \<Rightarrow> 's \<Rightarrow>
    (storage_error, (string, aggregate) gomap) outcome" where
  "AggregateMetrics rc jt rs hostID start stop interval st =
     (case GetMetricsDataRange rc jt rs hostID start stop st of
        Ok metrics \<Rightarrow> (if metrics = [] then Ok [] else Ok (fold put_stats (metric_values metrics) []))
      | Err e \<Rightarrow> Err e | Panic \<Rightarrow> Panic | Blocks \<Rightarrow> Blocks)"

subsection \<open>Metrics come back as they were saved\<close>

text \<open>
  What Redis documents of hashes: \<^verbatim>\<open>HSET\<close> sets one field, and \<^verbatim>\<open>EXPIRE\<close> with a positive time and commands on
  other keys leave a hash as it is. A pipeline that reports an error may have done each of its commands or not.
\<close>

definition keeps_hash :: "string \<Rightarrow> redis_cmd \<Rightarrow> bool" where
  "keeps_hash k cmd \<longleftrightarrow>
     (case cmd of CHSet _ _ _ \<Rightarrow> True | CExpire _ d \<Rightarrow> d > 0 | CZAdd k' _ _ \<Rightarrow> k' \<noteq> k | _ \<Rightarrow> False)"

definition hash_effect :: "string \<Rightarrow> redis_cmd \<Rightarrow> (string \<rightharpoonup> string) \<Rightarrow> (string \<rightharpoonup> string)" where
  "hash_effect k cmd m = (case cmd of CHSet k' f v \<Rightarrow> if k' = k then m(f \<mapsto> v) else m | _ \<Rightarrow> m)"

definition hash_law :: "'s redis_client \<Rightarrow> bool" where
  "hash_law rc \<longleftrightarrow>
     (\<forall>k cmds st m e st'. rc_hgetall rc k st = Inr m \<longrightarrow> list_all (keeps_hash k) cmds \<longrightarrow> rc_exec rc cmds st = (e, st') \<longrightarrow>
        (\<exists>m'. rc_hgetall rc k st' = Inr m' \<and> gm_wf m' \<and>
          (if e = None then map_of m' = fold (hash_effect k) cmds (map_of m)
           else \<forall>f. map_of m' f = map_of m f \<or> (\<exists>v. CHSet k f v \<in> set cmds \<and> map_of m' f = Some v))))"

lemma fold_hash_effect:
  "fold (hash_effect k) (map (\<lambda>(f, v). CHSet k f v) fvs) m = m ++ map_of (rev fvs)"
  by (induction fvs arbitrary: m) (auto simp: hash_effect_def map_add_def fun_eq_iff split: option.splits)

text \<open>The names of the fields, as opaque functions for the simplifier.\<close>

definition mfield :: "string \<Rightarrow> string" where
  "mfield n = ''metric:'' @ n"

definition tfield :: "string \<Rightarrow> string" where
  "tfield n = ''tag:'' @ n"

lemma field_names [simp]:
  "mfield n = mfield n' \<longleftrightarrow> n = n'" "tfield n = tfield n' \<longleftrightarrow> n = n'" "mfield n \<noteq> tfield n'" "tfield n' \<noteq> mfield n"
  "mfield n \<noteq> ''host_id''" "mfield n \<noteq> ''timestamp''" "tfield n \<noteq> ''host_id''" "tfield n \<noteq> ''timestamp''"
  "''host_id'' \<noteq> mfield n" "''timestamp'' \<noteq> mfield n" "''host_id'' \<noteq> tfield n" "''timestamp'' \<noteq> tfield n"
  by (simp_all add: mfield_def tfield_def)

lemma has_prefix_fields:
  "has_prefix k ''metric:'' \<longleftrightarrow> (\<exists>n. k = mfield n)" "has_prefix k ''tag:'' \<longleftrightarrow> (\<exists>n. k = tfield n)"
  unfolding mfield_def tfield_def by (metis has_prefixD has_prefix_append)+

lemma drop_fields [simp]: "drop 7 (mfield n) = n" "drop 4 (tfield n) = n"
  by (simp_all add: mfield_def tfield_def)

lemma parse_fields [simp]:
  "parse_field jt (mfield n, v) d =
    (case unmarshal jt v of None \<Rightarrow> d | Some j \<Rightarrow> d\<lparr>md_Metrics := gm_put n j (md_Metrics d)\<rparr>)"
  "parse_field jt (tfield n, v) d = d\<lparr>md_Tags := gm_put n v (md_Tags d)\<rparr>"
  by (auto simp: parse_field_def has_prefix_fields split: option.split)

lemma parse_other: "(\<And>n. k \<noteq> mfield n) \<Longrightarrow> (\<And>n. k \<noteq> tfield n) \<Longrightarrow> parse_field jt (k, v) d = d"
  by (simp add: parse_field_def has_prefix_fields)

lemma parse_keeps [simp]:
  "md_HostID (fold (parse_field jt) result d) = md_HostID d" "md_Timestamp (fold (parse_field jt) result d) = md_Timestamp d"
  by (induction result arbitrary: d) (auto simp: parse_field_def split: option.splits)

lemma parse_result:
  assumes "gm_wf result"
  shows "map_of (md_Metrics (fold (parse_field jt) result d)) n =
      (case Option.bind (map_of result (mfield n)) (unmarshal jt) of None \<Rightarrow> map_of (md_Metrics d) n | Some j \<Rightarrow> Some j)"
    and "map_of (md_Tags (fold (parse_field jt) result d)) n =
      (case map_of result (tfield n) of None \<Rightarrow> map_of (md_Tags d) n | Some v \<Rightarrow> Some v)"
proof -
  have "map_of (md_Metrics (fold (parse_field jt) result d)) n =
      (case Option.bind (map_of result (mfield n)) (unmarshal jt) of None \<Rightarrow> map_of (md_Metrics d) n | Some j \<Rightarrow> Some j) \<and>
    map_of (md_Tags (fold (parse_field jt) result d)) n =
      (case map_of result (tfield n) of None \<Rightarrow> map_of (md_Tags d) n | Some v \<Rightarrow> Some v)"
    using assms
  proof (induction result arbitrary: d)
    case (Cons kv result)
    obtain k v where kv: "kv = (k, v)" by (cases kv)
    have fresh: "map_of result k = None" using Cons.prems kv by (simp add: map_of_eq_None_iff)
    note IH = Cons.IH [of "parse_field jt kv d"]
    consider (m) n' where "k = mfield n'" | (t) n' where "k = tfield n'" | (o) "\<And>n. k \<noteq> mfield n" "\<And>n. k \<noteq> tfield n"
      by blast
    then show ?case
    proof cases
      case m
      then show ?thesis using IH Cons.prems kv fresh by (auto split: option.splits)
    next
      case t
      then show ?thesis using IH Cons.prems kv fresh by (auto split: option.splits)
    next
      case o
      then have "parse_field jt kv d = d" unfolding kv by (rule parse_other)
      moreover have "k \<noteq> mfield n" "k \<noteq> tfield n" using o by blast+
      ultimately show ?thesis using Cons.IH [of d] Cons.prems by (simp add: kv)
    qed
  qed simp
  then show "map_of (md_Metrics (fold (parse_field jt) result d)) n =
      (case Option.bind (map_of result (mfield n)) (unmarshal jt) of None \<Rightarrow> map_of (md_Metrics d) n | Some j \<Rightarrow> Some j)"
    and "map_of (md_Tags (fold (parse_field jt) result d)) n =
      (case map_of result (tfield n) of None \<Rightarrow> map_of (md_Tags d) n | Some v \<Rightarrow> Some v)"
    by blast+
qed

lemma saved_fields_names:
  "saved_fields jt d = [(''host_id'', md_HostID d), (''timestamp'', itoa (md_Timestamp d))]
     @ map (\<lambda>(k, v). (mfield k, metric_text jt v)) (md_Metrics d) @ map (\<lambda>(k, v). (tfield k, v)) (md_Tags d)"
  by (simp add: saved_fields_def mfield_def tfield_def)

lemma distinct_map_inj: "inj f \<Longrightarrow> distinct xs \<Longrightarrow> distinct (map f xs)"
  by (induction xs) (auto dest: injD)

lemma saved_fields_wf: "gm_wf (md_Metrics d) \<Longrightarrow> gm_wf (md_Tags d) \<Longrightarrow> gm_wf (saved_fields jt d)"
proof -
  assume wf: "gm_wf (md_Metrics d)" "gm_wf (md_Tags d)"
  have names: "map fst (saved_fields jt d) =
      [''host_id'', ''timestamp''] @ map mfield (map fst (md_Metrics d)) @ map tfield (map fst (md_Tags d))"
    by (simp add: saved_fields_names comp_def case_prod_beta)
  have "inj mfield" "inj tfield" by (simp_all add: inj_def)
  then have "distinct (map mfield (map fst (md_Metrics d)))" "distinct (map tfield (map fst (md_Tags d)))"
    using wf by (blast intro: distinct_map_inj)+
  then show ?thesis unfolding names by (auto simp del: map_map)
qed

lemma map_of_mfields [simp]:
  "map_of (map (\<lambda>(k, v). (mfield k, f v)) m) (mfield n) = map_option f (map_of m n)"
  "map_of (map (\<lambda>(k, v). (mfield k, f v)) m) (tfield n) = None"
  by (induction m) auto

lemma map_of_tfields [simp]:
  "map_of (map (\<lambda>(k, v). (tfield k, v)) m) (tfield n) = map_of m n"
  "map_of (map (\<lambda>(k, v). (tfield k, v)) m) (mfield n) = None"
  by (induction m) auto

lemma map_of_saved:
  "map_of (saved_fields jt d) ''host_id'' = Some (md_HostID d)"
  "map_of (saved_fields jt d) (mfield n) = map_option (metric_text jt) (map_of (md_Metrics d) n)"
  "map_of (saved_fields jt d) (tfield n) = map_of (md_Tags d) n"
  by (auto simp: saved_fields_names map_add_def split: option.split)

lemma hash_not_index: "formatKey rs (storage_key h t) \<noteq> formatKey rs (index_key h')"
  by (simp add: formatKey_def storage_key_def index_key_def)

lemma save_cmds_keep: "list_all (keeps_hash (formatKey rs (storage_key (md_HostID d) (md_Timestamp d)))) (save_cmds jt rs d)"
  using hash_not_index [of rs "md_HostID d" "md_Timestamp d"]
  by (auto simp: save_cmds_def Let_def list_all_iff keeps_hash_def dest: not_sym)

lemma save_cmds_effect:
  assumes "gm_wf (saved_fields jt d)"
  shows "fold (hash_effect (formatKey rs (storage_key (md_HostID d) (md_Timestamp d)))) (save_cmds jt rs d) m =
    m ++ map_of (saved_fields jt d)"
proof -
  have "map_of (rev (saved_fields jt d)) = map_of (saved_fields jt d)"
    using assms by (intro map_of_inject_set [THEN iffD2]) (simp_all add: rev_map [symmetric])
  then show ?thesis by (simp add: save_cmds_def Let_def fold_hash_effect) (simp add: hash_effect_def)
qed

lemma save_cmds_fields: "CHSet k f v \<in> set (save_cmds jt rs d) \<Longrightarrow> f \<in> fst ` set (saved_fields jt d)"
  by (force simp: save_cmds_def Let_def)

lemma saved_hash:
  assumes law: "hash_law rc" and wf: "gm_wf (md_Metrics d)" "gm_wf (md_Tags d)"
    and save: "SaveMetricsData rc jt rs d st = (Ok (), st')"
    and m: "rc_hgetall rc (formatKey rs (storage_key (md_HostID d) (md_Timestamp d))) st = Inr m"
  obtains m' where "rc_hgetall rc (formatKey rs (storage_key (md_HostID d) (md_Timestamp d))) st' = Inr m'"
    and "gm_wf m'" and "map_of m' = map_of m ++ map_of (saved_fields jt d)"
proof -
  let ?k = "formatKey rs (storage_key (md_HostID d) (md_Timestamp d))" and ?cmds = "save_cmds jt rs d"
  note eff = save_cmds_effect [OF saved_fields_wf [OF wf], where jt = jt and rs = rs]
  have run: "\<exists>m'. rc_hgetall rc ?k t = Inr m' \<and> gm_wf m' \<and> map_of m' = map_of m0 ++ map_of (saved_fields jt d)"
    if "rc_hgetall rc ?k s0 = Inr m0" "rc_exec rc ?cmds s0 = (None, t)" for s0 m0 t
    using law that save_cmds_keep [of rs d jt] unfolding hash_law_def by (metis eff)
  obtain e st1 where e: "rc_exec rc ?cmds st = (e, st1)" by fastforce
  show ?thesis
  proof (cases e)
    case None
    then have "st1 = st'" using e save by (simp add: SaveMetricsData_def)
    then show ?thesis using run [OF m] e None that by blast
  next
    case (Some x)
    obtain m1 where m1: "rc_hgetall rc ?k st1 = Inr m1"
      "\<forall>f. map_of m1 f = map_of m f \<or> (\<exists>v. CHSet ?k f v \<in> set ?cmds \<and> map_of m1 f = Some v)"
      using law [unfolded hash_law_def, rule_format, OF m save_cmds_keep e] Some by auto
    have "rc_exec rc ?cmds st1 = (None, st')"
      using save e Some by (auto simp: SaveMetricsData_def redis_result_def split: if_splits prod.splits option.splits)
    then obtain m' where m': "rc_hgetall rc ?k st' = Inr m'" "gm_wf m'"
      "map_of m' = map_of m1 ++ map_of (saved_fields jt d)"
      using run [OF m1(1)] by blast
    have "map_of m1 f = map_of m f" if "map_of (saved_fields jt d) f = None" for f
      using m1(2) that save_cmds_fields [of ?k f _ jt rs d] by (metis map_of_eq_None_iff)
    then have "map_of m1 ++ map_of (saved_fields jt d) = map_of m ++ map_of (saved_fields jt d)"
      by (auto simp: map_add_def fun_eq_iff split: option.split)
    then show ?thesis using m' that by simp
  qed
qed

text \<open>
  C32: metrics come back as they were saved. When nothing is stored for the host and the time stamp, saving succeeds,
  perhaps at the second attempt, and every value survives its own encoding, then reading them gives
  the same host, time stamp, metrics and tags.
\<close>

theorem saved_metrics_come_back:
  assumes "hash_law rc" and "gm_wf (md_Metrics d)" and "gm_wf (md_Tags d)"
    and "rc_hgetall rc (formatKey rs (storage_key (md_HostID d) (md_Timestamp d))) st = Inr []"
    and "\<And>n v. (n, v) \<in> set (md_Metrics d) \<Longrightarrow> Option.bind (marshal jt v) (unmarshal jt) = Some v"
    and "SaveMetricsData rc jt rs d st = (Ok (), st')"
  shows "\<exists>d'. GetMetricsData rc jt rs (md_HostID d) (md_Timestamp d) st' = Ok d' \<and> md_HostID d' = md_HostID d \<and>
    md_Timestamp d' = md_Timestamp d \<and> map_of (md_Metrics d') = map_of (md_Metrics d) \<and>
    map_of (md_Tags d') = map_of (md_Tags d)"
proof -
  obtain m' where m': "rc_hgetall rc (formatKey rs (storage_key (md_HostID d) (md_Timestamp d))) st' = Inr m'"
    "gm_wf m'" "map_of m' = map_of [] ++ map_of (saved_fields jt d)"
    using assms(1,2,3,6,4) by (rule saved_hash)
  then have f: "map_of m' = map_of (saved_fields jt d)" by simp
  then have "m' \<noteq> []" using map_of_saved(1) [of jt d] by auto
  have "unmarshal jt (metric_text jt v) = Some v" if "map_of (md_Metrics d) n = Some v" for n v
    using assms(5) [OF map_of_SomeD [OF that]] by (cases "marshal jt v") (auto simp: metric_text_def)
  then have "Option.bind (map_of m' (mfield n)) (unmarshal jt) = map_of (md_Metrics d) n" for n
    by (cases "map_of (md_Metrics d) n") (simp_all add: f map_of_saved)
  then show ?thesis
    using m'(1) \<open>m' \<noteq> []\<close> map_of_saved(1) [of jt d]
    by (auto simp: GetMetricsData_def parse_result [OF m'(2)] f map_of_saved fun_eq_iff split: option.split)
qed

text \<open>A server that keeps hashes and nothing else, and texts of strings.\<close>

definition hash_server :: "(string \<Rightarrow> (string \<times> string) list) redis_client" where
  "hash_server =
     \<lparr>rc_do = (\<lambda>c st. (None, st)),
      rc_exec = (\<lambda>cs st. (None, fold (\<lambda>c st. case c of CHSet k f v \<Rightarrow> st(k := (f, v) # st k) | _ \<Rightarrow> st) cs st)),
      rc_get = (\<lambda>k st. RNil), rc_get_all = (\<lambda>ks st. (None, [])), rc_hget = (\<lambda>k f st. RNil),
      rc_hgetall = (\<lambda>k st. Inr (AList.clearjunk (st k))), rc_rpop = (\<lambda>k st. (RNil, st)), rc_exists = (\<lambda>k st. Inr 0),
      rc_incr = (\<lambda>k st. (Inr 0, st)), rc_incrby = (\<lambda>k i st. (Inr 0, st)), rc_zrangebyscore = (\<lambda>k a b st. Inr []),
      rc_keys = (\<lambda>p st. Inr []), rc_lrange = (\<lambda>k i j st. Inr []), rc_smembers = (\<lambda>k st. Inr []),
      rc_ttl = (\<lambda>k st. Inr 0), rc_ping = (\<lambda>st. None)\<rparr>"

definition string_text :: json_text where
  "string_text = \<lparr>marshal = (\<lambda>j. case j of JStr s \<Rightarrow> Some s | _ \<Rightarrow> None), unmarshal = (\<lambda>s. Some (JStr s))\<rparr>"

definition plain_storage :: RedisStorage where
  "plain_storage = \<lparr>rs_keyPrefix = ''monitor:'', rs_keyTTL = 0, rs_config =
     \<lparr>rf_Addresses = [], rf_Password = [], rf_DB = 0, rf_PoolSize = 10, rf_KeyPrefix = ''monitor:'', rf_DefaultTTL = 0,
      rf_EnableCluster = False, rf_EnableSentinel = False, rf_SentinelAddrs = [], rf_SentinelMaster = [],
      rf_Address = []\<rparr>\<rparr>"

definition ex_metrics :: metrics_data where
  "ex_metrics = \<lparr>md_HostID = ''h1'', md_Timestamp = 7, md_Metrics = [(''os'', JStr ''linux'')], md_Tags = [(''dc'', ''a'')]\<rparr>"

lemma hash_server_exec:
  "map_of (fold (\<lambda>c st. case c of CHSet k f v \<Rightarrow> st(k := (f, v) # st k) | _ \<Rightarrow> st) cs st k) =
    fold (hash_effect k) cs (map_of (st k))"
  by (induction cs arbitrary: st) (auto simp: hash_effect_def split: redis_cmd.split)

lemma hash_server_law: "hash_law hash_server"
  by (auto simp: hash_law_def hash_server_def hash_server_exec map_of_clearjunk distinct_clearjunk)

theorem saved_metrics_come_back_witness:
  "\<exists>st' d'. SaveMetricsData hash_server string_text plain_storage ex_metrics (\<lambda>k. []) = (Ok (), st') \<and>
    GetMetricsData hash_server string_text plain_storage ''h1'' 7 st' = Ok d' \<and> md_HostID d' = ''h1'' \<and>
    map_of (md_Metrics d') ''os'' = Some (JStr ''linux'') \<and> map_of (md_Tags d') ''dc'' = Some ''a''"
proof -
  have "\<exists>st'. SaveMetricsData hash_server string_text plain_storage ex_metrics (\<lambda>k. []) = (Ok (), st')"
    by (simp add: SaveMetricsData_def hash_server_def)
  then obtain st' where st': "SaveMetricsData hash_server string_text plain_storage ex_metrics (\<lambda>k. []) = (Ok (), st')" ..
  have "\<exists>d'. GetMetricsData hash_server string_text plain_storage (md_HostID ex_metrics) (md_Timestamp ex_metrics) st' = Ok d' \<and>
      md_HostID d' = md_HostID ex_metrics \<and> md_Timestamp d' = md_Timestamp ex_metrics \<and>
      map_of (md_Metrics d') = map_of (md_Metrics ex_metrics) \<and> map_of (md_Tags d') = map_of (md_Tags ex_metrics)"
    by (rule saved_metrics_come_back [OF hash_server_law _ _ _ _ st'])
      (auto simp: ex_metrics_def hash_server_def string_text_def)
  then show ?thesis using st' by (auto simp: ex_metrics_def)
qed

text \<open>Saving again at the same time stamp adds to what is there: an old metric that is not saved again stays.\<close>

lemma saving_again_merges:
  assumes "hash_law rc" and "gm_wf (md_Metrics d)" and "gm_wf (md_Tags d)" and "SaveMetricsData rc jt rs d st = (Ok (), st')"
    and "rc_hgetall rc (formatKey rs (storage_key (md_HostID d) (md_Timestamp d))) st = Inr m"
    and "map_of m (mfield n) = Some s" and "unmarshal jt s = Some j" and "map_of (md_Metrics d) n = None"
  shows "\<exists>d'. GetMetricsData rc jt rs (md_HostID d) (md_Timestamp d) st' = Ok d' \<and> map_of (md_Metrics d') n = Some j"
proof -
  obtain m' where m': "rc_hgetall rc (formatKey rs (storage_key (md_HostID d) (md_Timestamp d))) st' = Inr m'"
    "gm_wf m'" "map_of m' = map_of m ++ map_of (saved_fields jt d)"
    using assms(1-5) by (rule saved_hash)
  then have "map_of m' (mfield n) = Some s" using assms(6,8) by (simp add: map_add_def map_of_saved)
  then show ?thesis using m'(1) assms(7) by (auto simp: GetMetricsData_def parse_result [OF m'(2)])
qed

subsection \<open>Ranges\<close>

lemma split_storage_key:
  "CHR '':'' \<notin> set hostID \<Longrightarrow> split_on CHR '':'' (storage_key hostID t) = [''metrics'', hostID, itoa t]"
  using split_on_append [of "CHR '':''" "''metrics''" "hostID @ CHR '':'' # itoa t"]
  by (simp add: storage_key_def split_on_append split_on_free)

definition found_data :: "'s redis_client \<Rightarrow> json_text \<Rightarrow> RedisStorage \<Rightarrow> string \<Rightarrow> 's \<Rightarrow> int \<Rightarrow> metrics_data option" where
  "found_data rc jt rs hostID st t = (case GetMetricsData rc jt rs hostID t st of Ok d \<Rightarrow> Some d | _ \<Rightarrow> None)"

lemma range_loop_keys:
  "CHR '':'' \<notin> set hostID \<Longrightarrow> list_all (\<lambda>t. - (2 ^ 63) \<le> t \<and> t < 2 ^ 63) ts \<Longrightarrow>
    range_loop rc jt rs hostID (map (storage_key hostID) ts) st = List.map_filter (found_data rc jt rs hostID st) ts"
  by (induction ts) (auto simp: split_storage_key found_data_def List.map_filter_def split: outcome.split)

text \<open>
  A range query resolves every key of the index. For a host without a colon in its name, when the index
  returns the keys of some time stamps, the query returns the stored metrics of exactly these time
  stamps, in this order, without those that are no longer stored.
\<close>

theorem range_resolves_index:
  assumes "CHR '':'' \<notin> set hostID" and "list_all (\<lambda>t. - (2 ^ 63) \<le> t \<and> t < 2 ^ 63) ts"
    and "rc_zrangebyscore rc (formatKey rs (index_key hostID)) (itoa start) (itoa stop) st = Inr (map (storage_key hostID) ts)"
  shows "GetMetricsDataRange rc jt rs hostID start stop st = Ok (List.map_filter (found_data rc jt rs hostID st) ts)"
  using assms by (simp add: GetMetricsDataRange_def range_loop_keys)

definition index_server :: "(string \<Rightarrow> (string \<times> string) list) redis_client" where
  "index_server = hash_server\<lparr>rc_zrangebyscore := \<lambda>k a b st. Inr (map (storage_key ''h1'') [7, 8])\<rparr>"

definition one_hash :: "string \<Rightarrow> (string \<times> string) list" where
  "one_hash k = (if k = formatKey plain_storage (storage_key ''h1'' 7)
     then [(''host_id'', ''h1''), (mfield ''load'', ''xxx'')] else [])"

definition length_text :: json_text where
  "length_text = \<lparr>marshal = (\<lambda>j. None), unmarshal = (\<lambda>s. Some (JNum (real (length s))))\<rparr>"

lemma index_server_found:
  "found_data index_server length_text plain_storage ''h1'' one_hash 7 =
    Some \<lparr>md_HostID = ''h1'', md_Timestamp = 7, md_Metrics = [(''load'', JNum 3)], md_Tags = []\<rparr>"
  "found_data index_server length_text plain_storage ''h1'' one_hash 8 = None"
proof -
  have "parse_field length_text (''host_id'', ''h1'') d = d" for d by (rule parse_other) simp_all
  then show "found_data index_server length_text plain_storage ''h1'' one_hash 7 =
      Some \<lparr>md_HostID = ''h1'', md_Timestamp = 7, md_Metrics = [(''load'', JNum 3)], md_Tags = []\<rparr>"
    by (simp add: found_data_def GetMetricsData_def index_server_def hash_server_def one_hash_def length_text_def
        delete_idem)
  have "storage_key ''h1'' 8 \<noteq> storage_key ''h1'' 7" using itoa_inj [of 8 7] by (auto simp: storage_key_def)
  then show "found_data index_server length_text plain_storage ''h1'' one_hash 8 = None"
    by (simp add: found_data_def GetMetricsData_def index_server_def hash_server_def one_hash_def formatKey_def)
qed

theorem range_resolves_index_witness:
  "GetMetricsDataRange index_server length_text plain_storage ''h1'' 0 9 one_hash =
   Ok [\<lparr>md_HostID = ''h1'', md_Timestamp = 7, md_Metrics = [(''load'', JNum 3)], md_Tags = []\<rparr>]"
  using range_resolves_index [of "''h1''" "[7, 8]" index_server plain_storage 0 9 one_hash length_text]
  by (simp add: index_server_found) (simp add: index_server_def)

text \<open>With a colon in its name a host gets no data: the third part of its keys is not the time stamp.\<close>

lemma colon_host_finds_nothing:
  "range_loop rc jt rs ''db:main'' (map (storage_key ''db:main'') ts) st = []"
  by (induction ts) (auto simp: storage_key_def parse_int64_def all_digits_def)

subsection \<open>Aggregates\<close>

text \<open>The numeric values of a metric, in order.\<close>

definition number_named :: "string \<Rightarrow> string \<times> json \<Rightarrow> real option" where
  "number_named n kj = (case snd kj of JNum v \<Rightarrow> if fst kj = n then Some v else None | _ \<Rightarrow> None)"

definition numbers_of :: "string \<Rightarrow> metrics_data list \<Rightarrow> real list" where
  "numbers_of n data = List.map_filter (number_named n) (concat (map md_Metrics data))"

definition grow :: "'a list option \<Rightarrow> 'a list \<Rightarrow> 'a list option" where
  "grow old vs = (case old of None \<Rightarrow> if vs = [] then None else Some vs | Some us \<Rightarrow> Some (us @ vs))"

lemma grow_grow [simp]: "grow (grow old us) vs = grow old (us @ vs)"
  by (simp add: grow_def split: option.split)

lemma grow_Nil [simp]: "grow old [] = old"
  by (simp add: grow_def split: option.split)

lemma map_filter_append: "List.map_filter f (xs @ ys) = List.map_filter f xs @ List.map_filter f ys"
  by (simp add: List.map_filter_def)

lemma add_metric_lookup:
  "map_of (add_metric kj m) n = grow (map_of m n) (case number_named n kj of None \<Rightarrow> [] | Some v \<Rightarrow> [v])"
  by (cases kj) (auto simp: add_metric_def number_named_def grow_def split: json.split option.split)

lemma fold_add_metric: "map_of (fold add_metric ms m) n = grow (map_of m n) (List.map_filter (number_named n) ms)"
  by (induction ms arbitrary: m) (simp_all add: add_metric_lookup split: option.split)

lemma metric_values_lookup: "map_of (metric_values data) n = grow None (numbers_of n data)"
proof -
  have "map_of (fold (\<lambda>d m. fold add_metric (md_Metrics d) m) data m) n = grow (map_of m n) (numbers_of n data)" for m
    by (induction data arbitrary: m) (simp_all add: fold_add_metric numbers_of_def map_filter_append)
  then show ?thesis by (simp add: metric_values_def)
qed

lemma add_metric_wf: "gm_wf m \<Longrightarrow> gm_wf (add_metric kj m)"
  by (auto simp: add_metric_def intro: gm_wf_put split: json.split)

lemma fold_wf: "(\<And>x m. gm_wf m \<Longrightarrow> gm_wf (f x m)) \<Longrightarrow> gm_wf m \<Longrightarrow> gm_wf (fold f xs m)"
  by (induction xs arbitrary: m) simp_all

lemma metric_values_wf: "gm_wf (metric_values data)"
  unfolding metric_values_def by (intro fold_wf add_metric_wf) simp_all

lemma put_stats_lookup:
  "gm_wf m \<Longrightarrow> map_of (fold put_stats m acc) n =
    (case Option.bind (map_of m n) stats_of of None \<Rightarrow> map_of acc n | Some a \<Rightarrow> Some a)"
proof (induction m arbitrary: acc)
  case (Cons kv m)
  obtain k v where kv: "kv = (k, v)" by (cases kv)
  then have "map_of m k = None" using Cons.prems by (simp add: map_of_eq_None_iff)
  then show ?case using Cons kv by (auto simp: put_stats_def split: option.split)
qed simp

lemma Min_insert_min: "finite A \<Longrightarrow> Min (insert (min a b) A) = Min (insert a (insert b A))" for a :: real
  by (cases "A = {}") (simp_all add: min.assoc)

lemma Max_insert_max: "finite A \<Longrightarrow> Max (insert (max a b) A) = Max (insert a (insert b A))" for a :: real
  by (cases "A = {}") (simp_all add: max.assoc)

lemma stats_loop_spec:
  "stats_loop vs sm mn mx = (sm + sum_list vs, Min (insert mn (set vs)), Max (insert mx (set vs)))"
proof (induction vs arbitrary: sm mn mx)
  case (Cons v vs)
  have "(if v < mn then v else mn) = min mn v" "(if v > mx then v else mx) = max mx v" by auto
  then show ?case using Cons by (simp only: stats_loop.simps) (simp add: Min_insert_min Max_insert_max)
qed simp

lemma stats_of_spec:
  "stats_of vs = (if vs = [] then None else
     Some \<lparr>ag_count = length vs, ag_sum = sum_list vs, ag_avg = sum_list vs / real (length vs),
       ag_min = Min (set vs), ag_max = Max (set vs)\<rparr>)"
  by (cases vs) (simp_all add: stats_of_def stats_loop_spec)

text \<open>
  C33: the aggregation is right. Over the metrics that the range query returns, a metric has an aggregate exactly
  when it has a numeric value, and the aggregate is the number of its values, their sum, their mean,
  the least and the greatest of them; values of other types are left out.
\<close>

theorem aggregate_correct:
  assumes "GetMetricsDataRange rc jt rs hostID start stop st = Ok data"
  shows "\<exists>m. AggregateMetrics rc jt rs hostID start stop interval st = Ok m \<and>
    (\<forall>n. map_of m n =
      (let vs = numbers_of n data
       in if vs = [] then None
          else Some \<lparr>ag_count = length vs, ag_sum = sum_list vs, ag_avg = sum_list vs / real (length vs),
            ag_min = Min (set vs), ag_max = Max (set vs)\<rparr>))"
  using assms
  by (cases "data = []")
    (auto simp: AggregateMetrics_def put_stats_lookup metric_values_wf metric_values_lookup stats_of_spec grow_def
      numbers_of_def Let_def)

theorem aggregate_correct_witness:
  "\<exists>m. AggregateMetrics index_server length_text plain_storage ''h1'' 0 9 1 one_hash = Ok m \<and>
    map_of m ''load'' = Some \<lparr>ag_count = 1, ag_sum = 3, ag_avg = 3, ag_min = 3, ag_max = 3\<rparr>"
proof -
  let ?data = "[\<lparr>md_HostID = ''h1'', md_Timestamp = 7, md_Metrics = [(''load'', JNum 3)], md_Tags = []\<rparr>]"
  have "range_loop index_server length_text plain_storage ''h1'' (map (storage_key ''h1'') [7, 8]) one_hash = ?data"
    by (subst range_loop_keys) (simp_all add: index_server_found)
  then have r: "GetMetricsDataRange index_server length_text plain_storage ''h1'' 0 9 one_hash = Ok ?data"
    by (simp add: GetMetricsDataRange_def index_server_def)
  have "numbers_of ''load'' ?data = [3]" by (simp add: numbers_of_def number_named_def)
  then show ?thesis using aggregate_correct [OF r, of 1] by (auto simp: Let_def)
qed

end
