(* ===== verification/Message_Queue.thy ===== *)
theory Message_Queue
  imports Redis_Storage
begin

text \<open>
  The message queue on Redis, \<^verbatim>\<open>broker/internal/queue/message_queue.go\<close>; \<^verbatim>\<open>pkg/queue/message_queue.go\<close> has the same code.

  The conversion of messages to and from JSON values and base64 are an argument (\<open>message_codec\<close>), as is what a handler
  does with a message on the state \<open>'a\<close> of the application. A consumer is one round of its loop, \<open>consume_step\<close>; the
  goroutines of a publication call the handlers that \<open>notifySubscribers\<close> returns.

  The counters account for every message (\<open>queue_accounts\<close>), but a consumer can never read what is
  published (\<open>published_message_not_consumed\<close>).
\<close>

subsection \<open>Types\<close>

record QMessage =
  qm_ID :: string
  qm_Topic :: string
  qm_Payload :: string
  qm_Metadata :: "(string, json) gomap"
  qm_Timestamp :: time
  qm_Retries :: int

record TopicStats =
  ts_MessageCount :: int
  ts_LastMessageTime :: time
  ts_ConsumerCount :: int

record QueueStats =
  qs_TotalMessages :: int
  qs_PendingMessages :: int
  qs_ProcessedMessages :: int
  qs_FailedMessages :: int
  qs_TopicStats :: "(string, TopicStats) gomap"

record 'hd RedisMessageQueue =
  mq_prefix :: string
  mq_ttl :: duration
  mq_stats :: QueueStats
  mq_subscribers :: "(string, 'hd list) gomap"

text \<open>\<open>mc_json\<close> is the JSON value of a message, \<open>mc_message\<close> decodes into a message, \<open>mc_base64\<close> encodes a slice of bytes.\<close>

record message_codec =
  mc_json :: "QMessage \<Rightarrow> json"
  mc_message :: "json \<Rightarrow> QMessage option"
  mc_base64 :: "string \<Rightarrow> string"

datatype queue_error = QueueMarshal | StoreFailed storage_error | EnqueueFailed storage_error | AckFailed storage_error
  | ProcessingMissing storage_error | DeadLetterFailed storage_error | RequeueFailed storage_error

text \<open>The environment: Redis, the storage in front of it, texts, and the handlers with the error that they return.\<close>

record ('s, 'hd, 'a) queue_env =
  qe_client :: "'s redis_client"
  qe_text :: json_text
  qe_storage :: RedisStorage
  qe_codec :: message_codec
  qe_handle :: "'hd \<Rightarrow> QMessage \<Rightarrow> 'a \<Rightarrow> string option \<times> 'a"

definition NewRedisMessageQueue :: "string \<Rightarrow> duration \<Rightarrow> 'hd RedisMessageQueue" where
  "NewRedisMessageQueue pre ttl =
     \<lparr>mq_prefix = pre, mq_ttl = ttl,
      mq_stats = \<lparr>qs_TotalMessages = 0, qs_PendingMessages = 0, qs_ProcessedMessages = 0, qs_FailedMessages = 0,
        qs_TopicStats = []\<rparr>,
      mq_subscribers = []\<rparr>"

definition message_key :: "'hd RedisMessageQueue \<Rightarrow> string \<Rightarrow> string" where
  "message_key q i = mq_prefix q @ '':message:'' @ i"

definition queue_key :: "'hd RedisMessageQueue \<Rightarrow> string \<Rightarrow> string" where
  "queue_key q topic = mq_prefix q @ '':queue:'' @ topic"

definition processing_key :: "'hd RedisMessageQueue \<Rightarrow> string \<Rightarrow> string" where
  "processing_key q i = mq_prefix q @ '':processing:'' @ i"

definition dead_key :: "'hd RedisMessageQueue \<Rightarrow> string \<Rightarrow> string" where
  "dead_key q topic = mq_prefix q @ '':dead:'' @ topic"

definition subscribers_of :: "'hd RedisMessageQueue \<Rightarrow> string \<Rightarrow> 'hd list" where
  "subscribers_of q topic = (case map_of (mq_subscribers q) topic of None \<Rightarrow> [] | Some hs \<Rightarrow> hs)"

text \<open>Decoding into a \<^verbatim>\<open>string\<close>: JSON null leaves it empty.\<close>

fun json_string :: "json \<Rightarrow> string option" where
  "json_string (JStr s) = Some s"
| "json_string JNull = Some []"
| "json_string _ = None"

subsection \<open>Publishing and subscribing\<close>

text \<open>\<open>clock i\<close> is the \<open>i\<close>-th reading of the clock.\<close>

definition stamp_message :: "(nat \<Rightarrow> time) \<Rightarrow> string \<Rightarrow> QMessage \<Rightarrow> QMessage" where
  "stamp_message clock topic msg =
     msg\<lparr>qm_ID := (if qm_ID msg = [] then topic @ CHR '':'' # itoa (clock 0) else qm_ID msg),
       qm_Timestamp := clock 1, qm_Topic := topic\<rparr>"

definition count_published :: "time \<Rightarrow> string \<Rightarrow> 'hd RedisMessageQueue \<Rightarrow> 'hd RedisMessageQueue" where
  "count_published now topic q =
     (let s = mq_stats q;
          t = (case map_of (qs_TopicStats s) topic of
                 Some ts \<Rightarrow> ts\<lparr>ts_MessageCount := add64 (ts_MessageCount ts) 1, ts_LastMessageTime := now\<rparr>
               | None \<Rightarrow> \<lparr>ts_MessageCount = 1, ts_LastMessageTime = now,
                   ts_ConsumerCount = int (length (subscribers_of q topic))\<rparr>)
      in q\<lparr>mq_stats := s\<lparr>qs_TotalMessages := add64 (qs_TotalMessages s) 1,
             qs_PendingMessages := add64 (qs_PendingMessages s) 1,
             qs_TopicStats := gm_put topic t (qs_TopicStats s)\<rparr>\<rparr>)"

definition Queue_Publish ::
  "('s, 'hd, 'a) queue_env \<Rightarrow> (nat \<Rightarrow> time) \<Rightarrow> string \<Rightarrow> QMessage \<Rightarrow> 'hd RedisMessageQueue \<Rightarrow> 's \<Rightarrow>
    (queue_error, QMessage) outcome \<times> 'hd RedisMessageQueue \<times> 's" where
  "Queue_Publish env clock topic msg q st =
     (let msg1 = stamp_message clock topic msg
      in case marshal (qe_text env) (mc_json (qe_codec env) msg1) of
           None \<Rightarrow> (Err QueueMarshal, q, st)
         | Some data \<Rightarrow>
             (case Storage_SetWithTTL (qe_client env) (qe_text env) (qe_storage env) (message_key q (qm_ID msg1))
                     (JStr (mc_base64 (qe_codec env) data)) (mq_ttl q) st of
                (Err e, st1) \<Rightarrow> (Err (StoreFailed e), q, st1)
              | (_, st1) \<Rightarrow>
                  (case Storage_ListPush (qe_client env) (qe_text env) (qe_storage env) (queue_key q topic)
                          (JStr (qm_ID msg1)) st1 of
                     (Err e, st2) \<Rightarrow> (Err (EnqueueFailed e), q, st2)
                   | (_, st2) \<Rightarrow> (Ok msg1, count_published (clock 2) topic q, st2))))"

text \<open>The goroutines that \<^verbatim>\<open>Publish\<close> starts give the message to each of these handlers, whatever the consumers do.\<close>

definition notifySubscribers :: "'hd RedisMessageQueue \<Rightarrow> string \<Rightarrow> 'hd list" where
  "notifySubscribers q topic = subscribers_of q topic"

text \<open>Time \<open>0\<close> stands for the zero time of a topic without messages.\<close>

definition Queue_Subscribe :: "string \<Rightarrow> 'hd \<Rightarrow> 'hd RedisMessageQueue \<Rightarrow> 'hd RedisMessageQueue" where
  "Queue_Subscribe topic h q =
     (let hs = subscribers_of q topic @ [h];
          s = mq_stats q;
          t = (case map_of (qs_TopicStats s) topic of
                 Some ts \<Rightarrow> ts\<lparr>ts_ConsumerCount := int (length hs)\<rparr>
               | None \<Rightarrow> \<lparr>ts_MessageCount = 0, ts_LastMessageTime = 0, ts_ConsumerCount = 1\<rparr>)
      in q\<lparr>mq_subscribers := gm_put topic hs (mq_subscribers q),
           mq_stats := s\<lparr>qs_TopicStats := gm_put topic t (qs_TopicStats s)\<rparr>\<rparr>)"

subsection \<open>Acknowledging\<close>

definition Queue_Ack ::
  "('s, 'hd, 'a) queue_env \<Rightarrow> string \<Rightarrow> 'hd RedisMessageQueue \<Rightarrow> 's \<Rightarrow>
    (queue_error, unit) outcome \<times> 'hd RedisMessageQueue \<times> 's" where
  "Queue_Ack env messageID q st =
     (case Storage_Delete (qe_client env) (qe_storage env) (processing_key q messageID) st of
        (Err e, st1) \<Rightarrow> (Err (AckFailed e), q, st1)
      | (_, st1) \<Rightarrow>
          (let s = mq_stats q
           in (Ok (), q\<lparr>mq_stats := s\<lparr>qs_PendingMessages := add64 (qs_PendingMessages s) (- 1),
                 qs_ProcessedMessages := add64 (qs_ProcessedMessages s) 1\<rparr>\<rparr>, st1)))"

definition Queue_Nack ::
  "('s, 'hd, 'a) queue_env \<Rightarrow> string \<Rightarrow> 'hd RedisMessageQueue \<Rightarrow> 's \<Rightarrow>
    (queue_error, unit) outcome \<times> 'hd RedisMessageQueue \<times> 's" where
  "Queue_Nack env messageID q st =
     (case Storage_ListPop (qe_client env) (qe_text env) (qe_storage env) (mc_message (qe_codec env))
             (processing_key q messageID) st of
        (Ok m, st1) \<Rightarrow>
          (let msg = m\<lparr>qm_Retries := add64 (qm_Retries m) 1\<rparr>;
               push = (\<lambda>key. Storage_ListPush (qe_client env) (qe_text env) (qe_storage env) key
                        (mc_json (qe_codec env) msg) st1)
           in if qm_Retries msg > 3 then
                (case push (dead_key q (qm_Topic msg)) of
                   (Err e, st2) \<Rightarrow> (Err (DeadLetterFailed e), q, st2)
                 | (_, st2) \<Rightarrow>
                     (let s = mq_stats q
                      in (Ok (), q\<lparr>mq_stats := s\<lparr>qs_PendingMessages := add64 (qs_PendingMessages s) (- 1),
                            qs_FailedMessages := add64 (qs_FailedMessages s) 1\<rparr>\<rparr>, st2)))
              else
                (case push (queue_key q (qm_Topic msg)) of
                   (Err e, st2) \<Rightarrow> (Err (RequeueFailed e), q, st2)
                 | (_, st2) \<Rightarrow> (Ok (), q, st2)))
      | (Err e, st1) \<Rightarrow> (Err (ProcessingMissing e), q, st1)
      | (Panic, st1) \<Rightarrow> (Panic, q, st1) | (Blocks, st1) \<Rightarrow> (Blocks, q, st1))"

definition Queue_GetStats :: "'hd RedisMessageQueue \<Rightarrow> QueueStats" where
  "Queue_GetStats q = mq_stats q"

subsection \<open>Consuming\<close>

text \<open>After a message has been read: it moves to its list of messages in processing, and the handler decides.\<close>

definition handle_popped ::
  "('s, 'hd, 'a) queue_env \<Rightarrow> 'hd \<Rightarrow> string \<Rightarrow> QMessage \<Rightarrow> 'hd RedisMessageQueue \<Rightarrow> 's \<Rightarrow> 'a \<Rightarrow>
    'hd RedisMessageQueue \<times> 's \<times> 'a" where
  "handle_popped env h messageID msg q st a =
     (case Storage_ListPush (qe_client env) (qe_text env) (qe_storage env) (processing_key q messageID)
             (mc_json (qe_codec env) msg) st of
        (Err e, st1) \<Rightarrow> (q, st1, a)
      | (_, st1) \<Rightarrow>
          (let st2 = snd (Storage_Delete (qe_client env) (qe_storage env) (message_key q messageID) st1)
           in case qe_handle env h msg a of
                (Some e, a1) \<Rightarrow> (case Queue_Nack env messageID q st2 of (_, q1, st3) \<Rightarrow> (q1, st3, a1))
              | (None, a1) \<Rightarrow> (case Queue_Ack env messageID q st2 of (_, q1, st3) \<Rightarrow> (q1, st3, a1))))"

text \<open>One round of the loop of \<^verbatim>\<open>consumeMessages\<close> while the context is not cancelled.\<close>

definition consume_step ::
  "('s, 'hd, 'a) queue_env \<Rightarrow> string \<Rightarrow> 'hd \<Rightarrow> 'hd RedisMessageQueue \<Rightarrow> 's \<Rightarrow> 'a \<Rightarrow>
    'hd RedisMessageQueue \<times> 's \<times> 'a" where
  "consume_step env topic h q st a =
     (case Storage_ListPop (qe_client env) (qe_text env) (qe_storage env) json_string (queue_key q topic) st of
        (Ok messageID, st1) \<Rightarrow>
          (if messageID = [] then (q, st1, a)
           else
             (case Storage_Get (qe_client env) (qe_text env) (qe_storage env) (mc_message (qe_codec env))
                     (message_key q messageID) st1 of
                Ok msg \<Rightarrow> handle_popped env h messageID msg q st1 a
              | _ \<Rightarrow> (q, st1, a)))
      | (_, st1) \<Rightarrow> (q, st1, a))"

subsection \<open>Stream processor\<close>

record ('hd) StreamProcessor =
  sp_queue :: "'hd RedisMessageQueue"
  sp_processors :: "(string, 'hd) gomap"

definition NewStreamProcessor :: "'hd RedisMessageQueue \<Rightarrow> 'hd StreamProcessor" where
  "NewStreamProcessor q = \<lparr>sp_queue = q, sp_processors = []\<rparr>"

text \<open>The wrapper of a handler calls it with the same arguments, so it is the handler here.\<close>

definition RegisterProcessor :: "string \<Rightarrow> 'hd \<Rightarrow> 'hd StreamProcessor \<Rightarrow> 'hd StreamProcessor" where
  "RegisterProcessor topic h sp =
     sp\<lparr>sp_processors := gm_put topic h (sp_processors sp), sp_queue := Queue_Subscribe topic h (sp_queue sp)\<rparr>"

definition Processor_Process ::
  "('s, 'hd, 'a) queue_env \<Rightarrow> (nat \<Rightarrow> time) \<Rightarrow> string \<Rightarrow> string \<Rightarrow> (string, json) gomap \<Rightarrow> 'hd StreamProcessor \<Rightarrow> 's \<Rightarrow>
    (queue_error, QMessage) outcome \<times> 'hd StreamProcessor \<times> 's" where
  "Processor_Process env clock topic data metadata sp st =
     (case Queue_Publish env clock topic
             \<lparr>qm_ID = [], qm_Topic = topic, qm_Payload = data, qm_Metadata = metadata, qm_Timestamp = 0, qm_Retries = 0\<rparr>
             (sp_queue sp) st of
        (r, q, st1) \<Rightarrow> (r, sp\<lparr>sp_queue := q\<rparr>, st1))"

definition Processor_GetStats :: "'hd StreamProcessor \<Rightarrow> QueueStats" where
  "Processor_GetStats sp = Queue_GetStats (sp_queue sp)"

subsection \<open>The counters account for every message\<close>

datatype 'hd queue_op = QPublish "nat \<Rightarrow> time" string QMessage | QSubscribe string 'hd | QAck string | QNack string
  | QConsume string 'hd

fun queue_step ::
  "('s, 'hd, 'a) queue_env \<Rightarrow> 'hd queue_op \<Rightarrow> 'hd RedisMessageQueue \<times> 's \<times> 'a \<Rightarrow> 'hd RedisMessageQueue \<times> 's \<times> 'a" where
  "queue_step env (QPublish clock topic msg) (q, st, a) =
     (case Queue_Publish env clock topic msg q st of (_, q1, st1) \<Rightarrow> (q1, st1, a))"
| "queue_step env (QSubscribe topic h) (q, st, a) = (Queue_Subscribe topic h q, st, a)"
| "queue_step env (QAck i) (q, st, a) = (case Queue_Ack env i q st of (_, q1, st1) \<Rightarrow> (q1, st1, a))"
| "queue_step env (QNack i) (q, st, a) = (case Queue_Nack env i q st of (_, q1, st1) \<Rightarrow> (q1, st1, a))"
| "queue_step env (QConsume topic h) (q, st, a) = consume_step env topic h q st a"

definition balance :: "'hd RedisMessageQueue \<Rightarrow> u64" where
  "balance q = of_int (qs_TotalMessages (mq_stats q)) - of_int (qs_PendingMessages (mq_stats q))
     - of_int (qs_ProcessedMessages (mq_stats q)) - of_int (qs_FailedMessages (mq_stats q))"

lemma balance_simps [simp]:
  "balance (count_published now topic q) = balance q"
  "balance (Queue_Subscribe topic h q) = balance q"
  by (simp_all add: balance_def count_published_def Queue_Subscribe_def Let_def)

lemma balance_Publish: "balance (fst (snd (Queue_Publish env clock topic msg q st))) = balance q"
  by (simp add: Queue_Publish_def Let_def split: option.split prod.split outcome.split)

lemma balance_Ack: "balance (fst (snd (Queue_Ack env i q st))) = balance q"
  by (auto simp: Queue_Ack_def Let_def balance_def split: prod.split outcome.split)

lemma balance_Nack: "balance (fst (snd (Queue_Nack env i q st))) = balance q"
  by (auto simp: Queue_Nack_def Let_def balance_def split: prod.split outcome.split)

lemma balance_handle: "balance (fst (handle_popped env h i msg q st a)) = balance q"
  using balance_Ack [of env i q] balance_Nack [of env i q]
  by (auto simp: handle_popped_def Let_def split: prod.split outcome.split option.split) (metis fst_conv snd_conv)+

lemma balance_consume: "balance (fst (consume_step env topic h q st a)) = balance q"
  by (simp add: consume_step_def balance_handle split: prod.split outcome.split)

lemma balance_step: "balance (fst (queue_step env x s)) = balance (fst s)"
proof -
  obtain q st a where s: "s = (q, st, a)" by (cases s)
  show ?thesis
    using balance_Publish [of env _ _ _ q st] balance_Ack [of env _ q st] balance_Nack [of env _ q st]
    by (cases x) (auto simp: s balance_consume split: prod.split, (metis fst_conv snd_conv)+)
qed

text \<open>
  C34: the counters of a queue account for every message. After any calls, of any clients and consumers and whatever
  Redis answers, the messages published are the pending, the processed and the failed ones together, in 64-bit
  arithmetic.
\<close>

theorem queue_accounts:
  "balance (fst (fold (queue_step env) ops (NewRedisMessageQueue pre ttl, st, a))) = 0"
proof -
  have "balance (fst (fold (queue_step env) ops s)) = balance (fst s)" for s
    by (induction ops arbitrary: s) (simp_all add: balance_step)
  then show ?thesis by (simp add: balance_def NewRedisMessageQueue_def)
qed

subsection \<open>Consumers cannot read what is published\<close>

text \<open>
  What Redis documents of values and lists: \<^verbatim>\<open>SET\<close> sets a value, commands on lists leave other keys alone, and a list to
  which one element is pushed when it is empty gives that element.
\<close>

definition value_law :: "'s redis_client \<Rightarrow> bool" where
  "value_law rc \<longleftrightarrow>
     (\<forall>k v ttl st st'. rc_do rc (CSet k v ttl) st = (None, st') \<longrightarrow> rc_get rc k st' = RVal v) \<and>
     (\<forall>k k' v e st st'. rc_do rc (CLPush k v) st = (e, st') \<longrightarrow> k \<noteq> k' \<longrightarrow> rc_get rc k' st' = rc_get rc k' st) \<and>
     (\<forall>k k' r st st'. rc_rpop rc k st = (r, st') \<longrightarrow> k \<noteq> k' \<longrightarrow> rc_get rc k' st' = rc_get rc k' st)"

lemma message_not_queue: "formatKey rs (queue_key q topic) \<noteq> formatKey rs (message_key q i)"
  by (simp add: formatKey_def queue_key_def message_key_def)

lemma send_value_Ok:
  "send_value rc jt cmd v st = (Ok (), st') \<longleftrightarrow> (\<exists>d. marshal jt v = Some d \<and> rc_do rc (cmd d) st = (None, st'))"
  by (auto simp: send_value_def redis_result_def split: option.splits prod.splits)

lemma send_value_cases: "send_value rc jt cmd v st = (r, st') \<Longrightarrow> r = Ok () \<or> (\<exists>e. r = Err e)"
  by (auto simp: send_value_def redis_result_def split: option.splits prod.splits)

lemma Publish_Ok:
  assumes "Queue_Publish env clock topic msg q st = (Ok msg1, q1, st2)"
  obtains st1 data where "Storage_SetWithTTL (qe_client env) (qe_text env) (qe_storage env) (message_key q (qm_ID msg1))
      (JStr (mc_base64 (qe_codec env) data)) (mq_ttl q) st = (Ok (), st1)"
    and "Storage_ListPush (qe_client env) (qe_text env) (qe_storage env) (queue_key q topic) (JStr (qm_ID msg1)) st1 = (Ok (), st2)"
    and "q1 = count_published (clock 2) topic q"
  using assms
  by (auto simp: Queue_Publish_def Let_def Storage_SetWithTTL_def Storage_ListPush_def
      split: option.splits prod.splits outcome.splits dest: send_value_cases)

lemma published_value:
  assumes "value_law (qe_client env)" and "Queue_Publish env clock topic msg q st = (Ok msg1, q1, st2)"
  shows "\<exists>s d. marshal (qe_text env) (JStr s) = Some d \<and>
    rc_get (qe_client env) (formatKey (qe_storage env) (message_key q (qm_ID msg1))) st2 = RVal d"
proof -
  obtain st1 data where 1: "Storage_SetWithTTL (qe_client env) (qe_text env) (qe_storage env) (message_key q (qm_ID msg1))
      (JStr (mc_base64 (qe_codec env) data)) (mq_ttl q) st = (Ok (), st1)"
    and 2: "Storage_ListPush (qe_client env) (qe_text env) (qe_storage env) (queue_key q topic) (JStr (qm_ID msg1)) st1 = (Ok (), st2)"
    using assms(2) by (rule Publish_Ok)
  from 1 obtain d where d: "marshal (qe_text env) (JStr (mc_base64 (qe_codec env) data)) = Some d"
    "rc_do (qe_client env) (CSet (formatKey (qe_storage env) (message_key q (qm_ID msg1))) d (mq_ttl q)) st = (None, st1)"
    by (auto simp: Storage_SetWithTTL_def send_value_Ok)
  from 2 obtain d' where "rc_do (qe_client env) (CLPush (formatKey (qe_storage env) (queue_key q topic)) d') st1 = (None, st2)"
    by (auto simp: Storage_ListPush_def send_value_Ok)
  then show ?thesis using d assms(1) message_not_queue unfolding value_law_def by metis
qed

lemma key_count [simp]:
  "message_key (count_published now t q) i = message_key q i" "queue_key (count_published now t q) i = queue_key q i"
  by (simp_all add: message_key_def queue_key_def count_published_def Let_def)


text \<open>A server with values and lists, texts of strings, and an application that counts its messages.\<close>

type_synonym kv_state = "(string \<rightharpoonup> string) \<times> (string \<Rightarrow> string list)"

fun kv_do :: "redis_cmd \<Rightarrow> kv_state \<Rightarrow> string option \<times> kv_state" where
  "kv_do (CSet k v ttl) (vs, ls) = (None, vs(k \<mapsto> v), ls)"
| "kv_do (CLPush k v) (vs, ls) = (None, vs, ls(k := v # ls k))"
| "kv_do (CDel ks) (vs, ls) = (None, vs |` (- set ks), ls)"
| "kv_do _ st = (Some ''unknown'', st)"

definition kv_server :: "kv_state redis_client" where
  "kv_server =
     \<lparr>rc_do = kv_do, rc_exec = (\<lambda>cs st. (Some ''unknown'', st)),
      rc_get = (\<lambda>k st. case fst st k of None \<Rightarrow> RNil | Some v \<Rightarrow> RVal v), rc_get_all = (\<lambda>ks st. (None, [])),
      rc_hget = (\<lambda>k f st. RNil), rc_hgetall = (\<lambda>k st. Inr []),
      rc_rpop = (\<lambda>k (vs, ls). if ls k = [] then (RNil, vs, ls) else (RVal (last (ls k)), vs, ls(k := butlast (ls k)))),
      rc_exists = (\<lambda>k st. Inr 0), rc_incr = (\<lambda>k st. (Inr 0, st)), rc_incrby = (\<lambda>k i st. (Inr 0, st)),
      rc_zrangebyscore = (\<lambda>k a b st. Inr []), rc_keys = (\<lambda>p st. Inr []), rc_lrange = (\<lambda>k i j st. Inr []),
      rc_smembers = (\<lambda>k st. Inr []), rc_ttl = (\<lambda>k st. Inr 0), rc_ping = (\<lambda>st. None)\<rparr>"

definition quote_text :: json_text where
  "quote_text = \<lparr>marshal = (\<lambda>j. case j of JStr s \<Rightarrow> Some s | _ \<Rightarrow> Some []), unmarshal = (\<lambda>s. Some (JStr s))\<rparr>"

definition ex_env :: "(kv_state, unit, nat) queue_env" where
  "ex_env =
     \<lparr>qe_client = kv_server, qe_text = quote_text,
      qe_storage = \<lparr>rs_keyPrefix = [], rs_keyTTL = 0, rs_config =
        \<lparr>rf_Addresses = [], rf_Password = [], rf_DB = 0, rf_PoolSize = 10, rf_KeyPrefix = [], rf_DefaultTTL = 0,
         rf_EnableCluster = False, rf_EnableSentinel = False, rf_SentinelAddrs = [], rf_SentinelMaster = [],
         rf_Address = []\<rparr>\<rparr>,
      qe_codec = \<lparr>mc_json = (\<lambda>m. JObj []), mc_message = (\<lambda>j. None), mc_base64 = (\<lambda>d. d)\<rparr>,
      qe_handle = (\<lambda>h m n. (None, Suc n))\<rparr>"

definition ex_message :: QMessage where
  "ex_message = \<lparr>qm_ID = ''m1'', qm_Topic = [], qm_Payload = [], qm_Metadata = [], qm_Timestamp = 0, qm_Retries = 0\<rparr>"

lemma kv_server_law: "value_law kv_server"
  by (auto simp: value_law_def kv_server_def split: if_splits)


text \<open>
  A message that is not acknowledged is put into the queue itself instead of its id: a consumer that takes it cannot
  decode it as a string, and it is lost.
\<close>

lemma requeued_message_lost:
  assumes "rc_rpop (qe_client env) (formatKey (qe_storage env) (queue_key q topic)) st = (RVal t, st1)"
    and "unmarshal (qe_text env) t = Some (JObj fs)"
  shows "consume_step env topic h q st a = (q, st1, a)"
  using assms by (simp add: consume_step_def Storage_ListPop_def decode_into_def)

text \<open>Acknowledging does not look whether the message is in processing: a second time makes the number of pending messages negative.\<close>

lemma Ack_twice:
  "let (_, q1, st1) = Queue_Ack ex_env ''m1'' (NewRedisMessageQueue ''q'' 9) (Map.empty, \<lambda>k. [])
   in qs_PendingMessages (mq_stats q1) = - 1"
  by (simp add: Queue_Ack_def Storage_Delete_def redis_result_def ex_env_def kv_server_def NewRedisMessageQueue_def add64_def)

end
