(* ===== verification/Sliding_Window.thy ===== *)
theory Sliding_Window
  imports Json_Data
begin

text \<open>
  The sliding windows of \<^verbatim>\<open>pkg/algorithm/sliding_window.go\<close>: the latest values of a metric with running sums,
  limited by number and by age, and their statistics.

  Every operation takes the reading of the clock. The queries remove expired values too, so they return the
  window; a slice expression or an index out of range is \<open>Panic\<close>. A window of fixed size always holds the
  latest values of its history that are not expired, and its running sum is their sum
  (\<open>window_refines_history\<close>); its percentiles are ordered (\<open>percentiles_ordered\<close>). The adaptive mode and
  \<^verbatim>\<open>Reset\<close> break the sums, see the last section.
\<close>

subsection \<open>Window\<close>

record SlidingWindow =
  sw_size :: int
  sw_values :: "real list"
  sw_timestamps :: "time list"
  sw_sum :: real
  sw_sumSquared :: real
  sw_maxAge :: duration
  sw_adaptiveSize :: bool
  sw_minSize :: int
  sw_maxSize :: int
  sw_growthFactor :: real
  sw_shrinkFactor :: real
  sw_totalOperations :: int
  sw_lastResize :: time

text \<open>\<^verbatim>\<open>make\<close> panics for a negative capacity.\<close>

definition NewAdaptiveSlidingWindow :: "time \<Rightarrow> int \<Rightarrow> duration \<Rightarrow> bool \<Rightarrow> (unit, SlidingWindow) outcome" where
  "NewAdaptiveSlidingWindow now sz maxAge adaptive =
     (if sz < 0 then Panic
      else Ok \<lparr>sw_size = sz, sw_values = [], sw_timestamps = [], sw_sum = 0, sw_sumSquared = 0,
             sw_maxAge = maxAge, sw_adaptiveSize = adaptive, sw_minSize = 10, sw_maxSize = 1000,
             sw_growthFactor = 1.5, sw_shrinkFactor = 0.8, sw_totalOperations = 0, sw_lastResize = now\<rparr>)"

definition NewSlidingWindow :: "time \<Rightarrow> int \<Rightarrow> duration \<Rightarrow> (unit, SlidingWindow) outcome" where
  "NewSlidingWindow now sz maxAge = NewAdaptiveSlidingWindow now sz maxAge False"

text \<open>The loop of \<^verbatim>\<open>cleanExpired\<close> on the two slices from index \<open>i\<close> on.\<close>

fun clean_loop :: "time \<Rightarrow> real list \<Rightarrow> time list \<Rightarrow> real \<Rightarrow> real \<Rightarrow> (unit, real list \<times> time list \<times> real \<times> real) outcome" where
  "clean_loop cutoff vs [] sm sq = Ok (vs, [], sm, sq)"
| "clean_loop cutoff vs (t # ts) sm sq =
     (if \<not> t < cutoff then Ok (vs, t # ts, sm, sq)
      else (case vs of [] \<Rightarrow> Panic | v # vs' \<Rightarrow> clean_loop cutoff vs' ts (sm - v) (sq - v * v)))"

definition cleanExpired :: "time \<Rightarrow> SlidingWindow \<Rightarrow> (unit, SlidingWindow) outcome" where
  "cleanExpired now w =
     (if sw_maxAge w \<le> 0 \<or> sw_values w = [] then Ok w
      else (case clean_loop (now - sw_maxAge w) (sw_values w) (sw_timestamps w) (sw_sum w) (sw_sumSquared w) of
          Ok (vs, ts, sm, sq) \<Rightarrow> Ok (w\<lparr>sw_values := vs, sw_timestamps := ts, sw_sum := sm, sw_sumSquared := sq\<rparr>)
        | _ \<Rightarrow> Panic))"

text \<open>\<open>xs[n:]\<close> for a slice.\<close>

definition slice_from :: "int \<Rightarrow> 'a list \<Rightarrow> (unit, 'a list) outcome" where
  "slice_from n xs = (if 0 \<le> n \<and> n \<le> int (length xs) then Ok (drop (nat n) xs) else Panic)"

definition shrink_window :: "time \<Rightarrow> int \<Rightarrow> SlidingWindow \<Rightarrow> (unit, SlidingWindow) outcome" where
  "shrink_window now newSize w =
     (let removeCount = sw_size w - newSize
      in if removeCount > 0 then
           (case (slice_from removeCount (sw_values w), slice_from removeCount (sw_timestamps w)) of
              (Ok vs, Ok ts) \<Rightarrow>
                Ok (w\<lparr>sw_values := vs, sw_timestamps := ts, sw_size := newSize, sw_lastResize := now\<rparr>)
            | _ \<Rightarrow> Panic)
         else Ok (w\<lparr>sw_size := newSize, sw_lastResize := now\<rparr>))"

text \<open>A minute is \<open>60000000000\<close> nanoseconds.\<close>

definition adjustSize :: "time \<Rightarrow> SlidingWindow \<Rightarrow> (unit, SlidingWindow) outcome" where
  "adjustSize now w =
     (if now - sw_lastResize w < 60000000000 then Ok w
      else
        (let fillRatio = real (length (sw_values w)) / of_int (sw_size w)
         in if fillRatio > 0.8 \<and> sw_size w < sw_maxSize w then
              (let newSize = go_int64 (of_int (sw_size w) * sw_growthFactor w);
                   newSize = (if newSize > sw_maxSize w then sw_maxSize w else newSize)
               in if newSize > sw_size w then Ok (w\<lparr>sw_size := newSize, sw_lastResize := now\<rparr>) else Ok w)
            else if fillRatio < 0.3 \<and> sw_size w > sw_minSize w then
              (let newSize = go_int64 (of_int (sw_size w) * sw_shrinkFactor w);
                   newSize = (if newSize < sw_minSize w then sw_minSize w else newSize)
               in if newSize < sw_size w then shrink_window now newSize w else Ok w)
            else Ok w))"

text \<open>The oldest value makes room when the window is full.\<close>

definition make_room :: "SlidingWindow \<Rightarrow> (unit, SlidingWindow) outcome" where
  "make_room w =
     (if int (length (sw_values w)) \<ge> sw_size w then
        (case (sw_values w, sw_timestamps w) of
           (v0 # vs, t0 # ts) \<Rightarrow>
             Ok (w\<lparr>sw_sum := sw_sum w - v0, sw_sumSquared := sw_sumSquared w - v0 * v0,
               sw_values := vs, sw_timestamps := ts\<rparr>)
         | _ \<Rightarrow> Panic)
      else Ok w)"

definition push_value :: "time \<Rightarrow> real \<Rightarrow> SlidingWindow \<Rightarrow> (unit, SlidingWindow) outcome" where
  "push_value now v w =
     (case make_room w of
        Ok w1 \<Rightarrow>
          Ok (w1\<lparr>sw_values := sw_values w1 @ [v], sw_timestamps := sw_timestamps w1 @ [now],
            sw_sum := sw_sum w1 + v, sw_sumSquared := sw_sumSquared w1 + v * v\<rparr>)
      | _ \<Rightarrow> Panic)"

fun push_values :: "time \<Rightarrow> real list \<Rightarrow> SlidingWindow \<Rightarrow> (unit, SlidingWindow) outcome" where
  "push_values now [] w = Ok w"
| "push_values now (v # vs) w = (case push_value now v w of Ok w1 \<Rightarrow> push_values now vs w1 | _ \<Rightarrow> Panic)"

text \<open>\<open>now2\<close> is the second reading of the clock, in \<^verbatim>\<open>adjustSize\<close>.\<close>

definition adapt :: "time \<Rightarrow> (unit, SlidingWindow) outcome \<Rightarrow> (unit, SlidingWindow) outcome" where
  "adapt now2 r = (case r of Ok w \<Rightarrow> if sw_adaptiveSize w then adjustSize now2 w else Ok w | _ \<Rightarrow> Panic)"

definition SlidingWindow_Add :: "time \<Rightarrow> time \<Rightarrow> real \<Rightarrow> SlidingWindow \<Rightarrow> (unit, SlidingWindow) outcome" where
  "SlidingWindow_Add now now2 v w =
     (case cleanExpired now (w\<lparr>sw_totalOperations := add64 (sw_totalOperations w) 1\<rparr>) of
        Ok w1 \<Rightarrow> adapt now2 (push_value now v w1)
      | _ \<Rightarrow> Panic)"

definition SlidingWindow_AddBatch :: "time \<Rightarrow> time \<Rightarrow> real list \<Rightarrow> SlidingWindow \<Rightarrow> (unit, SlidingWindow) outcome" where
  "SlidingWindow_AddBatch now now2 vs w =
     (case cleanExpired now (w\<lparr>sw_totalOperations := add64 (sw_totalOperations w) (int (length vs))\<rparr>) of
        Ok w1 \<Rightarrow> adapt now2 (push_values now vs w1)
      | _ \<Rightarrow> Panic)"

definition SlidingWindow_Reset :: "SlidingWindow \<Rightarrow> (unit, SlidingWindow) outcome" where
  "SlidingWindow_Reset w =
     (if sw_size w < 0 then Panic else Ok (w\<lparr>sw_values := [], sw_timestamps := [], sw_sum := 0\<rparr>))"

definition SetAdaptive :: "bool \<Rightarrow> int \<Rightarrow> int \<Rightarrow> real \<Rightarrow> real \<Rightarrow> SlidingWindow \<Rightarrow> SlidingWindow" where
  "SetAdaptive adaptive minSize maxSize growthFactor shrinkFactor w =
     w\<lparr>sw_adaptiveSize := adaptive,
       sw_minSize := (if minSize > 0 then minSize else sw_minSize w),
       sw_maxSize := (if maxSize > 0 then maxSize else sw_maxSize w),
       sw_growthFactor := (if growthFactor > 0 then growthFactor else sw_growthFactor w),
       sw_shrinkFactor := (if shrinkFactor > 0 then shrinkFactor else sw_shrinkFactor w)\<rparr>"

subsection \<open>Statistics\<close>

text \<open>Every query cleans the window first and then reads it.\<close>

definition query :: "time \<Rightarrow> (SlidingWindow \<Rightarrow> 'a) \<Rightarrow> SlidingWindow \<Rightarrow> (unit, 'a \<times> SlidingWindow) outcome" where
  "query now f w = (case cleanExpired now w of Ok w1 \<Rightarrow> Ok (f w1, w1) | _ \<Rightarrow> Panic)"

definition average_of :: "SlidingWindow \<Rightarrow> real" where
  "average_of w = (if sw_values w = [] then 0 else sw_sum w / real (length (sw_values w)))"

definition min_of :: "SlidingWindow \<Rightarrow> real" where
  "min_of w = (case sw_values w of [] \<Rightarrow> 0 | v0 # _ \<Rightarrow> foldl (\<lambda>m v. if v < m then v else m) v0 (sw_values w))"

definition max_of :: "SlidingWindow \<Rightarrow> real" where
  "max_of w = (case sw_values w of [] \<Rightarrow> 0 | v0 # _ \<Rightarrow> foldl (\<lambda>m v. if v > m then v else m) v0 (sw_values w))"

definition stddev_of :: "SlidingWindow \<Rightarrow> real" where
  "stddev_of w =
     (let n = length (sw_values w)
      in if n < 2 then 0
         else
           (let mean = sw_sum w / real n;
                variance = sw_sumSquared w / real n - mean * mean
            in sqrt (if variance < 0 then 0 else variance)))"

definition percentile_of :: "real \<Rightarrow> SlidingWindow \<Rightarrow> real" where
  "percentile_of p w =
     (if sw_values w = [] then 0
      else
        (let sorted_values = sort (sw_values w);
             index = go_int64 (real (length sorted_values - 1) * p / 100);
             index = (if index < 0 then 0 else index);
             index = (if index \<ge> int (length sorted_values) then int (length sorted_values) - 1 else index)
         in sorted_values ! nat index))"

text \<open>A second is \<open>1000000000\<close> nanoseconds.\<close>

definition rate_of :: "SlidingWindow \<Rightarrow> real" where
  "rate_of w =
     (if length (sw_values w) < 2 then 0
      else
        (let dur = last (sw_timestamps w) - hd (sw_timestamps w)
         in if dur \<le> 0 then 0
            else (last (sw_values w) - hd (sw_values w)) / (of_int dur / 1000000000)))"

definition SlidingWindow_Average :: "time \<Rightarrow> SlidingWindow \<Rightarrow> (unit, real \<times> SlidingWindow) outcome" where
  "SlidingWindow_Average now = query now average_of"

definition SlidingWindow_Min :: "time \<Rightarrow> SlidingWindow \<Rightarrow> (unit, real \<times> SlidingWindow) outcome" where
  "SlidingWindow_Min now = query now min_of"

definition SlidingWindow_Max :: "time \<Rightarrow> SlidingWindow \<Rightarrow> (unit, real \<times> SlidingWindow) outcome" where
  "SlidingWindow_Max now = query now max_of"

definition SlidingWindow_Count :: "time \<Rightarrow> SlidingWindow \<Rightarrow> (unit, nat \<times> SlidingWindow) outcome" where
  "SlidingWindow_Count now = query now (\<lambda>w. length (sw_values w))"

definition SlidingWindow_Values :: "time \<Rightarrow> SlidingWindow \<Rightarrow> (unit, real list \<times> SlidingWindow) outcome" where
  "SlidingWindow_Values now = query now sw_values"

definition StandardDeviation :: "time \<Rightarrow> SlidingWindow \<Rightarrow> (unit, real \<times> SlidingWindow) outcome" where
  "StandardDeviation now = query now stddev_of"

definition SlidingWindow_Variance :: "time \<Rightarrow> SlidingWindow \<Rightarrow> (unit, real \<times> SlidingWindow) outcome" where
  "SlidingWindow_Variance now = query now (\<lambda>w. stddev_of w * stddev_of w)"

definition SlidingWindow_Percentile :: "time \<Rightarrow> real \<Rightarrow> SlidingWindow \<Rightarrow> (unit, real \<times> SlidingWindow) outcome" where
  "SlidingWindow_Percentile now p = query now (percentile_of p)"

definition SlidingWindow_Rate :: "time \<Rightarrow> SlidingWindow \<Rightarrow> (unit, real \<times> SlidingWindow) outcome" where
  "SlidingWindow_Rate now = query now rate_of"

text \<open>
  \<^verbatim>\<open>GetStats\<close> calls the queries one after the other; \<open>clock i\<close> is the \<open>i\<close>-th reading of the clock.
  Then it reads the last value, which is an index out of range when all values have expired meanwhile.
\<close>

primrec run_queries ::
  "(nat \<Rightarrow> time) \<Rightarrow> nat \<Rightarrow> (string \<times> (SlidingWindow \<Rightarrow> real)) list \<Rightarrow> SlidingWindow \<Rightarrow>
    (unit, (string, real) gomap \<times> SlidingWindow) outcome" where
  "run_queries clock i [] w = Ok ([], w)"
| "run_queries clock i (q # qs) w =
     (case query (clock i) (snd q) w of
        Ok (x, w1) \<Rightarrow>
          (case run_queries clock (Suc i) qs w1 of Ok (rest, w2) \<Rightarrow> Ok ((fst q, x) # rest, w2) | _ \<Rightarrow> Panic)
      | _ \<Rightarrow> Panic)"

definition stat_queries :: "(string \<times> (SlidingWindow \<Rightarrow> real)) list" where
  "stat_queries =
     [(''min'', min_of), (''max'', max_of), (''std_dev'', stddev_of), (''variance'', \<lambda>w. stddev_of w * stddev_of w),
      (''median'', percentile_of 50), (''p90'', percentile_of 90), (''p95'', percentile_of 95),
      (''p99'', percentile_of 99), (''rate'', rate_of)]"

definition SlidingWindow_GetStats ::
  "(nat \<Rightarrow> time) \<Rightarrow> SlidingWindow \<Rightarrow> (unit, (string, real) gomap \<times> SlidingWindow) outcome" where
  "SlidingWindow_GetStats clock w =
     (case cleanExpired (clock 0) w of
        Ok w1 \<Rightarrow>
          (let n = length (sw_values w1);
               tail = [(''window_size'', of_int (sw_size w1)), (''operations'', of_int (sw_totalOperations w1))]
           in if n > 0 then
                (case run_queries clock 1 stat_queries w1 of
                   Ok (stats, w2) \<Rightarrow>
                     (if sw_values w2 = [] then Panic
                      else Ok ([(''count'', real n), (''sum'', sw_sum w1), (''avg'', sw_sum w1 / real n)] @ stats
                        @ [(''last_value'', last (sw_values w2))] @ tail, w2))
                 | _ \<Rightarrow> Panic)
              else Ok (map (\<lambda>k. (k, 0)) ([''count'', ''sum'', ''avg''] @ map fst stat_queries @ [''last_value'']) @ tail, w1))
      | _ \<Rightarrow> Panic)"

text \<open>The values of \<^verbatim>\<open>GetWindowInfo\<close> with their dynamic types; durations and times are printed by the arguments.\<close>

datatype info_value = InfoInt int | InfoInt64 int | InfoFloat real | InfoBool bool | InfoString string | InfoTime time

definition GetWindowInfo ::
  "(duration \<Rightarrow> string) \<Rightarrow> (time \<Rightarrow> string) \<Rightarrow> SlidingWindow \<Rightarrow> (string, info_value) gomap" where
  "GetWindowInfo dur_String time_Format w =
     [(''size'', InfoInt (sw_size w)), (''count'', InfoInt (int (length (sw_values w)))),
      (''max_age'', InfoString (dur_String (sw_maxAge w))), (''adaptive'', InfoBool (sw_adaptiveSize w)),
      (''min_size'', InfoInt (sw_minSize w)), (''max_size'', InfoInt (sw_maxSize w)),
      (''growth_factor'', InfoFloat (sw_growthFactor w)), (''shrink_factor'', InfoFloat (sw_shrinkFactor w)),
      (''total_operations'', InfoInt64 (sw_totalOperations w)),
      (''last_resize'', InfoString (time_Format (sw_lastResize w)))]"

subsection \<open>The reference: the history of a window\<close>

text \<open>
  A history lists the values with their times, oldest first. At time \<open>now\<close> a window of size \<open>n\<close> should hold the
  last \<open>n\<close> of those that are not expired.
\<close>

type_synonym history = "(time \<times> real) list"

definition recent :: "duration \<Rightarrow> time \<Rightarrow> time \<times> real \<Rightarrow> bool" where
  "recent maxAge now x \<longleftrightarrow> maxAge \<le> 0 \<or> now - maxAge \<le> fst x"

definition window_spec :: "nat \<Rightarrow> duration \<Rightarrow> time \<Rightarrow> history \<Rightarrow> history" where
  "window_spec n maxAge now h = last_n n (filter (recent maxAge now) h)"

definition chronological :: "time \<Rightarrow> history \<Rightarrow> bool" where
  "chronological now h \<longleftrightarrow> sorted (map fst h) \<and> (\<forall>x \<in> set h. fst x \<le> now)"

text \<open>A window that holds a list of timed values, with the right sum.\<close>

definition holds :: "SlidingWindow \<Rightarrow> history \<Rightarrow> bool" where
  "holds w xs \<longleftrightarrow> sw_values w = map snd xs \<and> sw_timestamps w = map fst xs \<and> sw_sum w = sum_list (map snd xs)"

lemma last_n_filter:
  assumes "sorted (map fst xs)" and up: "\<And>x y. P x \<Longrightarrow> fst x \<le> fst y \<Longrightarrow> P y"
  shows "filter P (last_n n xs) = last_n n (filter P xs)"
  using assms(1)
proof (induction xs)
  case (Cons x xs)
  show ?case
  proof (cases "P x")
    case True
    then have "\<forall>y \<in> set (x # xs). P y" using Cons.prems up by auto
    moreover from this have "\<forall>y \<in> set (last_n n (x # xs)). P y"
      using set_drop_subset [of "length (x # xs) - n" "x # xs"] unfolding last_n_def by blast
    ultimately show ?thesis by (simp only: filter_id_conv [THEN iffD2])
  next
    case False
    have "last_n n (x # xs) = (if Suc (length xs) \<le> n then x # xs else last_n n xs)"
      by (auto simp: last_n_def Suc_diff_le not_less_eq_eq)
    moreover have "length xs \<le> n \<Longrightarrow> last_n n xs = xs" by (simp add: last_n_def)
    ultimately show ?thesis using False Cons by auto
  qed
qed (simp add: last_n_def)

lemma recent_up: "recent maxAge now x \<Longrightarrow> fst x \<le> fst y \<Longrightarrow> recent maxAge now y"
  by (auto simp: recent_def)

lemma recent_later: "now \<le> now' \<Longrightarrow> recent maxAge now' x \<Longrightarrow> recent maxAge now x"
  by (auto simp: recent_def)

lemma window_spec_later:
  assumes "chronological now h" and "now \<le> now'"
  shows "filter (recent maxAge now') (window_spec n maxAge now h) = window_spec n maxAge now' h"
proof -
  have "sorted (map fst (filter (recent maxAge now) h))"
    using assms(1) by (auto simp: chronological_def intro: sorted_filter)
  then have "filter (recent maxAge now') (window_spec n maxAge now h) =
      last_n n (filter (recent maxAge now') (filter (recent maxAge now) h))"
    unfolding window_spec_def by (rule last_n_filter) (rule recent_up)
  also have "filter (recent maxAge now') (filter (recent maxAge now) h) = filter (recent maxAge now') h"
    using recent_later [OF assms(2)] by (auto intro: filter_cong)
  finally show ?thesis by (simp add: window_spec_def)
qed

subsection \<open>A window of fixed size follows its history\<close>

definition tracks :: "nat \<Rightarrow> duration \<Rightarrow> time \<Rightarrow> history \<Rightarrow> SlidingWindow \<Rightarrow> bool" where
  "tracks n maxAge now h w \<longleftrightarrow> 0 < n \<and> sw_size w = int n \<and> sw_maxAge w = maxAge \<and> \<not> sw_adaptiveSize w \<and>
     chronological now h \<and> holds w (window_spec n maxAge now h)"

lemma clean_loop_sorted:
  "sorted (map fst xs) \<Longrightarrow>
    \<exists>sq'. clean_loop c (map snd xs) (map fst xs) (sum_list (map snd xs)) sq =
      Ok (map snd (filter (\<lambda>x. c \<le> fst x) xs), map fst (filter (\<lambda>x. c \<le> fst x) xs),
        sum_list (map snd (filter (\<lambda>x. c \<le> fst x) xs)), sq')"
proof (induction xs arbitrary: sq)
  case (Cons x xs)
  show ?case
  proof (cases "fst x < c")
    case True
    then show ?thesis using Cons.IH [of "sq - snd x * snd x"] Cons.prems by simp
  next
    case False
    then have "filter (\<lambda>x. c \<le> fst x) (x # xs) = x # xs"
      using Cons.prems by (fastforce intro: filter_True)
    then show ?thesis using False by simp
  qed
qed simp

lemma chronological_later: "chronological now h \<Longrightarrow> now \<le> now' \<Longrightarrow> chronological now' h"
  by (fastforce simp: chronological_def)

lemma sorted_window_spec: "chronological now h \<Longrightarrow> sorted (map fst (window_spec n maxAge now h))"
  by (auto simp: chronological_def window_spec_def last_n_def drop_map [symmetric] intro!: sorted_wrt_drop sorted_filter)

lemma cleanExpired_tracks:
  assumes "tracks n maxAge now h w" and "now \<le> now'"
  obtains w' where "cleanExpired now' w = Ok w'" and "tracks n maxAge now' h w'"
    and "sw_totalOperations w' = sw_totalOperations w"
proof -
  let ?xs = "window_spec n maxAge now h"
  have h: "holds w ?xs" and chr: "chronological now h" and t: "chronological now' h"
    using assms chronological_later by (auto simp: tracks_def)
  have later: "filter (recent maxAge now') ?xs = window_spec n maxAge now' h"
    by (rule window_spec_later [OF chr assms(2)])
  show ?thesis
  proof (cases "maxAge \<le> 0 \<or> ?xs = []")
    case True
    then have "filter (recent maxAge now') ?xs = ?xs" by (auto simp: recent_def)
    then have "tracks n maxAge now' h w" using assms(1) t later by (simp add: tracks_def)
    moreover have "cleanExpired now' w = Ok w" using True assms(1) h by (auto simp: cleanExpired_def tracks_def holds_def)
    ultimately show ?thesis using that by simp
  next
    case False
    let ?ys = "filter (\<lambda>x. now' - maxAge \<le> fst x) ?xs"
    have "?ys = filter (recent maxAge now') ?xs" using False by (intro filter_cong) (auto simp: recent_def)
    then have ys: "?ys = window_spec n maxAge now' h" using later by simp
    obtain sq' where "clean_loop (now' - maxAge) (map snd ?xs) (map fst ?xs) (sum_list (map snd ?xs)) (sw_sumSquared w) =
        Ok (map snd ?ys, map fst ?ys, sum_list (map snd ?ys), sq')"
      using clean_loop_sorted [OF sorted_window_spec [OF chr]] by blast
    then have "cleanExpired now' w = Ok (w\<lparr>sw_values := map snd ?ys, sw_timestamps := map fst ?ys,
        sw_sum := sum_list (map snd ?ys), sw_sumSquared := sq'\<rparr>)"
      using False assms(1) h by (simp add: cleanExpired_def tracks_def holds_def)
    then show ?thesis by (rule that) (use assms(1) t ys in \<open>simp_all add: tracks_def holds_def\<close>)
  qed
qed

lemma holds_push:
  assumes "holds w xs" and "sw_size w = int n" and "0 < n" and "length xs \<le> n"
  shows "\<exists>w'. push_value now v w = Ok w' \<and> holds w' ((if n \<le> length xs then tl xs else xs) @ [(now, v)]) \<and>
    sw_size w' = sw_size w \<and> sw_maxAge w' = sw_maxAge w \<and> sw_adaptiveSize w' = sw_adaptiveSize w"
  using assms by (cases xs) (auto simp: push_value_def make_room_def holds_def)

lemma push_value_tracks:
  assumes "tracks n maxAge now h w"
  obtains w' where "push_value now v w = Ok w'" and "tracks n maxAge now (h @ [(now, v)]) w'"
proof -
  let ?f = "filter (recent maxAge now) h"
  have n: "0 < n" "sw_size w = int n" and hw: "holds w (last_n n ?f)"
    using assms by (auto simp: tracks_def window_spec_def)
  obtain w' where w': "push_value now v w = Ok w'"
    "holds w' ((if n \<le> length (last_n n ?f) then tl (last_n n ?f) else last_n n ?f) @ [(now, v)])"
    "sw_size w' = sw_size w" "sw_maxAge w' = sw_maxAge w" "sw_adaptiveSize w' = sw_adaptiveSize w"
    using holds_push [OF hw n(2,1)] by auto
  have "(if n \<le> length (last_n n ?f) then tl (last_n n ?f) else last_n n ?f) @ [(now, v)] = last_n n (?f @ [(now, v)])"
    using n(1) by (auto simp: last_n_snoc) (simp add: last_n_def)
  moreover have "window_spec n maxAge now (h @ [(now, v)]) = last_n n (?f @ [(now, v)])"
  proof -
    have "recent maxAge now (now, v)" by (auto simp: recent_def)
    then show ?thesis by (simp add: window_spec_def)
  qed
  moreover have "chronological now (h @ [(now, v)])"
    using assms by (auto simp: tracks_def chronological_def sorted_append)
  ultimately have "tracks n maxAge now (h @ [(now, v)]) w'" using w' assms by (simp add: tracks_def)
  with w'(1) show ?thesis by (rule that)
qed

lemma push_values_tracks:
  assumes "tracks n maxAge now h w"
  shows "\<exists>w'. push_values now vs w = Ok w' \<and> tracks n maxAge now (h @ map (Pair now) vs) w'"
  using assms
proof (induction vs arbitrary: h w)
  case (Cons v vs)
  obtain w1 where "push_value now v w = Ok w1" and "tracks n maxAge now (h @ [(now, v)]) w1"
    using Cons.prems by (rule push_value_tracks)
  then show ?case using Cons.IH [of "h @ [(now, v)]" w1] by simp
qed auto

text \<open>Calls on a window with their clock readings, and what they do to the history.\<close>

datatype window_op = WAdd time real | WAddBatch time "real list" | WReset | WQuery

fun window_step :: "time \<Rightarrow> window_op \<Rightarrow> SlidingWindow \<Rightarrow> (unit, SlidingWindow) outcome" where
  "window_step now (WAdd now2 v) w = SlidingWindow_Add now now2 v w"
| "window_step now (WAddBatch now2 vs) w = SlidingWindow_AddBatch now now2 vs w"
| "window_step now WReset w = SlidingWindow_Reset w"
| "window_step now WQuery w = cleanExpired now w"

fun window_run :: "(time \<times> window_op) list \<Rightarrow> SlidingWindow \<Rightarrow> (unit, SlidingWindow) outcome" where
  "window_run [] w = Ok w"
| "window_run ((now, x) # ops) w = (case window_step now x w of Ok w1 \<Rightarrow> window_run ops w1 | _ \<Rightarrow> Panic)"

fun history_step :: "time \<times> window_op \<Rightarrow> history \<Rightarrow> history" where
  "history_step (now, WAdd now2 v) h = h @ [(now, v)]"
| "history_step (now, WAddBatch now2 vs) h = h @ map (Pair now) vs"
| "history_step (now, WReset) h = []"
| "history_step (now, WQuery) h = h"

definition history_of :: "(time \<times> window_op) list \<Rightarrow> history" where
  "history_of ops = fold history_step ops []"

lemma tracks_count [simp]: "tracks n maxAge now h (w\<lparr>sw_totalOperations := k\<rparr>) = tracks n maxAge now h w"
  by (simp add: tracks_def holds_def)

lemma cleanExpired_counted:
  "tracks n maxAge now h w \<Longrightarrow> now \<le> now' \<Longrightarrow>
    \<exists>w'. cleanExpired now' (w\<lparr>sw_totalOperations := k\<rparr>) = Ok w' \<and> tracks n maxAge now' h w'"
  by (rule cleanExpired_tracks [of n maxAge now h "w\<lparr>sw_totalOperations := k\<rparr>" now']) auto

lemma tracks_adapt: "tracks n maxAge now h w \<Longrightarrow> adapt now2 (Ok w) = Ok w"
  by (simp add: adapt_def tracks_def)

lemma window_step_tracks:
  assumes "tracks n maxAge now h w" and "now \<le> now'"
  shows "\<exists>w'. window_step now' x w = Ok w' \<and> tracks n maxAge now' (history_step (now', x) h) w'"
proof (cases x)
  case (WAdd now2 v)
  obtain w1 where 1: "cleanExpired now' (w\<lparr>sw_totalOperations := add64 (sw_totalOperations w) 1\<rparr>) = Ok w1"
    "tracks n maxAge now' h w1"
    using cleanExpired_counted [OF assms] by blast
  obtain w2 where "push_value now' v w1 = Ok w2" "tracks n maxAge now' (h @ [(now', v)]) w2"
    using 1(2) by (rule push_value_tracks)
  then show ?thesis using 1(1) WAdd by (simp add: SlidingWindow_Add_def tracks_adapt)
next
  case (WAddBatch now2 vs)
  let ?w = "w\<lparr>sw_totalOperations := add64 (sw_totalOperations w) (int (length vs))\<rparr>"
  obtain w1 where 1: "cleanExpired now' ?w = Ok w1" "tracks n maxAge now' h w1"
    using cleanExpired_counted [OF assms] by blast
  then obtain w2 where "push_values now' vs w1 = Ok w2" "tracks n maxAge now' (h @ map (Pair now') vs) w2"
    using push_values_tracks by blast
  then show ?thesis using 1(1) WAddBatch by (simp add: SlidingWindow_AddBatch_def tracks_adapt)
next
  case WReset
  then show ?thesis
    using assms(1) by (simp add: SlidingWindow_Reset_def tracks_def holds_def chronological_def window_spec_def last_n_def)
next
  case WQuery
  obtain w' where "cleanExpired now' w = Ok w'" and "tracks n maxAge now' h w'" using assms by (rule cleanExpired_tracks)
  then show ?thesis using WQuery by simp
qed

lemma window_run_tracks:
  "tracks n maxAge t h w \<Longrightarrow> sorted (t # map fst ops) \<Longrightarrow>
    \<exists>w' t'. window_run ops w = Ok w' \<and> tracks n maxAge t' (fold history_step ops h) w' \<and> t' = last (t # map fst ops)"
proof (induction ops arbitrary: t h w)
  case (Cons x ops)
  obtain now y where x: "x = (now, y)" by (cases x)
  obtain w1 where "window_step now y w = Ok w1" "tracks n maxAge now (history_step (now, y) h) w1"
    using window_step_tracks [OF Cons.prems(1), of now y] Cons.prems(2) x by auto
  then show ?case using Cons.IH [of now "history_step (now, y) h" w1] Cons.prems(2) x by auto
qed auto

lemma query_tracks:
  assumes "tracks n maxAge now h w" and "now \<le> now'"
  obtains w' where "query now' f w = Ok (f w', w')" and "holds w' (window_spec n maxAge now' h)"
proof -
  obtain w' where "cleanExpired now' w = Ok w'" and "tracks n maxAge now' h w'" using assms by (rule cleanExpired_tracks)
  then show ?thesis by (intro that [of w']) (simp_all add: query_def tracks_def)
qed

definition mean :: "real list \<Rightarrow> real" where
  "mean xs = (if xs = [] then 0 else sum_list xs / real (length xs))"

lemma holds_average: "holds w xs \<Longrightarrow> average_of w = mean (map snd xs)"
  by (simp add: holds_def average_of_def mean_def)

lemma new_window_tracks:
  "0 < n \<Longrightarrow> \<exists>w. NewSlidingWindow t0 (int n) maxAge = Ok w \<and> tracks n maxAge t [] w"
  by (simp add: NewSlidingWindow_def NewAdaptiveSlidingWindow_def tracks_def holds_def chronological_def
      window_spec_def last_n_def)



subsection \<open>Percentiles are ordered\<close>

lemma foldl_min_le:
  "foldl (\<lambda>m v. if v < m then v else m) (a :: real) xs \<le> a"
  "x \<in> set xs \<Longrightarrow> foldl (\<lambda>m v. if v < m then v else m) (a :: real) xs \<le> x"
proof (induction xs arbitrary: a)
  case (Cons y xs)
  {
    case 1
    show ?case using Cons(1) [of "if y < a then y else a"] by (simp split: if_splits)
  next
    case 2
    then show ?case using Cons(1) [of "if y < a then y else a"] Cons(2) by (auto split: if_splits)
  }
qed simp_all

lemma foldl_max_ge:
  "a \<le> foldl (\<lambda>m v. if v > m then v else m) (a :: real) xs"
  "x \<in> set xs \<Longrightarrow> x \<le> foldl (\<lambda>m v. if v > m then v else m) (a :: real) xs"
proof (induction xs arbitrary: a)
  case (Cons y xs)
  {
    case 1
    show ?case using Cons(1) [of "if y > a then y else a"] by (simp split: if_splits)
  next
    case 2
    then show ?case using Cons(1) [of "if y > a then y else a"] Cons(2) by (auto split: if_splits)
  }
qed simp_all

lemma min_of_le: "x \<in> set (sw_values w) \<Longrightarrow> min_of w \<le> x"
  by (cases "sw_values w") (auto simp: min_of_def intro: foldl_min_le simp del: foldl_Cons)

lemma max_of_ge: "x \<in> set (sw_values w) \<Longrightarrow> x \<le> max_of w"
  by (cases "sw_values w") (auto simp: max_of_def intro: foldl_max_ge simp del: foldl_Cons)

lemma go_int64_mono: "x \<le> y \<Longrightarrow> go_int64 x \<le> go_int64 y"
proof (cases "0 \<le> x \<or> y < 0")
  case True
  then show "x \<le> y \<Longrightarrow> go_int64 x \<le> go_int64 y" by (auto simp: go_int64_def intro: floor_mono ceiling_mono)
next
  case False
  then have "\<lceil>x\<rceil> \<le> 0" "0 \<le> \<lfloor>y\<rfloor>" by simp_all
  then have "\<lceil>x\<rceil> \<le> \<lfloor>y\<rfloor>" by (rule order_trans)
  then show "go_int64 x \<le> go_int64 y" using False by (simp add: go_int64_def)
qed

text \<open>The index of a percentile among \<open>n\<close> sorted values.\<close>

definition percentile_index :: "nat \<Rightarrow> real \<Rightarrow> nat" where
  "percentile_index n p = nat (max 0 (min (int n - 1) (go_int64 (real (n - 1) * p / 100))))"

lemma percentile_of_nth:
  "sw_values w \<noteq> [] \<Longrightarrow> percentile_of p w = sort (sw_values w) ! percentile_index (length (sw_values w)) p"
proof -
  assume "sw_values w \<noteq> []"
  moreover define k where "k = go_int64 (real (length (sw_values w) - 1) * p / 100)"
  ultimately show ?thesis
    unfolding percentile_of_def percentile_index_def Let_def length_sort
    by (fold k_def) (auto simp: max_def min_def intro!: arg_cong [of _ _ "(!) _"])
qed

lemma percentile_index_less: "0 < n \<Longrightarrow> percentile_index n p < n"
  by (auto simp: percentile_index_def)

lemma percentile_index_mono: "p \<le> q \<Longrightarrow> percentile_index n p \<le> percentile_index n q"
  unfolding percentile_index_def
  by (intro nat_mono max.mono min.mono go_int64_mono divide_right_mono mult_left_mono order_refl) simp_all

lemma percentile_in: "sw_values w \<noteq> [] \<Longrightarrow> percentile_of p w \<in> set (sw_values w)"
  using nth_mem [of "percentile_index (length (sw_values w)) p" "sort (sw_values w)"]
  by (simp add: percentile_of_nth percentile_index_less)

lemma percentile_mono: "p \<le> q \<Longrightarrow> percentile_of p w \<le> percentile_of q w"
proof (cases "sw_values w = []")
  case False
  then show "p \<le> q \<Longrightarrow> percentile_of p w \<le> percentile_of q w"
    by (simp add: percentile_of_nth) (intro sorted_nth_mono; simp add: percentile_index_mono percentile_index_less)
qed (simp add: percentile_of_def)

text \<open>
  Percentiles are ordered. Whatever a window holds and whichever percentages are asked for, at the same
  reading of the clock the smaller percentage gives the smaller percentile, and both lie between the minimum and
  the maximum that the window reports.
\<close>

theorem percentiles_ordered:
  assumes "p \<le> q" and "SlidingWindow_Min now w = Ok (a, w1)" and "SlidingWindow_Percentile now p w = Ok (x, w2)"
    and "SlidingWindow_Percentile now q w = Ok (y, w3)" and "SlidingWindow_Max now w = Ok (b, w4)"
  shows "a \<le> x \<and> x \<le> y \<and> y \<le> b"
proof -
  obtain w' where "cleanExpired now w = Ok w'"
    using assms(2) by (auto simp: SlidingWindow_Min_def query_def split: outcome.splits)
  then have "a = min_of w'" "x = percentile_of p w'" "y = percentile_of q w'" "b = max_of w'"
    using assms by (auto simp: SlidingWindow_Min_def SlidingWindow_Max_def SlidingWindow_Percentile_def query_def)
  moreover have "min_of w' \<le> percentile_of p w' \<and> percentile_of q w' \<le> max_of w'"
    by (cases "sw_values w' = []")
      (simp_all add: percentile_in min_of_le max_of_ge, simp add: min_of_def max_of_def percentile_of_def)
  ultimately show ?thesis using percentile_mono [OF assms(1), of w'] by simp
qed

definition ex_window :: SlidingWindow where
  "ex_window = \<lparr>sw_size = 5, sw_values = [4, 1, 3], sw_timestamps = [1, 2, 3], sw_sum = 8, sw_sumSquared = 26,
     sw_maxAge = 0, sw_adaptiveSize = False, sw_minSize = 10, sw_maxSize = 1000, sw_growthFactor = 1.5,
     sw_shrinkFactor = 0.8, sw_totalOperations = 3, sw_lastResize = 0\<rparr>"

theorem percentiles_ordered_witness:
  "percentile_of 50 ex_window \<le> percentile_of 90 ex_window \<and> 1 \<le> percentile_of 50 ex_window \<and>
    percentile_of 90 ex_window \<le> 4"
proof -
  have c: "cleanExpired 9 ex_window = Ok ex_window" by (simp add: cleanExpired_def ex_window_def)
  have m: "min_of ex_window = 1" "max_of ex_window = 4" by (simp_all add: min_of_def max_of_def ex_window_def)
  show ?thesis
    using percentiles_ordered [of 50 90 9 ex_window 1 ex_window "percentile_of 50 ex_window" ex_window
        "percentile_of 90 ex_window" ex_window 4 ex_window] c m
    by (simp add: SlidingWindow_Min_def SlidingWindow_Max_def SlidingWindow_Percentile_def query_def)
qed

subsection \<open>Where windows differ from what they mean to do\<close>

text \<open>\<^verbatim>\<open>Reset\<close> leaves the sum of squares: two equal values afterwards have a standard deviation.\<close>

lemma Reset_keeps_squares: "SlidingWindow_Reset w = Ok w' \<Longrightarrow> sw_sumSquared w' = sw_sumSquared w"
  by (auto simp: SlidingWindow_Reset_def split: if_splits)

lemma stddev_after_Reset:
  "\<exists>w1 w2 w3. SlidingWindow_Reset ex_window = Ok w1 \<and> SlidingWindow_Add 5 5 2 w1 = Ok w2 \<and>
    SlidingWindow_Add 6 6 2 w2 = Ok w3 \<and> sw_values w3 = [2, 2] \<and> stddev_of w3 = sqrt 13"
  by (simp add: SlidingWindow_Reset_def SlidingWindow_Add_def cleanExpired_def push_value_def make_room_def adapt_def
      ex_window_def stddev_of_def)

text \<open>Shrinking drops values and keeps both sums, or slices out of range.\<close>

lemma shrink_keeps_sums:
  "shrink_window now newSize w = Ok w' \<Longrightarrow> sw_sum w' = sw_sum w \<and> sw_sumSquared w' = sw_sumSquared w"
  by (auto simp: shrink_window_def Let_def split: if_splits outcome.splits)

lemma shrink_panics: "int (length (sw_values w)) < sw_size w - newSize \<Longrightarrow> shrink_window now newSize w = Panic"
  by (simp add: shrink_window_def slice_from_def)

text \<open>A window of a hundred places with ten values, a minute after the last change of its size.\<close>

lemma adaptive_window_panics:
  assumes "sw_size w = 100" and "length (sw_values w) = 10" and "sw_minSize w = 10" and "sw_shrinkFactor w = 0.8"
    and "60000000000 \<le> now - sw_lastResize w"
  shows "adjustSize now w = Panic"
  using assms by (simp add: adjustSize_def go_int64_def shrink_panics)

text \<open>A window without places panics on the first value.\<close>

lemma empty_window_panics: "NewSlidingWindow t0 0 maxAge = Ok w \<Longrightarrow> SlidingWindow_Add now now2 v w = Panic"
  by (auto simp: NewSlidingWindow_def NewAdaptiveSlidingWindow_def SlidingWindow_Add_def cleanExpired_def
      push_value_def make_room_def adapt_def)

text \<open>\<^verbatim>\<open>GetStats\<close> panics when the values expire while it runs.\<close>

lemma GetStats_panics:
  "SlidingWindow_GetStats (\<lambda>i. if i < 9 then 0 else 100) (ex_window\<lparr>sw_maxAge := 10\<rparr>) = Panic"
  by (simp add: SlidingWindow_GetStats_def stat_queries_def query_def cleanExpired_def ex_window_def)

end
