(* ===== verification/Bloom_Filter.thy ===== *)
theory Bloom_Filter
  imports Complex_Main Go_Prelude
begin

text \<open>
  The Bloom filter and the filter of repeated alerts, \<^verbatim>\<open>pkg/algorithm/bloom_filter.go\<close>. The filter itself is the package
  \<^verbatim>\<open>github.com/willf/bloom\<close>, an argument with state \<open>'b\<close>; what a Bloom filter promises is \<open>no_false_negatives\<close>.

  The alert filter asks the Bloom filter first and a map of keys afterwards; with a filter without false negatives it
  knows exactly the alerts that were added (\<open>alert_filter_exact\<close>).
\<close>

subsection \<open>Bloom filter\<close>

text \<open>\<open>bl_estimate\<close> is an experiment on the filter, which it may change.\<close>

record 'b bloom_lib =
  bl_new :: "u64 \<Rightarrow> u64 \<Rightarrow> 'b"
  bl_new_estimates :: "u64 \<Rightarrow> real \<Rightarrow> 'b"
  bl_add :: "string \<Rightarrow> 'b \<Rightarrow> 'b"
  bl_test :: "string \<Rightarrow> 'b \<Rightarrow> bool"
  bl_test_and_add :: "string \<Rightarrow> 'b \<Rightarrow> bool \<times> 'b"
  bl_clear :: "'b \<Rightarrow> 'b"
  bl_estimate :: "u64 \<Rightarrow> 'b \<Rightarrow> real \<times> 'b"
  bl_cap :: "'b \<Rightarrow> int"
  bl_k :: "'b \<Rightarrow> int"

text \<open>A slice of bytes and a string are the same here. The locks make every method one step.\<close>

definition NewBloomFilter :: "'b bloom_lib \<Rightarrow> int \<Rightarrow> int \<Rightarrow> 'b" where
  "NewBloomFilter bl sz hashFuncs = bl_new bl (of_int sz) (of_int hashFuncs)"

definition BloomFilter_Add :: "'b bloom_lib \<Rightarrow> string \<Rightarrow> 'b \<Rightarrow> 'b" where
  "BloomFilter_Add bl data f = bl_add bl data f"

definition BloomFilter_AddString :: "'b bloom_lib \<Rightarrow> string \<Rightarrow> 'b \<Rightarrow> 'b" where
  "BloomFilter_AddString bl data f = bl_add bl data f"

definition BloomFilter_Test :: "'b bloom_lib \<Rightarrow> string \<Rightarrow> 'b \<Rightarrow> bool" where
  "BloomFilter_Test bl data f = bl_test bl data f"

definition BloomFilter_TestString :: "'b bloom_lib \<Rightarrow> string \<Rightarrow> 'b \<Rightarrow> bool" where
  "BloomFilter_TestString bl data f = bl_test bl data f"

definition BloomFilter_TestAndAdd :: "'b bloom_lib \<Rightarrow> string \<Rightarrow> 'b \<Rightarrow> bool \<times> 'b" where
  "BloomFilter_TestAndAdd bl data f = bl_test_and_add bl data f"

definition BloomFilter_TestAndAddString :: "'b bloom_lib \<Rightarrow> string \<Rightarrow> 'b \<Rightarrow> bool \<times> 'b" where
  "BloomFilter_TestAndAddString bl data f = bl_test_and_add bl data f"

definition BloomFilter_Reset :: "'b bloom_lib \<Rightarrow> 'b \<Rightarrow> 'b" where
  "BloomFilter_Reset bl f = bl_clear bl f"

definition EstimateFalsePositiveRate :: "'b bloom_lib \<Rightarrow> int \<Rightarrow> 'b \<Rightarrow> real \<times> 'b" where
  "EstimateFalsePositiveRate bl n f = bl_estimate bl (of_int n) f"

subsection \<open>Alert filter\<close>

record 'b AlertFilter =
  af_filter :: 'b
  af_alertKeys :: "string set"

definition NewAlertFilter :: "'b bloom_lib \<Rightarrow> int \<Rightarrow> 'b AlertFilter" where
  "NewAlertFilter bl sz = \<lparr>af_filter = NewBloomFilter bl sz 3, af_alertKeys = {}\<rparr>"

text \<open>The hash that the function also computes is not used.\<close>

definition generateAlertKey :: "string \<Rightarrow> string \<Rightarrow> int \<Rightarrow> string" where
  "generateAlertKey hostID metricName timestamp =
     (let hourTimestamp = go_div timestamp 3600
      in hostID @ CHR '':'' # metricName @ CHR '':'' # itoa hourTimestamp)"

definition AddAlert :: "'b bloom_lib \<Rightarrow> string \<Rightarrow> string \<Rightarrow> int \<Rightarrow> 'b AlertFilter \<Rightarrow> 'b AlertFilter" where
  "AddAlert bl hostID metricName timestamp af =
     (let key = generateAlertKey hostID metricName timestamp
      in af\<lparr>af_filter := BloomFilter_AddString bl key (af_filter af), af_alertKeys := insert key (af_alertKeys af)\<rparr>)"

definition HasAlert :: "'b bloom_lib \<Rightarrow> string \<Rightarrow> string \<Rightarrow> int \<Rightarrow> 'b AlertFilter \<Rightarrow> bool" where
  "HasAlert bl hostID metricName timestamp af =
     (let key = generateAlertKey hostID metricName timestamp
      in if \<not> BloomFilter_TestString bl key (af_filter af) then False else key \<in> af_alertKeys af)"

subsection \<open>The alert filter is exact\<close>

definition no_false_negatives :: "'b bloom_lib \<Rightarrow> bool" where
  "no_false_negatives bl \<longleftrightarrow>
     (\<forall>x f. bl_test bl x (bl_add bl x f)) \<and> (\<forall>x y f. bl_test bl x f \<longrightarrow> bl_test bl x (bl_add bl y f))"

type_synonym alert = "string \<times> string \<times> int"

definition add_alerts :: "'b bloom_lib \<Rightarrow> alert list \<Rightarrow> 'b AlertFilter \<Rightarrow> 'b AlertFilter" where
  "add_alerts bl alerts = fold (\<lambda>(h, m, t). AddAlert bl h m t) alerts"

definition alert_key :: "alert \<Rightarrow> string" where
  "alert_key a = (case a of (h, m, t) \<Rightarrow> generateAlertKey h m t)"

definition filter_inv :: "'b bloom_lib \<Rightarrow> string set \<Rightarrow> 'b AlertFilter \<Rightarrow> bool" where
  "filter_inv bl keys af \<longleftrightarrow> af_alertKeys af = keys \<and> (\<forall>k \<in> keys. bl_test bl k (af_filter af))"

lemma filter_inv_add:
  "no_false_negatives bl \<Longrightarrow> filter_inv bl keys af \<Longrightarrow>
    filter_inv bl (insert (generateAlertKey h m t) keys) (AddAlert bl h m t af)"
  by (auto simp: filter_inv_def AddAlert_def BloomFilter_AddString_def no_false_negatives_def Let_def)

lemma filter_inv_adds:
  assumes "no_false_negatives bl"
  shows "filter_inv bl keys af \<Longrightarrow> filter_inv bl (keys \<union> alert_key ` set alerts) (add_alerts bl alerts af)"
proof (induction alerts arbitrary: keys af)
  case (Cons a alerts)
  obtain h m t where a: "a = (h, m, t)" by (cases a)
  have "filter_inv bl (insert (alert_key a) keys) (AddAlert bl h m t af)"
    using filter_inv_add [OF assms Cons.prems] a by (simp add: alert_key_def)
  from Cons.IH [OF this] show ?case by (simp add: add_alerts_def a)
qed (simp add: add_alerts_def)

lemma alert_key_eq:
  assumes "CHR '':'' \<notin> set h" and "CHR '':'' \<notin> set h'"
  shows "generateAlertKey h m t = generateAlertKey h' m' t' \<longleftrightarrow> h = h' \<and> m = m' \<and> go_div t 3600 = go_div t' 3600"
proof
  assume "generateAlertKey h m t = generateAlertKey h' m' t'"
  then have "h = h'" and "m @ CHR '':'' # itoa (go_div t 3600) = m' @ CHR '':'' # itoa (go_div t' 3600)"
    using sep_append_inject [OF _ assms, of "m @ CHR '':'' # itoa (go_div t 3600)" "m' @ CHR '':'' # itoa (go_div t' 3600)"]
    by (simp_all add: generateAlertKey_def)
  moreover from this(2) have "m = m' \<and> itoa (go_div t 3600) = itoa (go_div t' 3600)"
    by (rule append_sep_inject) simp_all
  ultimately show "h = h' \<and> m = m' \<and> go_div t 3600 = go_div t' 3600" by (blast dest: itoa_inj)
qed (auto simp: generateAlertKey_def)

text \<open>
  The alert filter is exact. With a Bloom filter that has no false negatives, and hosts without a colon in their
  names, an alert is known after any additions exactly when an alert of the same host, the same metric and
  the same hour was added.
\<close>

theorem alert_filter_exact:
  assumes "no_false_negatives bl" and "\<And>a. a \<in> set alerts \<Longrightarrow> CHR '':'' \<notin> set (fst a)" and "CHR '':'' \<notin> set h"
  shows "HasAlert bl h m t (add_alerts bl alerts (NewAlertFilter bl sz)) \<longleftrightarrow>
    (\<exists>t'. (h, m, t') \<in> set alerts \<and> go_div t' 3600 = go_div t 3600)"
proof -
  have "filter_inv bl {} (NewAlertFilter bl sz)" by (simp add: filter_inv_def NewAlertFilter_def)
  then have "filter_inv bl (alert_key ` set alerts) (add_alerts bl alerts (NewAlertFilter bl sz))"
    using filter_inv_adds [OF assms(1)] by fastforce
  then have "HasAlert bl h m t (add_alerts bl alerts (NewAlertFilter bl sz)) \<longleftrightarrow> generateAlertKey h m t \<in> alert_key ` set alerts"
    by (auto simp: filter_inv_def HasAlert_def BloomFilter_TestString_def Let_def)
  also have "\<dots> \<longleftrightarrow> (\<exists>t'. (h, m, t') \<in> set alerts \<and> go_div t' 3600 = go_div t 3600)"
  proof
    assume "generateAlertKey h m t \<in> alert_key ` set alerts"
    then obtain h' m' t' where a: "(h', m', t') \<in> set alerts" "generateAlertKey h m t = generateAlertKey h' m' t'"
      by (auto simp: alert_key_def)
    moreover have "CHR '':'' \<notin> set h'" using assms(2) [OF a(1)] by simp
    ultimately show "\<exists>t'. (h, m, t') \<in> set alerts \<and> go_div t' 3600 = go_div t 3600"
      using alert_key_eq [OF assms(3), of h' m t m' t'] by auto
  next
    assume "\<exists>t'. (h, m, t') \<in> set alerts \<and> go_div t' 3600 = go_div t 3600"
    then obtain t' where t': "(h, m, t') \<in> set alerts" "go_div t' 3600 = go_div t 3600" by blast
    then have "generateAlertKey h m t = alert_key (h, m, t')" by (simp add: alert_key_def generateAlertKey_def)
    then show "generateAlertKey h m t \<in> alert_key ` set alerts" using t'(1) by blast
  qed
  finally show ?thesis .
qed

text \<open>A filter that is a set.\<close>

definition set_lib :: "string set bloom_lib" where
  "set_lib = \<lparr>bl_new = (\<lambda>m k. {}), bl_new_estimates = (\<lambda>n p. {}), bl_add = insert, bl_test = (\<lambda>x f. x \<in> f),
     bl_test_and_add = (\<lambda>x f. (x \<in> f, insert x f)), bl_clear = (\<lambda>f. {}), bl_estimate = (\<lambda>n f. (0, {})),
     bl_cap = (\<lambda>f. 0), bl_k = (\<lambda>f. 1)\<rparr>"

definition ex_alerts :: "alert list" where
  "ex_alerts = [(''h1'', ''cpu'', 3600), (''h2'', ''disk'', 9)]"

theorem alert_filter_exact_witness:
  "HasAlert set_lib ''h1'' ''cpu'' 3700 (add_alerts set_lib ex_alerts (NewAlertFilter set_lib 8)) \<and>
   \<not> HasAlert set_lib ''h1'' ''cpu'' 7300 (add_alerts set_lib ex_alerts (NewAlertFilter set_lib 8))"
proof -
  have law: "no_false_negatives set_lib" by (simp add: no_false_negatives_def set_lib_def)
  have colon: "CHR '':'' \<notin> set (fst a)" if "a \<in> set ex_alerts" for a
    using that by (auto simp: ex_alerts_def)
  have h: "CHR '':'' \<notin> set ''h1''" by simp
  have "go_div 3600 3600 = 1" "go_div 3700 3600 = 1" "go_div 7300 3600 = 2" by (simp_all add: go_div_def)
  moreover have "HasAlert set_lib ''h1'' ''cpu'' t (add_alerts set_lib ex_alerts (NewAlertFilter set_lib 8)) \<longleftrightarrow>
      (\<exists>t'. (''h1'', ''cpu'', t') \<in> set ex_alerts \<and> go_div t' 3600 = go_div t 3600)" for t
    by (rule alert_filter_exact [OF law colon h])
  ultimately show ?thesis by (simp add: ex_alerts_def)
qed

subsection \<open>Where the key differs from what it means to do\<close>

text \<open>Two alerts one second apart at the turn of an hour are different.\<close>

lemma alert_again_after_a_second:
  "CHR '':'' \<notin> set h \<Longrightarrow> generateAlertKey h m 3599 \<noteq> generateAlertKey h m 3600"
  by (simp add: alert_key_eq go_div_def)

text \<open>Hosts and metrics with colons can share a key.\<close>

lemma alert_key_ambiguous: "generateAlertKey ''a:b'' ''c'' t = generateAlertKey ''a'' ''b:c'' t"
  by (simp add: generateAlertKey_def)

end
