(* ===== verification/Algorithm_Manager.thy ===== *)
theory Algorithm_Manager
  imports Sliding_Window Bloom_Filter Time_Wheel Prefix_Tree
begin

text \<open>
  The manager of the algorithms, \<^verbatim>\<open>pkg/algorithm/algorithm_manager.go\<close>: it owns sliding windows, a Bloom filter, a
  time wheel and a prefix tree, and composes their models. A component that is not enabled is \<open>None\<close>. The package of the
  Bloom filter is the argument \<open>bl\<close>; the values of the prefix tree are dynamic (\<open>json\<close>). The manager's lock makes every
  method one step; a method that waits for ever while it holds the lock is \<open>Blocks\<close>.

  The periodic cleanup panics exactly when a window is empty (\<open>cleanup_panics_iff\<close>), and a manager cannot
  import what it exports (\<open>own_export_blocks\<close>).
\<close>

subsection \<open>State\<close>

record AlgorithmConfig =
  sw_Enable :: bool
  sw_Size :: int
  sw_MaxAge :: duration
  sw_Adaptive :: bool
  sw_MinSize :: int
  sw_MaxSize :: int
  sw_GrowthFactor :: real
  sw_ShrinkFactor :: real
  bf_Enable :: bool
  bf_Size :: u64
  bf_FalsePositive :: real
  tw_Enable :: bool
  tw_TickInterval :: duration
  tw_SlotNum :: int
  pt_Enable :: bool

datatype metric_value = MetricTime time | MetricInt int

record ('b, 'k, 't) AlgorithmManager =
  am_config :: AlgorithmConfig
  am_slidingWindows :: "(string, SlidingWindow) gomap"
  am_bloomFilter :: "'b option"
  am_timeWheel :: "('k, 't) time_wheel option"
  am_prefixTree :: "json trie option"
  am_done :: bool
  am_isRunning :: bool
  am_metrics :: "(string, metric_value) gomap"

datatype manager_error = AlreadyRunning | WindowMissing string | WheelDisabled | TreeDisabled

text \<open>An outcome of a component, with errors that it does not have.\<close>

definition lift :: "(unit, 'x) outcome \<Rightarrow> ('x \<Rightarrow> (manager_error, 'y) outcome) \<Rightarrow> (manager_error, 'y) outcome" where
  "lift r f = (case r of Ok x \<Rightarrow> f x | Blocks \<Rightarrow> Blocks | _ \<Rightarrow> Panic)"

subsection \<open>Initialisation\<close>

definition new_window :: "AlgorithmConfig \<Rightarrow> time \<Rightarrow> (unit, SlidingWindow) outcome" where
  "new_window c now = NewAdaptiveSlidingWindow now (sw_Size c) (sw_MaxAge c) (sw_Adaptive c)"

fun metric_windows ::
  "AlgorithmConfig \<Rightarrow> (nat \<Rightarrow> time) \<Rightarrow> nat \<Rightarrow> string list \<Rightarrow> (string, SlidingWindow) gomap \<Rightarrow>
    (manager_error, (string, SlidingWindow) gomap) outcome" where
  "metric_windows c clock i [] ws = Ok ws"
| "metric_windows c clock i (metric # rest) ws =
     lift (new_window c (clock i)) (\<lambda>w. metric_windows c clock (Suc i) rest (gm_put metric w ws))"

definition initializeSlidingWindows ::
  "(nat \<Rightarrow> time) \<Rightarrow> ('b, 'k, 't) AlgorithmManager \<Rightarrow> (manager_error, ('b, 'k, 't) AlgorithmManager) outcome" where
  "initializeSlidingWindows clock am =
     (let c = am_config am
      in lift (new_window c (clock 0)) (\<lambda>w.
           let defaultWindow =
                 (if sw_Adaptive c then
                    SetAdaptive True (sw_MinSize c) (sw_MaxSize c) (sw_GrowthFactor c) (sw_ShrinkFactor c) w
                  else w)
           in case metric_windows c clock 1 [''cpu'', ''memory'', ''disk'', ''network'']
                     (gm_put ''default'' defaultWindow (am_slidingWindows am)) of
                Ok ws \<Rightarrow> Ok (am\<lparr>am_slidingWindows := ws\<rparr>)
              | Err e \<Rightarrow> Err e | Panic \<Rightarrow> Panic | Blocks \<Rightarrow> Blocks))"

definition initializeBloomFilter :: "'b bloom_lib \<Rightarrow> ('b, 'k, 't) AlgorithmManager \<Rightarrow> ('b, 'k, 't) AlgorithmManager" where
  "initializeBloomFilter bl am =
     am\<lparr>am_bloomFilter := Some (bl_new_estimates bl (bf_Size (am_config am)) (bf_FalsePositive (am_config am)))\<rparr>"

definition initializeTimeWheel :: "('b, 'k, 't) AlgorithmManager \<Rightarrow> ('b, 'k, 't) AlgorithmManager" where
  "initializeTimeWheel am =
     am\<lparr>am_timeWheel := map_option (\<lambda>w. [w])
       (NewTimeWheel (tw_TickInterval (am_config am)) (tw_SlotNum (am_config am)))\<rparr>"

text \<open>The rules, in the order in which the map is ranged over.\<close>

definition defaultRules :: "(string \<times> string) list" where
  "defaultRules = [(''host-*'', ''default_host''), (''server-*'', ''server''), (''database-*'', ''database''),
     (''cache-*'', ''cache'')]"

definition initializePrefixTree ::
  "('b, 'k, 't) AlgorithmManager \<Rightarrow> (manager_error, ('b, 'k, 't) AlgorithmManager) outcome" where
  "initializePrefixTree am =
     lift (import_loop NewTrie (map (\<lambda>(p, c). (p, Some (JStr c))) defaultRules))
       (\<lambda>t. Ok (am\<lparr>am_prefixTree := Some t\<rparr>))"

definition initializeAlgorithms ::
  "'b bloom_lib \<Rightarrow> (nat \<Rightarrow> time) \<Rightarrow> ('b, 'k, 't) AlgorithmManager \<Rightarrow>
    (manager_error, ('b, 'k, 't) AlgorithmManager) outcome" where
  "initializeAlgorithms bl clock am =
     (case (if sw_Enable (am_config am) then initializeSlidingWindows clock am else Ok am) of
        Ok am1 \<Rightarrow>
          (let am2 = (if bf_Enable (am_config am1) then initializeBloomFilter bl am1 else am1);
               am3 = (if tw_Enable (am_config am2) then initializeTimeWheel am2 else am2)
           in if pt_Enable (am_config am3) then initializePrefixTree am3 else Ok am3)
      | Err e \<Rightarrow> Err e | Panic \<Rightarrow> Panic | Blocks \<Rightarrow> Blocks)"

definition NewAlgorithmManager ::
  "'b bloom_lib \<Rightarrow> (nat \<Rightarrow> time) \<Rightarrow> AlgorithmConfig \<Rightarrow> (manager_error, ('b, 'k, 't) AlgorithmManager) outcome" where
  "NewAlgorithmManager bl clock cfg =
     initializeAlgorithms bl clock
       \<lparr>am_config = cfg, am_slidingWindows = [], am_bloomFilter = None, am_timeWheel = None, am_prefixTree = None,
        am_done = False, am_isRunning = False, am_metrics = []\<rparr>"

subsection \<open>Operations\<close>

definition AM_Start :: "('b, 'k, 't) AlgorithmManager \<Rightarrow> (manager_error, ('b, 'k, 't) AlgorithmManager) outcome" where
  "AM_Start am =
     (if am_isRunning am then Err AlreadyRunning
      else Ok (am\<lparr>am_timeWheel := (case am_timeWheel am of Some (w # ws) \<Rightarrow> Some (TimeWheel_Start w # ws) | x \<Rightarrow> x),
             am_isRunning := True\<rparr>))"

text \<open>Stopping the wheel waits for its goroutine.\<close>

definition stop_wheel :: "('k, 't) time_wheel option \<Rightarrow> (unit, ('k, 't) time_wheel option) outcome" where
  "stop_wheel tw =
     (case tw of
        Some (w # ws) \<Rightarrow>
          (case TimeWheel_Stop w of Ok w1 \<Rightarrow> Ok (Some (w1 # ws)) | Err e \<Rightarrow> Err e | Panic \<Rightarrow> Panic | Blocks \<Rightarrow> Blocks)
      | x \<Rightarrow> Ok x)"

definition AM_Stop :: "('b, 'k, 't) AlgorithmManager \<Rightarrow> (manager_error, ('b, 'k, 't) AlgorithmManager) outcome" where
  "AM_Stop am =
     (if \<not> am_isRunning am then Ok am
      else lift (stop_wheel (am_timeWheel am)) (\<lambda>tw. Ok (am\<lparr>am_done := True, am_timeWheel := tw, am_isRunning := False\<rparr>)))"

definition AddSlidingWindowValue ::
  "time \<Rightarrow> time \<Rightarrow> string \<Rightarrow> real \<Rightarrow> ('b, 'k, 't) AlgorithmManager \<Rightarrow>
    (manager_error, ('b, 'k, 't) AlgorithmManager) outcome" where
  "AddSlidingWindowValue now now2 windowName v am =
     (case map_of (am_slidingWindows am) windowName of
        None \<Rightarrow> Err (WindowMissing windowName)
      | Some w \<Rightarrow>
          lift (SlidingWindow_Add now now2 v w)
            (\<lambda>w1. Ok (am\<lparr>am_slidingWindows := gm_put windowName w1 (am_slidingWindows am)\<rparr>)))"

definition GetSlidingWindowStats ::
  "(nat \<Rightarrow> time) \<Rightarrow> string \<Rightarrow> ('b, 'k, 't) AlgorithmManager \<Rightarrow>
    (manager_error, (string, real) gomap \<times> ('b, 'k, 't) AlgorithmManager) outcome" where
  "GetSlidingWindowStats clock windowName am =
     (case map_of (am_slidingWindows am) windowName of
        None \<Rightarrow> Err (WindowMissing windowName)
      | Some w \<Rightarrow>
          lift (SlidingWindow_GetStats clock w)
            (\<lambda>(stats, w1). Ok (stats, am\<lparr>am_slidingWindows := gm_put windowName w1 (am_slidingWindows am)\<rparr>)))"

definition AddToBloomFilter :: "'b bloom_lib \<Rightarrow> string \<Rightarrow> ('b, 'k, 't) AlgorithmManager \<Rightarrow> ('b, 'k, 't) AlgorithmManager" where
  "AddToBloomFilter bl item am = am\<lparr>am_bloomFilter := map_option (bl_add bl item) (am_bloomFilter am)\<rparr>"

definition TestBloomFilter :: "'b bloom_lib \<Rightarrow> string \<Rightarrow> ('b, 'k, 't) AlgorithmManager \<Rightarrow> bool" where
  "TestBloomFilter bl item am = (case am_bloomFilter am of None \<Rightarrow> False | Some f \<Rightarrow> bl_test bl item f)"

definition AddTimeWheelTask ::
  "duration \<Rightarrow> 'k \<Rightarrow> 't \<Rightarrow> ('b, 'k, 't) AlgorithmManager \<Rightarrow> (manager_error, ('b, 'k, 't) AlgorithmManager) outcome" where
  "AddTimeWheelTask delay key task am =
     (case am_timeWheel am of
        Some (w # ws) \<Rightarrow>
          lift (TimeWheel_AddTask w delay key task) (\<lambda>w1. Ok (am\<lparr>am_timeWheel := Some (w1 # ws)\<rparr>))
      | _ \<Rightarrow> Err WheelDisabled)"

definition RemoveTimeWheelTask ::
  "'k \<Rightarrow> ('b, 'k, 't) AlgorithmManager \<Rightarrow> (manager_error, ('b, 'k, 't) AlgorithmManager) outcome" where
  "RemoveTimeWheelTask key am =
     (case am_timeWheel am of
        None \<Rightarrow> Err WheelDisabled
      | Some ws \<Rightarrow> Ok (am\<lparr>am_timeWheel := Some (TimeWheel_RemoveTask ws key)\<rparr>))"

definition AddPrefixTreeRule ::
  "string \<Rightarrow> string \<Rightarrow> ('b, 'k, 't) AlgorithmManager \<Rightarrow> (manager_error, ('b, 'k, 't) AlgorithmManager) outcome" where
  "AddPrefixTreeRule pre v am =
     (case am_prefixTree am of
        None \<Rightarrow> Err TreeDisabled
      | Some t \<Rightarrow> lift (Trie_Insert t pre (Some (JStr v))) (\<lambda>(t1, _). Ok (am\<lparr>am_prefixTree := Some t1\<rparr>)))"

definition SearchPrefixTree :: "string \<Rightarrow> ('b, 'k, 't) AlgorithmManager \<Rightarrow> (manager_error, string \<times> bool) outcome" where
  "SearchPrefixTree key am =
     (case am_prefixTree am of
        None \<Rightarrow> Ok ([], False)
      | Some t \<Rightarrow>
          lift (Trie_Search t key) (\<lambda>(v, exists).
            Ok (if \<not> exists then ([], False) else case as_string v of Some s \<Rightarrow> (s, True) | None \<Rightarrow> ([], False))))"

subsection \<open>Background tasks\<close>

text \<open>The assertion on the time of the last resize; an hour is \<open>3600000000000\<close> nanoseconds.\<close>

definition cleanup_window ::
  "(duration \<Rightarrow> string) \<Rightarrow> (time \<Rightarrow> string) \<Rightarrow> time \<Rightarrow> SlidingWindow \<Rightarrow> (unit, SlidingWindow) outcome" where
  "cleanup_window dur_String time_Format now w =
     (let info = GetWindowInfo dur_String time_Format w
      in if map_of info ''count'' = Some (InfoInt 0) then
           (case map_of info ''last_resize'' of
              Some (InfoTime t) \<Rightarrow> (if now - t > 3600000000000 then SlidingWindow_Reset w else Ok w)
            | _ \<Rightarrow> Panic)
         else Ok w)"

fun cleanup_windows ::
  "(duration \<Rightarrow> string) \<Rightarrow> (time \<Rightarrow> string) \<Rightarrow> time \<Rightarrow> (string, SlidingWindow) gomap \<Rightarrow>
    (manager_error, (string, SlidingWindow) gomap) outcome" where
  "cleanup_windows ds tf now [] = Ok []"
| "cleanup_windows ds tf now ((name, w) # ws) =
     lift (cleanup_window ds tf now w) (\<lambda>w1.
       case cleanup_windows ds tf now ws of Ok ws1 \<Rightarrow> Ok ((name, w1) # ws1) | Err e \<Rightarrow> Err e | Panic \<Rightarrow> Panic | Blocks \<Rightarrow> Blocks)"

definition performCleanup ::
  "(duration \<Rightarrow> string) \<Rightarrow> (time \<Rightarrow> string) \<Rightarrow> time \<Rightarrow> ('b, 'k, 't) AlgorithmManager \<Rightarrow>
    (manager_error, ('b, 'k, 't) AlgorithmManager) outcome" where
  "performCleanup ds tf now am =
     (case cleanup_windows ds tf now (am_slidingWindows am) of
        Ok ws \<Rightarrow> Ok (am\<lparr>am_slidingWindows := ws\<rparr>)
      | Err e \<Rightarrow> Err e | Panic \<Rightarrow> Panic | Blocks \<Rightarrow> Blocks)"

definition collectMetrics ::
  "'b bloom_lib \<Rightarrow> time \<Rightarrow> ('b, 'k, 't) AlgorithmManager \<Rightarrow> (manager_error, ('b, 'k, 't) AlgorithmManager) outcome" where
  "collectMetrics bl now am =
     (let m1 = gm_put ''sliding_window_count'' (MetricInt (int (length (am_slidingWindows am))))
                 (gm_put ''timestamp'' (MetricTime now) (am_metrics am));
          m2 = (case am_bloomFilter am of
                  None \<Rightarrow> m1
                | Some f \<Rightarrow> gm_put ''bloom_filter_bits'' (MetricInt (bl_cap bl f * 8))
                    (gm_put ''bloom_filter_size'' (MetricInt (bl_cap bl f)) m1));
          m3 = (case am_timeWheel am of
                  None \<Rightarrow> m2
                | Some ws \<Rightarrow> gm_put ''time_wheel_tasks'' (MetricInt (int (TimeWheel_GetTaskCount ws))) m2)
      in case am_prefixTree am of
           None \<Rightarrow> Ok (am\<lparr>am_metrics := m3\<rparr>)
         | Some t \<Rightarrow>
             lift (Trie_Size t) (\<lambda>n. Ok (am\<lparr>am_metrics := gm_put ''prefix_tree_rules'' (MetricInt (int n)) m3\<rparr>)))"

definition GetMetrics :: "('b, 'k, 't) AlgorithmManager \<Rightarrow> (string, metric_value) gomap" where
  "GetMetrics am = am_metrics am"

subsection \<open>Statistics\<close>

record wheel_stats =
  ws_interval :: string
  ws_slot_num :: nat
  ws_current_pos :: nat
  ws_task_count :: nat
  ws_multi_level :: bool

record AlgorithmStats =
  SlidingWindowStats :: "(string, (string, info_value) gomap) gomap"
  BloomFilterStats :: "(string, int) gomap"
  TimeWheelStats :: "wheel_stats option"
  PrefixTreeStats :: "trie_stats option"
  TotalOperations :: int
  StatsUptime :: duration

definition getTotalOperations ::
  "(duration \<Rightarrow> string) \<Rightarrow> (time \<Rightarrow> string) \<Rightarrow> ('b, 'k, 't) AlgorithmManager \<Rightarrow> int" where
  "getTotalOperations ds tf am =
     foldl (\<lambda>n (name, w). case map_of (GetWindowInfo ds tf w) ''total_operations'' of
         Some (InfoInt64 ops) \<Rightarrow> add64 n ops | _ \<Rightarrow> n) 0 (am_slidingWindows am)"

definition AM_GetStats ::
  "'b bloom_lib \<Rightarrow> (duration \<Rightarrow> string) \<Rightarrow> (time \<Rightarrow> string) \<Rightarrow> ('b, 'k, 't) AlgorithmManager \<Rightarrow>
    (manager_error, AlgorithmStats) outcome" where
  "AM_GetStats bl ds tf am =
     (let stats = (\<lambda>tree. \<lparr>
        SlidingWindowStats = map (\<lambda>(name, w). (name, GetWindowInfo ds tf w)) (am_slidingWindows am),
        BloomFilterStats = (case am_bloomFilter am of
            None \<Rightarrow> []
          | Some f \<Rightarrow> [(''size'', bl_cap bl f), (''hash_functions'', bl_k bl f), (''bits'', bl_cap bl f * 8)]),
        TimeWheelStats = (case am_timeWheel am of
            Some (w # ws) \<Rightarrow> Some \<lparr>ws_interval = ds (interval w), ws_slot_num = slotNum w, ws_current_pos = currentPos w,
              ws_task_count = TimeWheel_GetTaskCount (w # ws), ws_multi_level = (ws \<noteq> [])\<rparr>
          | _ \<Rightarrow> None),
        PrefixTreeStats = tree,
        TotalOperations = getTotalOperations ds tf am,
        StatsUptime = (if am_isRunning am then 60000000000 else 0)\<rparr>)
      in case am_prefixTree am of
           None \<Rightarrow> Ok (stats None)
         | Some t \<Rightarrow> lift (Trie_GetStats t) (\<lambda>ts. Ok (stats (Some ts))))"

subsection \<open>Reset, export and import\<close>

fun reset_windows ::
  "(string, SlidingWindow) gomap \<Rightarrow> (manager_error, (string, SlidingWindow) gomap) outcome" where
  "reset_windows [] = Ok []"
| "reset_windows ((name, w) # ws) =
     lift (SlidingWindow_Reset w) (\<lambda>w1.
       case reset_windows ws of Ok ws1 \<Rightarrow> Ok ((name, w1) # ws1) | Err e \<Rightarrow> Err e | Panic \<Rightarrow> Panic | Blocks \<Rightarrow> Blocks)"

text \<open>The wheel is stopped, made anew and started; starting a nil wheel panics.\<close>

definition reset_wheel :: "('b, 'k, 't) AlgorithmManager \<Rightarrow> (manager_error, ('b, 'k, 't) AlgorithmManager) outcome" where
  "reset_wheel am =
     (case am_timeWheel am of
        None \<Rightarrow> Ok am
      | Some ws \<Rightarrow>
          lift (stop_wheel (Some ws)) (\<lambda>_.
            let am1 = initializeTimeWheel am
            in case am_timeWheel am1 of
                 Some (w # ws1) \<Rightarrow> Ok (am1\<lparr>am_timeWheel := Some (TimeWheel_Start w # ws1)\<rparr>)
               | _ \<Rightarrow> Panic))"

definition AM_Reset ::
  "'b bloom_lib \<Rightarrow> ('b, 'k, 't) AlgorithmManager \<Rightarrow> (manager_error, ('b, 'k, 't) AlgorithmManager) outcome" where
  "AM_Reset bl am =
     (case reset_windows (am_slidingWindows am) of
        Ok ws \<Rightarrow>
          (case reset_wheel (am\<lparr>am_slidingWindows := ws, am_bloomFilter := map_option (bl_clear bl) (am_bloomFilter am)\<rparr>) of
             Ok am1 \<Rightarrow>
               (case (if am_prefixTree am1 = None then Ok am1 else initializePrefixTree am1) of
                  Ok am2 \<Rightarrow> Ok (am2\<lparr>am_metrics := []\<rparr>)
                | Err e \<Rightarrow> Err e | Panic \<Rightarrow> Panic | Blocks \<Rightarrow> Blocks)
           | Err e \<Rightarrow> Err e | Panic \<Rightarrow> Panic | Blocks \<Rightarrow> Blocks)
      | Err e \<Rightarrow> Err e | Panic \<Rightarrow> Panic | Blocks \<Rightarrow> Blocks)"

text \<open>
  The exported values of a window are a slice of \<^verbatim>\<open>float64\<close>; the import looks for a slice of \<^verbatim>\<open>interface{}\<close>, whose elements
  are numbers or not. A state of a window that is no map makes the import panic.
\<close>

datatype window_values = FloatSlice "real list" | AnySlice "real option list" | OtherValues

datatype window_state = WindowMap window_values | OtherState

record exported_state =
  ex_windows :: "(string, window_state) gomap option"
  ex_words :: "(string, json option) gomap option option"

fun export_windows ::
  "(nat \<Rightarrow> time) \<Rightarrow> nat \<Rightarrow> (string, SlidingWindow) gomap \<Rightarrow>
    (manager_error, (string, window_state) gomap \<times> (string, SlidingWindow) gomap) outcome" where
  "export_windows clock i [] = Ok ([], [])"
| "export_windows clock i ((name, w) # ws) =
     lift (SlidingWindow_Values (clock i) w) (\<lambda>(vs, w1).
       case export_windows clock (Suc i) ws of
         Ok (st, ws1) \<Rightarrow> Ok ((name, WindowMap (FloatSlice vs)) # st, (name, w1) # ws1)
       | Err e \<Rightarrow> Err e | Panic \<Rightarrow> Panic | Blocks \<Rightarrow> Blocks)"

text \<open>\<open>order\<close> is the order in which the map of the exported words is ranged over.\<close>

definition ExportState ::
  "((string \<rightharpoonup> json option) \<Rightarrow> (string, json option) gomap) \<Rightarrow> (nat \<Rightarrow> time) \<Rightarrow> ('b, 'k, 't) AlgorithmManager \<Rightarrow>
    (manager_error, exported_state \<times> ('b, 'k, 't) AlgorithmManager) outcome" where
  "ExportState order clock am =
     (case export_windows clock 0 (am_slidingWindows am) of
        Ok (st, ws) \<Rightarrow>
          (let am1 = am\<lparr>am_slidingWindows := ws\<rparr>
           in case am_prefixTree am of
                None \<Rightarrow> Ok (\<lparr>ex_windows = Some st, ex_words = None\<rparr>, am1)
              | Some t \<Rightarrow>
                  lift (Trie_Export t) (\<lambda>(wds, _). Ok (\<lparr>ex_windows = Some st, ex_words = Some (Some (order wds))\<rparr>, am1)))
      | Err e \<Rightarrow> Err e | Panic \<Rightarrow> Panic | Blocks \<Rightarrow> Blocks)"

fun add_values :: "(nat \<Rightarrow> time) \<Rightarrow> nat \<Rightarrow> real option list \<Rightarrow> SlidingWindow \<Rightarrow> (unit, SlidingWindow) outcome" where
  "add_values clock i [] w = Ok w"
| "add_values clock i (None # vs) w = add_values clock i vs w"
| "add_values clock i (Some v # vs) w =
     (case SlidingWindow_Add (clock i) (clock (Suc i)) v w of
        Ok w1 \<Rightarrow> add_values clock (Suc (Suc i)) vs w1 | Err e \<Rightarrow> Err e | Panic \<Rightarrow> Panic | Blocks \<Rightarrow> Blocks)"

fun import_windows ::
  "(nat \<Rightarrow> nat \<Rightarrow> time) \<Rightarrow> nat \<Rightarrow> (string, window_state) gomap \<Rightarrow> (string, SlidingWindow) gomap \<Rightarrow>
    (manager_error, (string, SlidingWindow) gomap) outcome" where
  "import_windows clock i [] ws = Ok ws"
| "import_windows clock i ((name, st) # rest) ws =
     (case map_of ws name of
        None \<Rightarrow> import_windows clock (Suc i) rest ws
      | Some w \<Rightarrow>
          (case st of
             OtherState \<Rightarrow> Panic
           | WindowMap (AnySlice vs) \<Rightarrow>
               lift (add_values (clock i) 0 vs w) (\<lambda>w1. import_windows clock (Suc i) rest (gm_put name w1 ws))
           | WindowMap _ \<Rightarrow> import_windows clock (Suc i) rest ws))"

definition ImportState ::
  "(nat \<Rightarrow> nat \<Rightarrow> time) \<Rightarrow> exported_state \<Rightarrow> ('b, 'k, 't) AlgorithmManager \<Rightarrow>
    (manager_error, ('b, 'k, 't) AlgorithmManager) outcome" where
  "ImportState clock st am =
     (case (case ex_windows st of None \<Rightarrow> Ok (am_slidingWindows am)
            | Some ws \<Rightarrow> import_windows clock 0 ws (am_slidingWindows am)) of
        Ok ws \<Rightarrow>
          (let am1 = am\<lparr>am_slidingWindows := ws\<rparr>
           in case (ex_words st, am_prefixTree am1) of
                (Some wds, Some t) \<Rightarrow> lift (Trie_Import t wds) (\<lambda>(t1, _). Ok (am1\<lparr>am_prefixTree := Some t1\<rparr>))
              | _ \<Rightarrow> Ok am1)
      | Err e \<Rightarrow> Err e | Panic \<Rightarrow> Panic | Blocks \<Rightarrow> Blocks)"

subsection \<open>The cleanup panics when a window is empty\<close>

lemma cleanup_window_eq: "cleanup_window ds tf now w = (if sw_values w = [] then Panic else Ok w)"
  by (simp add: cleanup_window_def GetWindowInfo_def)

lemma cleanup_windows_eq:
  "cleanup_windows ds tf now ws = (if \<exists>w \<in> snd ` set ws. sw_values w = [] then Panic else Ok ws)"
proof (induction ws)
  case (Cons x ws)
  then show ?case by (cases x; cases "\<exists>w \<in> snd ` set ws. sw_values w = []") (simp_all add: cleanup_window_eq lift_def)
qed simp

text \<open>
  The periodic cleanup panics exactly when a window is empty, and does nothing otherwise. It asserts that the time of
  the last resize is a time, and it is a string.
\<close>

theorem cleanup_panics_iff:
  "performCleanup ds tf now am =
    (if \<exists>w \<in> snd ` set (am_slidingWindows am). sw_values w = [] then Panic else Ok am)"
  by (simp add: performCleanup_def cleanup_windows_eq)

text \<open>In particular a new manager with windows panics at its first cleanup if a window has had no value by then.\<close>

lemma initializeSlidingWindows_empty:
  assumes "initializeSlidingWindows clock am = Ok am1" and "am_slidingWindows am = []"
  shows "\<exists>w. (''cpu'', w) \<in> set (am_slidingWindows am1) \<and> sw_values w = []"
  using assms
  by (auto simp: initializeSlidingWindows_def lift_def Let_def new_window_def NewAdaptiveSlidingWindow_def SetAdaptive_def
      split: outcome.splits if_splits)

subsection \<open>Reset waits for a wheel that does not run\<close>

lemma reset_windows_cases: "reset_windows ws = Panic \<or> (\<exists>ws1. reset_windows ws = Ok ws1)"
proof (induction ws)
  case (Cons x ws)
  then show ?case by (cases x) (auto simp: lift_def SlidingWindow_Reset_def)
qed simp

lemma Reset_blocks:
  assumes "am_timeWheel am = Some (w # ws)" and "runners w = 0" and "\<And>n v. (n, v) \<in> set (am_slidingWindows am) \<Longrightarrow> 0 \<le> sw_size v"
  shows "AM_Reset bl am = Blocks"
proof -
  have "\<exists>ws1. reset_windows xs = Ok ws1" if "\<And>n v. (n, v) \<in> set xs \<Longrightarrow> 0 \<le> sw_size v" for xs
    using that
  proof (induction xs)
    case (Cons x xs)
    obtain n v where x: "x = (n, v)" by (cases x)
    have "0 \<le> sw_size v" using Cons.prems [of n v] x by simp
    moreover obtain ws1 where "reset_windows xs = Ok ws1" using Cons.IH Cons.prems by fastforce
    ultimately show ?case using x by (simp add: lift_def SlidingWindow_Reset_def)
  qed simp
  then obtain ws1 where "reset_windows (am_slidingWindows am) = Ok ws1" using assms(3) by blast
  then show ?thesis
    using assms(1,2) by (simp add: AM_Reset_def reset_wheel_def stop_wheel_def TimeWheel_Stop_def lift_def)
qed

subsection \<open>A manager cannot import what it exports\<close>

definition default_tree :: "json trie" where
  "default_tree = (case import_loop NewTrie (map (\<lambda>(p, c). (p, Some (JStr c))) defaultRules) of Ok t \<Rightarrow> t | _ \<Rightarrow> NewTrie)"

lemma default_tree_eq:
  "import_loop NewTrie (map (\<lambda>(p, c). (p, Some (JStr c))) defaultRules) = Ok default_tree" "trie_mu default_tree = Unlocked"
  by (simp_all add: default_tree_def import_unlocked NewTrie_def)

lemma default_tree_word: "exportWords (trie_root default_tree) [] ''cache-*'' = Some (Some (JStr ''cache''))"
  by code_simp

lemma export_windows_floats:
  "export_windows clock i ws = Ok (st, ws1) \<Longrightarrow> (\<forall>x \<in> set st. \<exists>vs. snd x = WindowMap (FloatSlice vs))"
proof (induction clock i ws arbitrary: st ws1 rule: export_windows.induct)
  case (2 clock i name w ws)
  then show ?case by (fastforce simp: lift_def split: outcome.splits prod.splits)
qed simp

text \<open>The values that a manager exports are of a type that the import ignores.\<close>

lemma exported_windows_ignored:
  "(\<forall>x \<in> set st. \<exists>vs. snd x = WindowMap (FloatSlice vs)) \<Longrightarrow> import_windows clock i st ws = Ok ws"
proof (induction st arbitrary: i)
  case (Cons x st)
  then show ?case by (cases x) (auto split: option.split)
qed simp

lemma NewAlgorithmManager_tree:
  "pt_Enable cfg \<Longrightarrow> NewAlgorithmManager bl clock cfg = Ok am \<Longrightarrow> am_prefixTree am = Some default_tree"
proof -
  have config: "initializeSlidingWindows clock am0 = Ok am1 \<Longrightarrow> am_config am1 = am_config am0"
    for am0 am1 :: "('a, 'b, 'c) AlgorithmManager"
    by (auto simp: initializeSlidingWindows_def lift_def Let_def split: outcome.splits)
  show "pt_Enable cfg \<Longrightarrow> NewAlgorithmManager bl clock cfg = Ok am \<Longrightarrow> am_prefixTree am = Some default_tree"
    by (auto simp: NewAlgorithmManager_def initializeAlgorithms_def Let_def initializePrefixTree_def default_tree_eq lift_def
        initializeBloomFilter_def initializeTimeWheel_def split: outcome.splits if_splits dest: config)
qed

text \<open>
  A manager cannot import what it exports. With the prefix tree enabled, importing the state that a new manager
  exports never returns: the import of the tree waits for the lock that it holds, and the manager stays locked.
\<close>

theorem own_export_blocks:
  assumes "\<And>m. m \<noteq> Map.empty \<Longrightarrow> order m \<noteq> []" and "pt_Enable cfg" and "NewAlgorithmManager bl clock cfg = Ok am"
    and "ExportState order clock1 am = Ok (st, am1)"
  shows "ImportState clock2 st am1 = Blocks"
proof -
  have t: "am_prefixTree am = Some default_tree" using assms(2,3) by (rule NewAlgorithmManager_tree)
  obtain w ws where w: "export_windows clock1 0 (am_slidingWindows am) = Ok (w, ws)"
    using assms(4) by (auto simp: ExportState_def split: outcome.splits)
  have st: "st = \<lparr>ex_windows = Some w, ex_words = Some (Some (order (exportWords (trie_root default_tree) [])))\<rparr>"
    and am1: "am1 = am\<lparr>am_slidingWindows := ws\<rparr>"
    using assms(4) w t default_tree_eq(2)
    by (simp_all add: ExportState_def lift_def Trie_Export_def Trie_GetStats_def rlocked_def rw_rlock_def)
  have "exportWords (trie_root default_tree) [] \<noteq> Map.empty"
    using default_tree_word by (metis option.distinct(1))
  then obtain key v rest where "order (exportWords (trie_root default_tree) []) = (key, v) # rest"
    using assms(1) by (metis list.exhaust surj_pair)
  then show ?thesis
    using t exported_windows_ignored [OF export_windows_floats [OF w]]
    by (simp add: ImportState_def st am1 Import_deadlocks lift_def)
qed

definition tree_config :: AlgorithmConfig where
  "tree_config = \<lparr>sw_Enable = True, sw_Size = 3, sw_MaxAge = 0, sw_Adaptive = False, sw_MinSize = 0, sw_MaxSize = 0,
     sw_GrowthFactor = 0, sw_ShrinkFactor = 0, bf_Enable = False, bf_Size = 0, bf_FalsePositive = 0, tw_Enable = False,
     tw_TickInterval = 0, tw_SlotNum = 0, pt_Enable = True\<rparr>"

definition tree_manager :: "(string set, string, unit) AlgorithmManager" where
  "tree_manager = (case NewAlgorithmManager set_lib (\<lambda>i. 0) tree_config of Ok am \<Rightarrow> am | _ \<Rightarrow> undefined)"

lemma tree_manager_Ok: "NewAlgorithmManager set_lib (\<lambda>i. 0) tree_config = Ok tree_manager"
  by (simp add: tree_manager_def NewAlgorithmManager_def initializeAlgorithms_def initializeSlidingWindows_def lift_def
      new_window_def NewAdaptiveSlidingWindow_def tree_config_def initializePrefixTree_def default_tree_eq)

theorem own_export_blocks_witness:
  "\<exists>st am. ExportState (\<lambda>m. [(''host-*'', None)]) (\<lambda>i. 0) tree_manager = Ok (st, am) \<and> ImportState (\<lambda>i j. 0) st am = Blocks"
proof -
  have "am_slidingWindows tree_manager = map (\<lambda>n. (n, \<lparr>sw_size = 3, sw_values = [], sw_timestamps = [], sw_sum = 0,
      sw_sumSquared = 0, sw_maxAge = 0, sw_adaptiveSize = False, sw_minSize = 10, sw_maxSize = 1000,
      sw_growthFactor = 1.5, sw_shrinkFactor = 0.8, sw_totalOperations = 0, sw_lastResize = 0\<rparr>))
      [''default'', ''cpu'', ''memory'', ''disk'', ''network'']"
    by (simp add: tree_manager_def NewAlgorithmManager_def initializeAlgorithms_def initializeSlidingWindows_def lift_def
        new_window_def NewAdaptiveSlidingWindow_def tree_config_def initializePrefixTree_def default_tree_eq)
  moreover have "am_prefixTree tree_manager = Some default_tree"
    using tree_manager_Ok by (rule NewAlgorithmManager_tree [rotated]) (simp add: tree_config_def)
  ultimately obtain st am where e: "ExportState (\<lambda>m. [(''host-*'', None)]) (\<lambda>i. 0) tree_manager = Ok (st, am)"
    using default_tree_eq(2)
    by (simp add: ExportState_def lift_def Trie_Export_def Trie_GetStats_def rlocked_def rw_rlock_def SlidingWindow_Values_def
        query_def cleanExpired_def)
  have "ImportState (\<lambda>i j. 0) st am = Blocks"
    by (rule own_export_blocks [OF _ _ tree_manager_Ok e]) (simp_all add: tree_config_def)
  then show ?thesis using e by blast
qed

text \<open>The rules of the tree are patterns with a star, and a key is searched for as it is: no host is found.\<close>

lemma default_rule_no_match: "SearchPrefixTree ''host-1'' tree_manager = Ok ([], False)"
proof -
  have "am_prefixTree tree_manager = Some default_tree"
    using tree_manager_Ok by (rule NewAlgorithmManager_tree [rotated]) (simp add: tree_config_def)
  moreover have "node_walk (runes ''host-1'') (trie_root default_tree) = None" by code_simp
  ultimately show ?thesis
    using default_tree_eq(2) by (simp add: SearchPrefixTree_def lift_def Trie_Search_def rlocked_def rw_rlock_def)
qed

end
