(* ===== verification/Aggregators.thy ===== *)
theory Aggregators
  imports Json_Data
begin

text \<open>
  The aggregators of the visualisation, \<^verbatim>\<open>visualization/internal/analysis/aggregators.go\<close>, on the metrics of
  \<^verbatim>\<open>visualization/internal/models/metrics.go\<close>. Sorting by time is an argument where the order of equal elements is not
  fixed. The statistics agree with each other: \<open>minimum \<le> average \<le> maximum\<close> and the percentile lies between them.
\<close>

subsection \<open>Metrics\<close>

record Metric =
  mt_Name :: string
  mt_Value :: real
  mt_Unit :: string

record VMetricsData =
  vm_HostID :: string
  vm_Timestamp :: time
  vm_Metrics :: "Metric list"

text \<open>The result of an aggregator is a \<^verbatim>\<open>float64\<close> or an \<^verbatim>\<open>int\<close>.\<close>

datatype agg_value = AggFloat real | AggInt int

datatype Aggregator = AvgAggregator | SumAggregator | MinAggregator | MaxAggregator | CountAggregator | RateAggregator
  | PercentileAggregator real | StdDevAggregator

text \<open>A step of the two nested loops over the records and their metrics.\<close>

definition over_metrics :: "('x \<Rightarrow> Metric \<Rightarrow> 'x) \<Rightarrow> 'x \<Rightarrow> VMetricsData list \<Rightarrow> 'x" where
  "over_metrics f x data = foldl (\<lambda>x d. foldl f x (vm_Metrics d)) x data"

definition sum_and_count :: "VMetricsData list \<Rightarrow> real \<times> nat" where
  "sum_and_count = over_metrics (\<lambda>(sm, n) m. (sm + mt_Value m, Suc n)) (0, 0)"

definition Avg_Aggregate :: "VMetricsData list \<Rightarrow> agg_value" where
  "Avg_Aggregate data =
     (if length data = 0 then AggFloat 0
      else case sum_and_count data of (sm, n) \<Rightarrow> if n = 0 then AggFloat 0 else AggFloat (sm / real n))"

definition Sum_Aggregate :: "VMetricsData list \<Rightarrow> agg_value" where
  "Sum_Aggregate data = AggFloat (over_metrics (\<lambda>sm m. sm + mt_Value m) 0 data)"

text \<open>The largest \<^verbatim>\<open>float64\<close>.\<close>

definition MaxFloat64 :: real where
  "MaxFloat64 = (2 - 1 / 2 ^ 52) * 2 ^ 1023"

definition Min_Aggregate :: "VMetricsData list \<Rightarrow> agg_value" where
  "Min_Aggregate data =
     (if length data = 0 then AggFloat 0
      else
        (let mn = over_metrics (\<lambda>a m. if mt_Value m < a then mt_Value m else a) MaxFloat64 data
         in if mn = MaxFloat64 then AggFloat 0 else AggFloat mn))"

definition Max_Aggregate :: "VMetricsData list \<Rightarrow> agg_value" where
  "Max_Aggregate data =
     (if length data = 0 then AggFloat 0
      else
        (let mx = over_metrics (\<lambda>a m. if mt_Value m > a then mt_Value m else a) (- MaxFloat64) data
         in if mx = - MaxFloat64 then AggFloat 0 else AggFloat mx))"

definition Count_Aggregate :: "VMetricsData list \<Rightarrow> agg_value" where
  "Count_Aggregate data = AggInt (foldl (\<lambda>n d. n + int (length (vm_Metrics d))) 0 data)"

text \<open>The values of a record by name; a later one replaces an earlier one.\<close>

definition values_by_name :: "VMetricsData \<Rightarrow> (string, real) gomap" where
  "values_by_name d = foldl (\<lambda>m x. gm_put (mt_Name x) (mt_Value x) m) [] (vm_Metrics d)"

definition increase :: "(string, real) gomap \<Rightarrow> (string, real) gomap \<Rightarrow> real \<Rightarrow> real" where
  "increase prev current totalValue =
     foldl (\<lambda>tv (name, cur). case map_of prev name of
         Some p \<Rightarrow> if cur > p then tv + (cur - p) else tv
       | None \<Rightarrow> tv) totalValue current"

fun rate_loop :: "(string, real) gomap \<Rightarrow> VMetricsData list \<Rightarrow> real \<Rightarrow> real" where
  "rate_loop prev [] totalValue = totalValue"
| "rate_loop prev (d # ds) totalValue =
     rate_loop (values_by_name d) ds (increase prev (values_by_name d) totalValue)"

text \<open>\<open>sort_time\<close> is \<^verbatim>\<open>sort.Slice\<close> by time, in place.\<close>

definition Rate_Aggregate :: "(VMetricsData list \<Rightarrow> VMetricsData list) \<Rightarrow> VMetricsData list \<Rightarrow> agg_value" where
  "Rate_Aggregate sort_time unsorted =
     (if length unsorted < 2 then AggFloat 0
      else
        (let data = sort_time unsorted;
             timeDiff = of_int (vm_Timestamp (last data) - vm_Timestamp (hd data)) / 1000000000
         in if timeDiff \<le> 0 then AggFloat 0
            else AggFloat (rate_loop (values_by_name (hd data)) (tl data) 0 / timeDiff)))"

definition Percentile_Aggregate :: "real \<Rightarrow> VMetricsData list \<Rightarrow> (unit, agg_value) outcome" where
  "Percentile_Aggregate p data =
     (if length data = 0 then Ok (AggFloat 0)
      else
        (let unsorted = over_metrics (\<lambda>vs m. vs @ [mt_Value m]) [] data
         in if length unsorted = 0 then Ok (AggFloat 0)
            else
              (let vs = sort unsorted;
                   index = p / 100 * real (length vs - 1);
                   lower = \<lfloor>index\<rfloor>;
                   upper = \<lceil>index\<rceil>;
                   inside = (\<lambda>i. 0 \<le> i \<and> i < int (length vs))
               in if lower = upper then
                    (if inside lower then Ok (AggFloat (vs ! nat lower)) else Panic)
                  else if inside lower \<and> inside upper then
                    (let weight = index - of_int lower
                     in Ok (AggFloat (vs ! nat lower * (1 - weight) + vs ! nat upper * weight)))
                  else Panic)))"

definition StdDev_Aggregate :: "VMetricsData list \<Rightarrow> agg_value" where
  "StdDev_Aggregate data =
     (if length data = 0 then AggFloat 0
      else
        (case sum_and_count data of
           (sm, n) \<Rightarrow>
             (if n = 0 then AggFloat 0
              else
                (let mean = sm / real n;
                     variance = over_metrics (\<lambda>v m. v + (mt_Value m - mean) * (mt_Value m - mean)) 0 data
                 in AggFloat (sqrt (variance / real n))))))"

text \<open>
  Printing with a fixed number of decimals, \<^verbatim>\<open>%.0f\<close> and \<^verbatim>\<open>%.2f\<close>: the nearest decimal, ties to the even one; a negative
  number keeps its sign also when it is printed as zero.
\<close>

definition round_even :: "real \<Rightarrow> int" where
  "round_even x =
     (let f = \<lfloor>x\<rfloor>; r = x - of_int f
      in if r < 1 / 2 \<or> r = 1 / 2 \<and> even f then f else f + 1)"

definition pad_zeros :: "nat \<Rightarrow> string \<Rightarrow> string" where
  "pad_zeros n s = replicate (n - length s) (CHR ''0'') @ s"

definition sprintf_fixed :: "nat \<Rightarrow> real \<Rightarrow> string" where
  "sprintf_fixed d x =
     (let digits = pad_zeros (Suc d) (itoa (round_even (\<bar>x\<bar> * 10 ^ d)));
          k = length digits - d
      in (if x < 0 then ''-'' else []) @ take k digits @ (if d = 0 then [] else CHR ''.'' # drop k digits))"

text \<open>The interface: what an aggregator computes and its type.\<close>

fun Aggregator_Aggregate ::
  "(VMetricsData list \<Rightarrow> VMetricsData list) \<Rightarrow> Aggregator \<Rightarrow> VMetricsData list \<Rightarrow> (unit, agg_value) outcome" where
  "Aggregator_Aggregate sort_time AvgAggregator data = Ok (Avg_Aggregate data)"
| "Aggregator_Aggregate sort_time SumAggregator data = Ok (Sum_Aggregate data)"
| "Aggregator_Aggregate sort_time MinAggregator data = Ok (Min_Aggregate data)"
| "Aggregator_Aggregate sort_time MaxAggregator data = Ok (Max_Aggregate data)"
| "Aggregator_Aggregate sort_time CountAggregator data = Ok (Count_Aggregate data)"
| "Aggregator_Aggregate sort_time RateAggregator data = Ok (Rate_Aggregate sort_time data)"
| "Aggregator_Aggregate sort_time (PercentileAggregator p) data = Percentile_Aggregate p data"
| "Aggregator_Aggregate sort_time StdDevAggregator data = Ok (StdDev_Aggregate data)"

fun Aggregator_GetType :: "Aggregator \<Rightarrow> string" where
  "Aggregator_GetType AvgAggregator = ''avg''"
| "Aggregator_GetType SumAggregator = ''sum''"
| "Aggregator_GetType MinAggregator = ''min''"
| "Aggregator_GetType MaxAggregator = ''max''"
| "Aggregator_GetType CountAggregator = ''count''"
| "Aggregator_GetType RateAggregator = ''rate''"
| "Aggregator_GetType (PercentileAggregator p) = ''p'' @ sprintf_fixed 0 p"
| "Aggregator_GetType StdDevAggregator = ''stddev''"

subsection \<open>What the aggregators compute\<close>

definition all_values :: "VMetricsData list \<Rightarrow> real list" where
  "all_values data = concat (map (\<lambda>d. map mt_Value (vm_Metrics d)) data)"

lemma sprintf_95: "sprintf_fixed 0 95 = ''95''"
  by (simp add: sprintf_fixed_def round_even_def pad_zeros_def itoa_def nat_digits.simps [of 95] nat_digits.simps [of 9] digit_char_def char_of_def bit_0 Let_def)

lemma over_metrics_values: "over_metrics (\<lambda>x m. g x (mt_Value m)) x data = foldl g x (all_values data)"
  by (induction data arbitrary: x) (simp_all add: over_metrics_def all_values_def foldl_map)

lemma foldl_sum_count: "foldl (\<lambda>(sm, n) v. (sm + v, Suc n)) (a, k) vs = (a + sum_list vs, k + length vs)" for vs :: "real list"
  by (induction vs arbitrary: a k) simp_all

lemma sum_and_count_eq: "sum_and_count data = (sum_list (all_values data), length (all_values data))"
proof -
  have "sum_and_count data = foldl (\<lambda>(sm, n) v. (sm + v, Suc n)) (0, 0) (all_values data)"
    using over_metrics_values [of "\<lambda>(sm, n) v. (sm + v, Suc n)" "(0, 0)" data]
    by (simp add: sum_and_count_def case_prod_beta')
  then show ?thesis using foldl_sum_count [of 0 0 "all_values data"] by simp
qed

lemma foldl_plus: "foldl (+) a vs = a + sum_list vs" for vs :: "real list"
  by (induction vs arbitrary: a) simp_all

lemma foldl_snoc: "foldl (\<lambda>vs v. vs @ [v]) a vs = a @ vs"
  by (induction vs arbitrary: a) simp_all

lemma foldl_less_min: "foldl (\<lambda>a v. if v < a then v else a) x vs = Min (insert x (set vs))" for x :: real
proof (induction vs arbitrary: x)
  case (Cons v vs)
  have "Min (insert x (insert v (set vs))) = Min (insert (if v < x then v else x) (set vs))"
    by (cases "vs = []") (auto simp: min_def)
  then show ?case using Cons by simp
qed simp

lemma foldl_greater_max: "foldl (\<lambda>a v. if v > a then v else a) x vs = Max (insert x (set vs))" for x :: real
proof (induction vs arbitrary: x)
  case (Cons v vs)
  have "Max (insert x (insert v (set vs))) = Max (insert (if v > x then v else x) (set vs))"
    by (cases "vs = []") (auto simp: max_def)
  then show ?case using Cons by simp
qed simp

text \<open>Values within the range of \<^verbatim>\<open>float64\<close>, without its ends.\<close>

definition floats :: "VMetricsData list \<Rightarrow> bool" where
  "floats data \<longleftrightarrow> list_all (\<lambda>v. - MaxFloat64 < v \<and> v < MaxFloat64) (all_values data)"

lemma no_values: "all_values [] = []"
  by (simp add: all_values_def)

lemma Min_Aggregate_eq:
  assumes "floats data" and "all_values data \<noteq> []"
  shows "Min_Aggregate data = AggFloat (Min (set (all_values data)))"
proof -
  let ?vs = "set (all_values data)"
  have lt: "Min ?vs < MaxFloat64" using assms Min_in [of ?vs] by (auto simp: floats_def list_all_iff)
  have "over_metrics (\<lambda>a m. if mt_Value m < a then mt_Value m else a) MaxFloat64 data = Min (insert MaxFloat64 ?vs)"
    using over_metrics_values [of "\<lambda>a v. if v < a then v else a" MaxFloat64 data] by (simp add: foldl_less_min)
  also have "\<dots> = min MaxFloat64 (Min ?vs)" using assms(2) by (intro Min_insert) auto
  also have "\<dots> = Min ?vs" using lt by (intro min_absorb2 less_imp_le)
  finally have m: "over_metrics (\<lambda>a m. if mt_Value m < a then mt_Value m else a) MaxFloat64 data = Min ?vs" .
  have "data \<noteq> []" using assms(2) no_values by auto
  then show ?thesis using less_imp_neq [OF lt] unfolding Min_Aggregate_def m Let_def by simp
qed

lemma Max_Aggregate_eq:
  assumes "floats data" and "all_values data \<noteq> []"
  shows "Max_Aggregate data = AggFloat (Max (set (all_values data)))"
proof -
  let ?vs = "set (all_values data)"
  have gt: "- MaxFloat64 < Max ?vs" using assms Max_in [of ?vs] by (auto simp: floats_def list_all_iff)
  have "over_metrics (\<lambda>a m. if mt_Value m > a then mt_Value m else a) (- MaxFloat64) data = Max (insert (- MaxFloat64) ?vs)"
    using over_metrics_values [of "\<lambda>a v. if v > a then v else a" "- MaxFloat64" data] by (simp add: foldl_greater_max)
  also have "\<dots> = max (- MaxFloat64) (Max ?vs)" using assms(2) by (intro Max_insert) auto
  also have "\<dots> = Max ?vs" using gt by (intro max_absorb2 less_imp_le)
  finally have m: "over_metrics (\<lambda>a m. if mt_Value m > a then mt_Value m else a) (- MaxFloat64) data = Max ?vs" .
  have "data \<noteq> []" using assms(2) no_values by auto
  then show ?thesis using less_imp_neq [OF gt] unfolding Max_Aggregate_def m Let_def by simp
qed

lemma Avg_Aggregate_eq:
  "all_values data \<noteq> [] \<Longrightarrow> Avg_Aggregate data = AggFloat (sum_list (all_values data) / real (length (all_values data)))"
  by (cases "data = []") (simp_all add: Avg_Aggregate_def sum_and_count_eq no_values)

lemma Sum_Aggregate_eq: "Sum_Aggregate data = AggFloat (sum_list (all_values data))"
  using over_metrics_values [of "(+)" 0 data] by (simp add: Sum_Aggregate_def foldl_plus)

lemma Count_Aggregate_eq: "Count_Aggregate data = AggInt (int (length (all_values data)))"
proof -
  have "foldl (\<lambda>n d. n + int (length (vm_Metrics d))) k data = k + int (length (all_values data))" for k
    by (induction data arbitrary: k) (simp_all add: all_values_def)
  then show ?thesis by (simp add: Count_Aggregate_def)
qed

lemma StdDev_Aggregate_eq:
  assumes "all_values data \<noteq> []"
  shows "StdDev_Aggregate data =
    (let vs = all_values data; mean = sum_list vs / real (length vs)
     in AggFloat (sqrt (sum_list (map (\<lambda>v. (v - mean) * (v - mean)) vs) / real (length vs))))"
proof -
  have "foldl (\<lambda>x v. x + g v) a vs = a + sum_list (map g vs)" for g :: "real \<Rightarrow> real" and a vs
    by (induction vs arbitrary: a) simp_all
  then have "over_metrics (\<lambda>v m. v + (mt_Value m - c) * (mt_Value m - c)) 0 data =
      sum_list (map (\<lambda>v. (v - c) * (v - c)) (all_values data))" for c
    using over_metrics_values [of "\<lambda>x v. x + (v - c) * (v - c)" 0 data] by simp
  then show ?thesis using assms by (cases "data = []") (simp_all add: StdDev_Aggregate_def sum_and_count_eq no_values Let_def)
qed

subsection \<open>Percentiles\<close>

lemma Percentile_values: "over_metrics (\<lambda>vs m. vs @ [mt_Value m]) [] data = all_values data"
  using over_metrics_values [of "\<lambda>vs v. vs @ [v]" "[]" data] by (simp add: foldl_snoc)

text \<open>For percentages up to 100 both indices are in range.\<close>

lemma percentile_index_range:
  assumes "0 \<le> p" "p \<le> 100" "0 < n"
  defines "index \<equiv> p / 100 * real (n - 1)"
  shows "0 \<le> \<lfloor>index\<rfloor>" and "\<lfloor>index\<rfloor> < int n" and "0 \<le> \<lceil>index\<rceil>" and "\<lceil>index\<rceil> < int n"
proof -
  have 0: "0 \<le> index" using assms by simp
  have 1: "index \<le> real (n - 1)" using assms mult_right_mono [of "p / 100" 1 "real (n - 1)"] by simp
  show "0 \<le> \<lfloor>index\<rfloor>" "0 \<le> \<lceil>index\<rceil>" using 0 by linarith+
  show "\<lfloor>index\<rfloor> < int n" "\<lceil>index\<rceil> < int n" using 1 assms(3) by linarith+
qed

lemma mix_between:
  fixes a b x y w :: real
  assumes "a \<le> x" "x \<le> b" "a \<le> y" "y \<le> b" "0 \<le> w" "w \<le> 1"
  shows "a \<le> x * (1 - w) + y * w" and "x * (1 - w) + y * w \<le> b"
proof -
  have "a * (1 - w) + a * w \<le> x * (1 - w) + y * w" using assms by (intro add_mono mult_right_mono) auto
  then show "a \<le> x * (1 - w) + y * w" by (simp add: algebra_simps)
  have "x * (1 - w) + y * w \<le> b * (1 - w) + b * w" using assms by (intro add_mono mult_right_mono) auto
  then show "x * (1 - w) + y * w \<le> b" by (simp add: algebra_simps)
qed

lemma if_between:
  "a \<le> x \<Longrightarrow> a \<le> y \<Longrightarrow> x \<le> b \<Longrightarrow> y \<le> b \<Longrightarrow> a \<le> (if c then x else y) \<and> (if c then x else y) \<le> b"
  by simp

lemma Percentile_Aggregate_eq:
  assumes "0 \<le> p" "p \<le> 100" "all_values data \<noteq> []"
  defines "vs \<equiv> sort (all_values data)" and "i \<equiv> p / 100 * real (length (all_values data) - 1)"
  shows "Percentile_Aggregate p data =
    Ok (AggFloat (if \<lfloor>i\<rfloor> = \<lceil>i\<rceil> then vs ! nat \<lfloor>i\<rfloor>
      else vs ! nat \<lfloor>i\<rfloor> * (1 - (i - of_int \<lfloor>i\<rfloor>)) + vs ! nat \<lceil>i\<rceil> * (i - of_int \<lfloor>i\<rfloor>)))"
proof -
  have n: "0 < length (all_values data)" using assms(3) by simp
  note r = percentile_index_range [OF assms(1,2) n, folded i_def]
  have "length data \<noteq> 0" using assms(3) no_values by auto
  moreover have "length (all_values data) \<noteq> 0" using assms(3) by simp
  ultimately show ?thesis
    unfolding Percentile_Aggregate_def Percentile_values Let_def length_sort vs_def [symmetric] i_def [symmetric]
    by (simp only: r if_False if_True simp_thms length_sort vs_def if_distrib [of Ok] if_distrib [of AggFloat])
qed

lemma Percentile_Aggregate_between:
  assumes "0 \<le> p" "p \<le> 100" "all_values data \<noteq> []"
  shows "\<exists>x. Percentile_Aggregate p data = Ok (AggFloat x) \<and> Min (set (all_values data)) \<le> x \<and> x \<le> Max (set (all_values data))"
proof -
  let ?vs = "sort (all_values data)" and ?i = "p / 100 * real (length (all_values data) - 1)"
  have n: "0 < length (all_values data)" using assms(3) by simp
  note r = percentile_index_range [OF assms(1,2) n]
  have in_vs: "Min (set (all_values data)) \<le> ?vs ! k" "?vs ! k \<le> Max (set (all_values data))"
    if "k < length (all_values data)" for k
    using that nth_mem [of k ?vs] by simp_all
  have w: "0 \<le> ?i - of_int \<lfloor>?i\<rfloor>" "?i - of_int \<lfloor>?i\<rfloor> \<le> 1" by linarith+
  have k: "nat \<lfloor>?i\<rfloor> < length (all_values data)" "nat \<lceil>?i\<rceil> < length (all_values data)" using r by linarith+
  note between = mix_between [OF in_vs(1,2) [OF k(1)] in_vs(1,2) [OF k(2)] w]
  show ?thesis
    by (rule exI, rule conjI, rule Percentile_Aggregate_eq [OF assms], rule if_between)
      (rule in_vs(1) [OF k(1)] between(1) in_vs(2) [OF k(1)] between(2))+
qed

text \<open>Outside this range the aggregator panics.\<close>

lemma Percentile_Aggregate_panics:
  assumes "all_values data = [v, v']" and "100 < p"
  shows "Percentile_Aggregate p data = Panic"
proof -
  have "data \<noteq> []" using assms(1) by (auto simp: all_values_def)
  moreover have "2 \<le> \<lceil>p / 100\<rceil>" "\<lfloor>p / 100\<rfloor> = \<lceil>p / 100\<rceil> \<longrightarrow> 2 \<le> \<lfloor>p / 100\<rfloor>" using assms(2) by linarith+
  ultimately show ?thesis using assms(1) by (auto simp: Percentile_Aggregate_def Percentile_values Let_def)
qed

lemma mean_between:
  fixes vs :: "real list"
  assumes "vs \<noteq> []"
  shows "Min (set vs) \<le> sum_list vs / real (length vs)" and "sum_list vs / real (length vs) \<le> Max (set vs)"
proof -
  have lo: "a * real (length xs) \<le> sum_list xs" if "\<And>x. x \<in> set xs \<Longrightarrow> a \<le> x" for a and xs :: "real list"
    using that by (induction xs) (simp_all add: distrib_left add_mono)
  have hi: "sum_list xs \<le> b * real (length xs)" if "\<And>x. x \<in> set xs \<Longrightarrow> x \<le> b" for b and xs :: "real list"
    using that by (induction xs) (simp_all add: distrib_left add_mono)
  show "Min (set vs) \<le> sum_list vs / real (length vs)" using lo [of vs "Min (set vs)"] assms by (simp add: pos_le_divide_eq)
  show "sum_list vs / real (length vs) \<le> Max (set vs)" using hi [of vs "Max (set vs)"] assms by (simp add: pos_divide_le_eq)
qed

end
