(* ===== verification/Topk_Analyzer.thy ===== *)
theory Topk_Analyzer
  imports Aggregators
begin

text \<open>
  The analyzer of the hosts with the greatest values, \<^verbatim>\<open>visualization/internal/analysis/streaming_topk_analyzer.go\<close>.
  The native library that it drives is an argument, \<open>topk_lib\<close>, on a state \<open>'n\<close>; \<open>'p\<close> are its processors.
\<close>

record TopKItem =
  ti_HostID :: string
  ti_Value :: real
  ti_Timestamp :: int

record TopKResult =
  tr_HostID :: string
  tr_MetricName :: string
  tr_Value :: real
  tr_Rank :: nat
  tr_Timestamp :: time

text \<open>The functions that can fail return whether they succeeded.\<close>

record ('p, 'n) topk_lib =
  tk_instance :: "'n \<Rightarrow> bool \<times> 'n"
  tk_initialize :: "int \<Rightarrow> int \<Rightarrow> 'n \<Rightarrow> bool \<times> 'n"
  tk_create :: "string \<Rightarrow> int \<Rightarrow> int \<Rightarrow> 'n \<Rightarrow> 'p option \<times> 'n"
  tk_process :: "'p \<Rightarrow> string \<Rightarrow> real \<Rightarrow> 'n \<Rightarrow> bool \<times> 'n"
  tk_items :: "'p \<Rightarrow> 'n \<Rightarrow> TopKItem list \<times> 'n"
  tk_clear :: "'p \<Rightarrow> 'n \<Rightarrow> 'n"
  tk_close :: "'p \<Rightarrow> 'n \<Rightarrow> 'n"
  tk_shutdown :: "'n \<Rightarrow> 'n"

record 'p StreamingTopKAnalyzer =
  tk_processors :: "(string, 'p) gomap"
  tk_initialized :: bool

definition initializeManager ::
  "('p, 'n) topk_lib \<Rightarrow> 'p StreamingTopKAnalyzer \<Rightarrow> 'n \<Rightarrow> (unit, 'p StreamingTopKAnalyzer \<times> 'n) outcome" where
  "initializeManager lib s n =
     (case tk_instance lib n of
        (False, _) \<Rightarrow> Panic
      | (True, n1) \<Rightarrow>
          (case tk_initialize lib 10 3600 n1 of
             (False, _) \<Rightarrow> Panic
           | (True, n2) \<Rightarrow> Ok (s\<lparr>tk_initialized := True\<rparr>, n2)))"

definition NewStreamingTopKAnalyzer ::
  "('p, 'n) topk_lib \<Rightarrow> 'n \<Rightarrow> (unit, 'p StreamingTopKAnalyzer \<times> 'n) outcome" where
  "NewStreamingTopKAnalyzer lib n = initializeManager lib \<lparr>tk_processors = [], tk_initialized = False\<rparr> n"

fun topk_loop ::
  "('p, 'n) topk_lib \<Rightarrow> string \<Rightarrow> Metric list \<Rightarrow> (string, 'p) gomap \<Rightarrow> 'n \<Rightarrow> (string, 'p) gomap \<times> 'n" where
  "topk_loop lib hostID [] ps n = (ps, n)"
| "topk_loop lib hostID (m # ms) ps n =
     (case map_of ps (mt_Name m) of
        Some p \<Rightarrow> topk_loop lib hostID ms ps (snd (tk_process lib p hostID (mt_Value m) n))
      | None \<Rightarrow>
          (case tk_create lib (mt_Name m) 10 3600 n of
             (None, n1) \<Rightarrow> topk_loop lib hostID ms ps n1
           | (Some p, n1) \<Rightarrow>
               topk_loop lib hostID ms (gm_put (mt_Name m) p ps) (snd (tk_process lib p hostID (mt_Value m) n1))))"

definition TopK_AddData ::
  "('p, 'n) topk_lib \<Rightarrow> VMetricsData \<Rightarrow> 'p StreamingTopKAnalyzer \<Rightarrow> 'n \<Rightarrow> 'p StreamingTopKAnalyzer \<times> 'n" where
  "TopK_AddData lib data s n =
     (if \<not> tk_initialized s then (s, n)
      else
        (case topk_loop lib (vm_HostID data) (vm_Metrics data) (tk_processors s) n of
           (ps, n1) \<Rightarrow> (s\<lparr>tk_processors := ps\<rparr>, n1)))"

text \<open>The conversion of the items, up to \<open>k\<close> of them; \<open>i\<close> is the index.\<close>

fun topk_results :: "string \<Rightarrow> int \<Rightarrow> nat \<Rightarrow> TopKItem list \<Rightarrow> TopKResult list" where
  "topk_results metricName k i [] = []"
| "topk_results metricName k i (item # items) =
     (if int i \<ge> k then []
      else \<lparr>tr_HostID = ti_HostID item, tr_MetricName = metricName, tr_Value = ti_Value item, tr_Rank = i + 1,
              tr_Timestamp = ti_Timestamp item * 1000000000\<rparr> # topk_results metricName k (Suc i) items)"

text \<open>\<open>None\<close> is a nil slice.\<close>

definition TopK_GetTopK ::
  "('p, 'n) topk_lib \<Rightarrow> string \<Rightarrow> int \<Rightarrow> 'p StreamingTopKAnalyzer \<Rightarrow> 'n \<Rightarrow> TopKResult list option \<times> 'n" where
  "TopK_GetTopK lib metricName k s n =
     (if \<not> tk_initialized s then (None, n)
      else
        (case map_of (tk_processors s) metricName of
           None \<Rightarrow> (None, n)
         | Some p \<Rightarrow>
             (case tk_items lib p n of
                (items, n1) \<Rightarrow> (if length items = 0 then None else Some (topk_results metricName k 0 items), n1))))"

definition GetTopKByTimeRange ::
  "('p, 'n) topk_lib \<Rightarrow> string \<Rightarrow> int \<Rightarrow> time \<Rightarrow> time \<Rightarrow> 'p StreamingTopKAnalyzer \<Rightarrow> 'n \<Rightarrow> TopKResult list option \<times> 'n" where
  "GetTopKByTimeRange lib metricName k startTime endTime s n = TopK_GetTopK lib metricName k s n"

definition TopK_ClearData :: "('p, 'n) topk_lib \<Rightarrow> 'p StreamingTopKAnalyzer \<Rightarrow> 'n \<Rightarrow> 'n" where
  "TopK_ClearData lib s n =
     (if \<not> tk_initialized s then n else fold (\<lambda>(_, p). tk_clear lib p) (tk_processors s) n)"

definition TopK_GetProcessorNames :: "'p StreamingTopKAnalyzer \<Rightarrow> string list option" where
  "TopK_GetProcessorNames s = (if \<not> tk_initialized s then None else Some (map fst (tk_processors s)))"

definition TopK_Close :: "('p, 'n) topk_lib \<Rightarrow> 'p StreamingTopKAnalyzer \<Rightarrow> 'n \<Rightarrow> 'p StreamingTopKAnalyzer \<times> 'n" where
  "TopK_Close lib s n =
     (if \<not> tk_initialized s then (s, n)
      else (s\<lparr>tk_initialized := False\<rparr>, tk_shutdown lib (fold (\<lambda>(_, p). tk_close lib p) (tk_processors s) n)))"

subsection \<open>Results and processors\<close>

lemma topk_results_nth:
  "length (topk_results name k i items) = min (nat (k - int i)) (length items)"
  "j < length (topk_results name k i items) \<Longrightarrow>
    topk_results name k i items ! j =
      \<lparr>tr_HostID = ti_HostID (items ! j), tr_MetricName = name, tr_Value = ti_Value (items ! j), tr_Rank = i + j + 1,
        tr_Timestamp = ti_Timestamp (items ! j) * 1000000000\<rparr>"
proof (induction items arbitrary: i j)
  case (Cons x items)
  case 1
  show ?case using Cons.IH(1) [of "Suc i"] by auto
next
  case (Cons x items)
  case 2
  then show ?case using Cons.IH(2) [of _ "Suc i"] by (cases j) (auto split: if_splits)
qed simp_all

text \<open>A processor that a metric has is kept.\<close>

lemma topk_loop_keeps: "map_of ps k = Some p \<Longrightarrow> map_of (fst (topk_loop lib h ms ps n)) k = Some p"
proof (induction lib h ms ps n rule: topk_loop.induct)
  case (2 lib h m ms ps n)
  then show ?case by (cases "k = mt_Name m") (simp_all split: option.split prod.split)
qed simp

lemma topk_loop_keys:
  "fst ` set (fst (topk_loop lib h ms ps n)) \<subseteq> fst ` set ps \<union> mt_Name ` set ms"
proof (induction ms arbitrary: ps n)
  case (Cons m ms)
  have keep: "fst ` set (fst (topk_loop lib h ms ps n')) \<subseteq> fst ` set ps \<union> mt_Name ` set (m # ms)" for n'
    using Cons [of ps n'] by auto
  have put: "fst ` set (fst (topk_loop lib h ms (gm_put (mt_Name m) p ps) n')) \<subseteq> fst ` set ps \<union> mt_Name ` set (m # ms)"
    for p n'
    using Cons [of "gm_put (mt_Name m) p ps" n'] by (simp add: insert_commute)
  show ?case using keep put by (simp split: option.split prod.split)
qed simp

text \<open>When processors can be created, every metric has one after its first value.\<close>

lemma topk_loop_all:
  assumes "\<And>name k ttl n. fst (tk_create lib name k ttl n) \<noteq> None" and "name \<in> mt_Name ` set ms"
  shows "map_of (fst (topk_loop lib h ms ps n)) name \<noteq> None"
  using assms(2)
proof (induction ms arbitrary: ps n)
  case (Cons m ms)
  obtain p n1 where c: "tk_create lib (mt_Name m) 10 3600 n = (Some p, n1)"
    using assms(1) [of "mt_Name m" 10 3600 n] by (metis eq_fst_iff not_Some_eq)
  show ?case
  proof (cases "name \<in> mt_Name ` set ms")
    case True
    then show ?thesis using Cons.IH c by (simp split: option.split)
  next
    case False
    then have "name = mt_Name m" using Cons.prems by simp
    then show ?thesis
      using c topk_loop_keeps [of "gm_put name p ps" name p] topk_loop_keeps [of ps name]
      by (fastforce split: option.split)
  qed
qed simp

end
