(* ===== verification/Analyzer.thy ===== *)
theory Analyzer
  imports Topk_Analyzer Utf8
begin

text \<open>
  The analyzer of the visualisation, \<^verbatim>\<open>visualization/internal/analysis/analyzer.go\<close>: a cache of the latest metrics of
  every host, queries and aggregates over it, trends, anomalies and alerts. The state of the native library of
  \<open>Topk_Analyzer\<close> is passed along.
\<close>

subsection \<open>Types\<close>

record AlertRule =
  ar_ID :: string
  ar_Name :: string
  ar_Metric :: string
  ar_Condition :: string
  ar_Threshold :: real
  ar_Duration :: duration
  ar_Severity :: string
  ar_Enabled :: bool
  ar_Metadata :: "(string, json) gomap"

record Alert =
  al_ID :: string
  al_RuleID :: string
  al_RuleName :: string
  al_HostID :: string
  al_Metric :: string
  al_Value :: real
  al_Threshold :: real
  al_Severity :: string
  al_Message :: string
  al_Timestamp :: time
  al_Status :: string
  al_Metadata :: "(string, json) gomap"

record TimeRange =
  tg_Start :: time
  tg_End :: time

record AggregationResult =
  gr_Type :: string
  gr_TimeRange :: TimeRange
  gr_HostID :: string
  gr_Metric :: string
  gr_Data :: agg_value
  gr_Timestamp :: time

record TrendAnalysis =
  ta_Direction :: string
  ta_Slope :: real
  ta_Correlation :: real
  ta_Prediction :: real
  ta_Confidence :: real

record AnomalyDetection =
  ad_IsAnomaly :: bool
  ad_AnomalyScore :: real
  ad_Threshold :: real
  ad_Method :: string
  ad_Description :: string

record 'p Analyzer =
  an_dataCache :: "(string, VMetricsData list) gomap"
  an_aggregators :: "(string, Aggregator) gomap"
  an_alertRules :: "(string, AlertRule) gomap"
  an_topk :: "'p StreamingTopKAnalyzer"

datatype analysis_error = NoData string | UnknownAggregator string | NoMetricData string
  | InsufficientData | InsufficientMetricData string

subsection \<open>Registering\<close>

definition RegisterAggregator :: "Aggregator \<Rightarrow> 'p Analyzer \<Rightarrow> 'p Analyzer" where
  "RegisterAggregator g a = a\<lparr>an_aggregators := gm_put (Aggregator_GetType g) g (an_aggregators a)\<rparr>"

definition RegisterAlertRule :: "AlertRule \<Rightarrow> 'p Analyzer \<Rightarrow> 'p Analyzer" where
  "RegisterAlertRule rule a = a\<lparr>an_alertRules := gm_put (ar_ID rule) rule (an_alertRules a)\<rparr>"

text \<open>A rule of the table of default rules: all are enabled and compare with \<^verbatim>\<open>>\<close>.\<close>

definition default_rule :: "string \<Rightarrow> string \<Rightarrow> string \<Rightarrow> real \<Rightarrow> string \<Rightarrow> AlertRule" where
  "default_rule i name metric threshold severity =
     \<lparr>ar_ID = i, ar_Name = name, ar_Metric = metric, ar_Condition = ''>'', ar_Threshold = threshold, ar_Duration = 0,
       ar_Severity = severity, ar_Enabled = True, ar_Metadata = []\<rparr>"

definition default_rules :: "AlertRule list" where
  "default_rules =
     [default_rule ''cpu-high'' (string_of_runes [67, 80, 85, 20351, 29992, 29575, 36807, 39640]) ''cpu_usage'' 80 ''warning'',
      default_rule ''cpu-critical'' (string_of_runes [67, 80, 85, 20351, 29992, 29575, 20005, 37325, 36807, 39640]) ''cpu_usage'' 95 ''critical'',
      default_rule ''memory-high'' (string_of_runes [20869, 23384, 20351, 29992, 29575, 36807, 39640]) ''memory_usage'' 85 ''warning'',
      default_rule ''memory-critical'' (string_of_runes [20869, 23384, 20351, 29992, 29575, 20005, 37325, 36807, 39640]) ''memory_usage'' 95 ''critical'',
      default_rule ''disk-high'' (string_of_runes [30913, 30424, 20351, 29992, 29575, 36807, 39640]) ''disk_usage'' 90 ''warning'']"

definition RegisterDefaultAlertRules :: "'p Analyzer \<Rightarrow> 'p Analyzer" where
  "RegisterDefaultAlertRules a = fold RegisterAlertRule default_rules a"

definition NewAnalyzer :: "('p, 'n) topk_lib \<Rightarrow> 'n \<Rightarrow> (unit, 'p Analyzer \<times> 'n) outcome" where
  "NewAnalyzer lib n =
     (case NewStreamingTopKAnalyzer lib n of
        Ok (t, n1) \<Rightarrow>
          Ok (RegisterDefaultAlertRules (fold RegisterAggregator
                [AvgAggregator, SumAggregator, MinAggregator, MaxAggregator, CountAggregator, RateAggregator,
                 PercentileAggregator 95, StdDevAggregator]
                \<lparr>an_dataCache = [], an_aggregators = [], an_alertRules = [], an_topk = t\<rparr>), n1)
      | _ \<Rightarrow> Panic)"

subsection \<open>The cache\<close>

definition GetCacheData :: "'p Analyzer \<Rightarrow> string \<Rightarrow> VMetricsData list" where
  "GetCacheData a hostID = (case map_of (an_dataCache a) hostID of Some ds \<Rightarrow> ds | None \<Rightarrow> [])"

definition Analyzer_AddData ::
  "('p, 'n) topk_lib \<Rightarrow> VMetricsData \<Rightarrow> 'p Analyzer \<Rightarrow> 'n \<Rightarrow> 'p Analyzer \<times> 'n" where
  "Analyzer_AddData lib data a n =
     (let hostID = vm_HostID data;
          maxCacheSize = 1000;
          ds = GetCacheData a hostID @ [data];
          ds1 = (if length ds > maxCacheSize then drop (length ds - maxCacheSize) ds else ds)
      in case TopK_AddData lib data (an_topk a) n of
           (t, n1) \<Rightarrow> (a\<lparr>an_dataCache := gm_put hostID ds1 (an_dataCache a), an_topk := t\<rparr>, n1))"

definition ClearCache :: "'p Analyzer \<Rightarrow> 'p Analyzer" where
  "ClearCache a = a\<lparr>an_dataCache := []\<rparr>"

definition GetDataInRange :: "'p Analyzer \<Rightarrow> string \<Rightarrow> TimeRange \<Rightarrow> VMetricsData list" where
  "GetDataInRange a hostID r =
     filter (\<lambda>d. vm_Timestamp d > tg_Start r \<and> vm_Timestamp d < tg_End r) (GetCacheData a hostID)"

definition filterMetricData :: "VMetricsData list \<Rightarrow> string \<Rightarrow> VMetricsData list" where
  "filterMetricData data metricName = filter (\<lambda>d. \<exists>m \<in> set (vm_Metrics d). mt_Name m = metricName) data"

definition Analyzer_GetTopK ::
  "('p, 'n) topk_lib \<Rightarrow> string \<Rightarrow> int \<Rightarrow> 'p Analyzer \<Rightarrow> 'n \<Rightarrow> TopKResult list option \<times> 'n" where
  "Analyzer_GetTopK lib metricName k a n = TopK_GetTopK lib metricName k (an_topk a) n"

subsection \<open>Aggregates\<close>

definition Analyzer_Aggregate ::
  "(VMetricsData list \<Rightarrow> VMetricsData list) \<Rightarrow> time \<Rightarrow> 'p Analyzer \<Rightarrow> string \<Rightarrow> string \<Rightarrow> string \<Rightarrow> TimeRange \<Rightarrow>
    (analysis_error, AggregationResult) outcome" where
  "Analyzer_Aggregate sort_time now a hostID metricName aggType r =
     (let data = GetDataInRange a hostID r
      in if length data = 0 then Err (NoData hostID)
         else
           (case map_of (an_aggregators a) aggType of
              None \<Rightarrow> Err (UnknownAggregator aggType)
            | Some g \<Rightarrow>
                (let filteredData = filterMetricData data metricName
                 in if length filteredData = 0 then Err (NoMetricData metricName)
                    else
                      (case Aggregator_Aggregate sort_time g filteredData of
                         Ok v \<Rightarrow>
                           Ok \<lparr>gr_Type = aggType, gr_TimeRange = r, gr_HostID = hostID, gr_Metric = metricName,
                                gr_Data = v, gr_Timestamp = now\<rparr>
                       | _ \<Rightarrow> Panic))))"

subsection \<open>Trends and anomalies\<close>

text \<open>The values of the metric: the first one of each record.\<close>

fun series :: "string \<Rightarrow> VMetricsData list \<Rightarrow> real list" where
  "series metricName [] = []"
| "series metricName (d # ds) =
     (case find (\<lambda>m. mt_Name m = metricName) (vm_Metrics d) of
        Some m \<Rightarrow> mt_Value m # series metricName ds
      | None \<Rightarrow> series metricName ds)"

text \<open>\<^verbatim>\<open>y[i]\<close> panics when \<open>y\<close> is shorter than \<open>x\<close>.\<close>

definition linearRegression :: "real list \<Rightarrow> real list \<Rightarrow> (unit, real \<times> real) outcome" where
  "linearRegression x y =
     (let n = real (length x)
      in if n < 2 then Ok (0, 0)
         else if length y < length x then Panic
         else
           (let xy = zip x y;
                (sumX, sumY) = foldl (\<lambda>(s, t) (u, v). (s + u, t + v)) (0, 0) xy;
                meanX = sumX / n;
                meanY = sumY / n;
                (sumXY, sumX2, sumY2) =
                  foldl (\<lambda>(s, p, q) (u, v). (s + (u - meanX) * (v - meanY), p + (u - meanX) * (u - meanX),
                    q + (v - meanY) * (v - meanY))) (0, 0, 0) xy
            in if sumX2 = 0 then Ok (0, 0)
               else Ok (sumXY / sumX2, if sumY2 = 0 then 1 else sumXY / sqrt (sumX2 * sumY2))))"

definition AnalyzeTrend ::
  "'p Analyzer \<Rightarrow> string \<Rightarrow> string \<Rightarrow> TimeRange \<Rightarrow> (analysis_error, TrendAnalysis) outcome" where
  "AnalyzeTrend a hostID metricName r =
     (let data = GetDataInRange a hostID r
      in if length data < 2 then Err InsufficientData
         else
           (let filteredData = filterMetricData data metricName
            in if length filteredData < 2 then Err (InsufficientMetricData metricName)
               else
                 (let xValues = map real [0..<length filteredData];
                      yValues = series metricName filteredData
                  in case linearRegression xValues yValues of
                       Ok (slope, correlation) \<Rightarrow>
                         Ok \<lparr>ta_Direction = (if \<bar>slope\<bar> > 0.1 then (if slope > 0 then ''up'' else ''down'') else ''stable''),
                              ta_Slope = slope, ta_Correlation = correlation,
                              ta_Prediction = last yValues + slope * real (length yValues),
                              ta_Confidence = \<bar>correlation\<bar> * 100\<rparr>
                     | _ \<Rightarrow> Panic)))"

definition calculateMeanStdDev :: "real list \<Rightarrow> real \<times> real" where
  "calculateMeanStdDev vs =
     (let n = real (length vs)
      in if n = 0 then (0, 0)
         else
           (let mean = foldl (+) 0 vs / n;
                variance = foldl (\<lambda>s v. s + (v - mean) * (v - mean)) 0 vs / n
            in (mean, sqrt variance)))"

definition DetectAnomaly ::
  "'p Analyzer \<Rightarrow> string \<Rightarrow> string \<Rightarrow> TimeRange \<Rightarrow> (analysis_error, AnomalyDetection) outcome" where
  "DetectAnomaly a hostID metricName r =
     (let data = GetDataInRange a hostID r
      in if length data < 10 then Err InsufficientData
         else
           (let filteredData = filterMetricData data metricName
            in if length filteredData < 10 then Err (InsufficientMetricData metricName)
               else
                 (let vs = series metricName filteredData;
                      (mean, stdDev) = calculateMeanStdDev vs
                  in if stdDev = 0 then
                       Ok \<lparr>ad_IsAnomaly = False, ad_AnomalyScore = 0, ad_Threshold = 3, ad_Method = ''z-score'',
                            ad_Description = ''No variation in data''\<rparr>
                     else
                       (let zScore = \<bar>last vs - mean\<bar> / stdDev
                        in Ok \<lparr>ad_IsAnomaly = zScore > 3, ad_AnomalyScore = zScore, ad_Threshold = 3,
                                ad_Method = ''z-score'', ad_Description = ''Z-score: '' @ sprintf_fixed 2 zScore\<rparr>))))"

subsection \<open>Alerts\<close>

definition evaluateCondition :: "real \<Rightarrow> string \<Rightarrow> real \<Rightarrow> bool" where
  "evaluateCondition v condition threshold =
     (if condition = ''>'' then v > threshold
      else if condition = ''>='' then v \<ge> threshold
      else if condition = ''<'' then v < threshold
      else if condition = ''<='' then v \<le> threshold
      else if condition = ''=='' then v = threshold
      else if condition = ''!='' then v \<noteq> threshold
      else False)"

text \<open>\<open>now1\<close> and \<open>now2\<close> are the two readings of the clock.\<close>

definition make_alert :: "time \<Rightarrow> time \<Rightarrow> AlertRule \<Rightarrow> string \<Rightarrow> real \<Rightarrow> Alert" where
  "make_alert now1 now2 rule hostID v =
     \<lparr>al_ID = ar_ID rule @ ''-'' @ hostID @ ''-'' @ itoa (now1 div 1000000000),
       al_RuleID = ar_ID rule, al_RuleName = ar_Name rule, al_HostID = hostID, al_Metric = ar_Metric rule, al_Value = v,
       al_Threshold = ar_Threshold rule, al_Severity = ar_Severity rule,
       al_Message = ar_Metric rule @ '' '' @ ar_Condition rule @ '' '' @ sprintf_fixed 2 v @ '' (threshold: '' @
         sprintf_fixed 2 (ar_Threshold rule) @ '')'',
       al_Timestamp = now2, al_Status = ''active'', al_Metadata = ar_Metadata rule\<rparr>"

text \<open>The loops over the metrics of the latest record, over the hosts and over the rules; the clock is read twice for each alert.\<close>

fun metric_alerts :: "(nat \<Rightarrow> time) \<Rightarrow> AlertRule \<Rightarrow> string \<Rightarrow> Metric list \<Rightarrow> Alert list \<Rightarrow> Alert list" where
  "metric_alerts clock rule hostID [] alerts = alerts"
| "metric_alerts clock rule hostID (m # ms) alerts =
     metric_alerts clock rule hostID ms
       (if mt_Name m = ar_Metric rule \<and> evaluateCondition (mt_Value m) (ar_Condition rule) (ar_Threshold rule) then
          alerts @ [make_alert (clock (2 * length alerts)) (clock (2 * length alerts + 1)) rule hostID (mt_Value m)]
        else alerts)"

fun host_alerts ::
  "(nat \<Rightarrow> time) \<Rightarrow> AlertRule \<Rightarrow> (string \<times> VMetricsData list) list \<Rightarrow> Alert list \<Rightarrow> Alert list" where
  "host_alerts clock rule [] alerts = alerts"
| "host_alerts clock rule ((hostID, data) # cache) alerts =
     host_alerts clock rule cache
       (if length data = 0 then alerts else metric_alerts clock rule hostID (vm_Metrics (last data)) alerts)"

fun rule_alerts ::
  "(nat \<Rightarrow> time) \<Rightarrow> (string \<times> VMetricsData list) list \<Rightarrow> (string \<times> AlertRule) list \<Rightarrow> Alert list \<Rightarrow> Alert list" where
  "rule_alerts clock cache [] alerts = alerts"
| "rule_alerts clock cache ((_, rule) # rules) alerts =
     rule_alerts clock cache rules (if \<not> ar_Enabled rule then alerts else host_alerts clock rule cache alerts)"

definition CheckAlerts :: "(nat \<Rightarrow> time) \<Rightarrow> 'p Analyzer \<Rightarrow> Alert list" where
  "CheckAlerts clock a = rule_alerts clock (an_dataCache a) (an_alertRules a) []"

subsection \<open>Statistics\<close>

record metric_stat =
  st_count :: int
  st_min :: real
  st_max :: real
  st_sum :: real
  st_avg :: "real option"

record host_statistics =
  hs_total_data_points :: nat
  hs_latest_timestamp :: time
  hs_earliest_timestamp :: time
  hs_metrics :: "(string, metric_stat) gomap"

definition add_stat :: "(string, metric_stat) gomap \<Rightarrow> Metric \<Rightarrow> (string, metric_stat) gomap" where
  "add_stat stats m =
     (let s = (case map_of stats (mt_Name m) of
                 Some s \<Rightarrow> s
               | None \<Rightarrow> \<lparr>st_count = 0, st_min = MaxFloat64, st_max = - MaxFloat64, st_sum = 0, st_avg = None\<rparr>)
      in gm_put (mt_Name m)
           (s\<lparr>st_count := st_count s + 1, st_min := min (st_min s) (mt_Value m), st_max := max (st_max s) (mt_Value m),
             st_sum := st_sum s + mt_Value m\<rparr>) stats)"

definition average_stat :: "metric_stat \<Rightarrow> metric_stat" where
  "average_stat s = (if st_count s > 0 then s\<lparr>st_avg := Some (st_sum s / of_int (st_count s))\<rparr> else s)"

text \<open>\<open>None\<close> is the empty map of a host that is not in the cache.\<close>

definition Analyzer_GetStatistics :: "'p Analyzer \<Rightarrow> string \<Rightarrow> (unit, host_statistics option) outcome" where
  "Analyzer_GetStatistics a hostID =
     (case map_of (an_dataCache a) hostID of
        None \<Rightarrow> Ok None
      | Some data \<Rightarrow>
          (if length data = 0 then Panic
           else
             Ok (Some \<lparr>hs_total_data_points = length data, hs_latest_timestamp = vm_Timestamp (last data),
                  hs_earliest_timestamp = vm_Timestamp (hd data),
                  hs_metrics = map (\<lambda>(name, s). (name, average_stat s)) (over_metrics add_stat [] data)\<rparr>)))"

subsection \<open>The cache holds the latest records\<close>

datatype cache_op = CAdd VMetricsData | CClear

fun cache_step :: "('p, 'n) topk_lib \<Rightarrow> cache_op \<Rightarrow> 'p Analyzer \<times> 'n \<Rightarrow> 'p Analyzer \<times> 'n" where
  "cache_step lib (CAdd d) (a, n) = Analyzer_AddData lib d a n"
| "cache_step lib CClear (a, n) = (ClearCache a, n)"

text \<open>The records since the cache was last cleared.\<close>

fun added :: "cache_op \<Rightarrow> VMetricsData list \<Rightarrow> VMetricsData list" where
  "added (CAdd d) ds = ds @ [d]"
| "added CClear ds = []"

definition since_clear :: "cache_op list \<Rightarrow> VMetricsData list" where
  "since_clear ops = fold added ops []"

definition of_host :: "string \<Rightarrow> VMetricsData list \<Rightarrow> VMetricsData list" where
  "of_host h ds = filter (\<lambda>d. vm_HostID d = h) ds"

lemma last_n_last_n_snoc: "last_n n (last_n n xs @ [x]) = last_n n (xs @ [x])"
  by (cases "n \<le> length xs") (simp_all add: last_n_def Suc_diff_le)

lemma AddData_cache:
  "GetCacheData (fst (Analyzer_AddData lib d a n)) h =
    (if h = vm_HostID d then last_n 1000 (GetCacheData a h @ [d]) else GetCacheData a h)"
  by (simp add: Analyzer_AddData_def GetCacheData_def last_n_def Let_def split: prod.split)

lemma AddData_keeps:
  "an_aggregators (fst (Analyzer_AddData lib d a n)) = an_aggregators a"
  "an_alertRules (fst (Analyzer_AddData lib d a n)) = an_alertRules a"
  by (simp_all add: Analyzer_AddData_def Let_def split: prod.split)

definition caches :: "'p Analyzer \<Rightarrow> VMetricsData list \<Rightarrow> bool" where
  "caches a ds \<longleftrightarrow> gm_wf (an_dataCache a) \<and> [] \<notin> snd ` set (an_dataCache a) \<and> (\<forall>h. GetCacheData a h = last_n 1000 (of_host h ds))"

lemma caches_step:
  assumes "caches (fst an) ds"
  shows "caches (fst (cache_step lib op an)) (added op ds)"
proof (cases op)
  case (CAdd d)
  obtain a n where an: "an = (a, n)" by (cases an)
  let ?a = "fst (Analyzer_AddData lib d a n)"
  have "gm_wf (an_dataCache ?a)" "[] \<notin> snd ` set (an_dataCache ?a)"
    using assms by (auto simp: an caches_def Analyzer_AddData_def Let_def set_put split: prod.split)
  moreover have "GetCacheData ?a h = last_n 1000 (of_host h (ds @ [d]))" for h
    using assms by (simp add: an caches_def AddData_cache of_host_def last_n_last_n_snoc)
  ultimately show ?thesis by (simp add: caches_def CAdd an)
qed (cases an, simp add: caches_def ClearCache_def GetCacheData_def of_host_def last_n_def)

lemma step_keeps:
  "an_aggregators (fst (cache_step lib op an)) = an_aggregators (fst an)"
  "an_alertRules (fst (cache_step lib op an)) = an_alertRules (fst an)"
  by (cases op; cases an; simp add: AddData_keeps ClearCache_def)+

lemma caches_run:
  assumes "caches (fst an) ds"
  shows "caches (fst (fold (cache_step lib) ops an)) (fold added ops ds)"
    and "an_aggregators (fst (fold (cache_step lib) ops an)) = an_aggregators (fst an)"
    and "an_alertRules (fst (fold (cache_step lib) ops an)) = an_alertRules (fst an)"
  using assms
proof (induction ops arbitrary: an ds)
  case (Cons op ops)
  case 1
  show ?case using Cons.IH(1) [OF caches_step [OF 1]] by simp
next
  case (Cons op ops)
  case 2
  show ?case using Cons.IH(2) [OF caches_step [OF 2]] by (simp add: step_keeps)
next
  case (Cons op ops)
  case 3
  show ?case using Cons.IH(3) [OF caches_step [OF 3]] by (simp add: step_keeps)
qed simp_all

text \<open>What a new analyzer has.\<close>

lemma default_rules_registered:
  "an_alertRules a = [] \<Longrightarrow> an_alertRules (RegisterDefaultAlertRules a) = map (\<lambda>r. (ar_ID r, r)) default_rules"
  by (simp add: RegisterDefaultAlertRules_def RegisterAlertRule_def default_rules_def default_rule_def)

lemma RegisterDefaultAlertRules_keeps:
  "an_dataCache (RegisterDefaultAlertRules a) = an_dataCache a"
  "an_aggregators (RegisterDefaultAlertRules a) = an_aggregators a"
  by (simp_all add: RegisterDefaultAlertRules_def RegisterAlertRule_def default_rules_def)

lemma NewAnalyzer_has:
  assumes "NewAnalyzer lib n = Ok (a, n1)"
  shows "caches a []" and "an_alertRules a = map (\<lambda>r. (ar_ID r, r)) default_rules"
    and "map_of (an_aggregators a) ''avg'' = Some AvgAggregator" and "map_of (an_aggregators a) ''min'' = Some MinAggregator"
    and "map_of (an_aggregators a) ''max'' = Some MaxAggregator"
    and "map_of (an_aggregators a) ''p95'' = Some (PercentileAggregator 95)"
  using assms
  by (auto simp: NewAnalyzer_def RegisterDefaultAlertRules_keeps default_rules_registered RegisterAggregator_def sprintf_95
      caches_def GetCacheData_def of_host_def last_n_def split: outcome.splits)

lemma new_caches:
  assumes "NewAnalyzer lib n = Ok an"
  shows "caches (fst (fold (cache_step lib) ops an)) (since_clear ops)"
proof -
  have "caches (fst an) []" using NewAnalyzer_has(1) [of lib n "fst an" "snd an"] assms by simp
  then show ?thesis unfolding since_clear_def by (rule caches_run)
qed

lemma cached_range:
  "caches a ds \<Longrightarrow> GetDataInRange a h r =
    filter (\<lambda>d. tg_Start r < vm_Timestamp d \<and> vm_Timestamp d < tg_End r) (last_n 1000 (of_host h ds))"
  by (simp add: GetDataInRange_def caches_def)

text \<open>
  C36: the cache of the analyzer holds the latest records. After any additions and clearings, a query for a host and a
  range of time returns exactly those of its last thousand records since the last clearing that lie
  strictly within the range, in the order of their arrival.
\<close>

theorem analyzer_returns_latest:
  assumes "NewAnalyzer lib n = Ok an"
  shows "GetDataInRange (fst (fold (cache_step lib) ops an)) h r =
    filter (\<lambda>d. tg_Start r < vm_Timestamp d \<and> vm_Timestamp d < tg_End r) (last_n 1000 (of_host h (since_clear ops)))"
  using new_caches [OF assms] by (rule cached_range)

text \<open>A library that counts its processors, and a record.\<close>

definition counting_lib :: "(nat, nat) topk_lib" where
  "counting_lib = \<lparr>tk_instance = Pair True, tk_initialize = \<lambda>k ttl n. (True, n), tk_create = \<lambda>name k ttl n. (Some n, Suc n),
     tk_process = \<lambda>p h v n. (True, n), tk_items = \<lambda>p n. ([], n), tk_clear = \<lambda>p n. n, tk_close = \<lambda>p n. n, tk_shutdown = \<lambda>n. n\<rparr>"

definition point :: "string \<Rightarrow> time \<Rightarrow> (string \<times> real) list \<Rightarrow> VMetricsData" where
  "point h t ms = \<lparr>vm_HostID = h, vm_Timestamp = t, vm_Metrics = map (\<lambda>(k, v). \<lparr>mt_Name = k, mt_Value = v, mt_Unit = []\<rparr>) ms\<rparr>"

lemma counting_analyzer: "\<exists>a. NewAnalyzer counting_lib 0 = Ok (a, 0)"
  by (simp add: NewAnalyzer_def NewStreamingTopKAnalyzer_def initializeManager_def counting_lib_def)

theorem analyzer_returns_latest_witness:
  "\<exists>an. NewAnalyzer counting_lib 0 = Ok an \<and>
    GetDataInRange (fst (fold (cache_step counting_lib)
      [CAdd (point ''h'' 1 []), CClear, CAdd (point ''h'' 2 []), CAdd (point ''g'' 3 []), CAdd (point ''h'' 4 []),
       CAdd (point ''h'' 9 [])] an)) ''h'' \<lparr>tg_Start = 1, tg_End = 9\<rparr> = [point ''h'' 2 [], point ''h'' 4 []]"
proof -
  obtain an where "NewAnalyzer counting_lib 0 = Ok an" using counting_analyzer by blast
  then show ?thesis
    by (intro exI [of _ an] conjI, assumption, subst analyzer_returns_latest)
      (assumption, simp add: since_clear_def of_host_def last_n_def point_def)
qed

subsection \<open>Alerts\<close>

definition exceeds :: "AlertRule \<Rightarrow> Metric \<Rightarrow> bool" where
  "exceeds rule m \<longleftrightarrow> mt_Name m = ar_Metric rule \<and> evaluateCondition (mt_Value m) (ar_Condition rule) (ar_Threshold rule)"

lemma metric_alerts_values:
  "map (\<lambda>al. (al_RuleID al, al_HostID al, al_Value al)) (metric_alerts clock rule h ms alerts) =
    map (\<lambda>al. (al_RuleID al, al_HostID al, al_Value al)) alerts @
    map (\<lambda>m. (ar_ID rule, h, mt_Value m)) (filter (exceeds rule) ms)"
  by (induction ms arbitrary: alerts) (simp_all add: exceeds_def make_alert_def)

lemma host_alerts_values:
  "map (\<lambda>al. (al_RuleID al, al_HostID al, al_Value al)) (host_alerts clock rule cache alerts) =
    map (\<lambda>al. (al_RuleID al, al_HostID al, al_Value al)) alerts @
    concat (map (\<lambda>(h, data). if data = [] then []
      else map (\<lambda>m. (ar_ID rule, h, mt_Value m)) (filter (exceeds rule) (vm_Metrics (last data)))) cache)"
  by (induction clock rule cache alerts rule: host_alerts.induct) (simp_all add: metric_alerts_values)

lemma rule_alerts_values:
  "map (\<lambda>al. (al_RuleID al, al_HostID al, al_Value al)) (rule_alerts clock cache rules alerts) =
    map (\<lambda>al. (al_RuleID al, al_HostID al, al_Value al)) alerts @
    concat (map (\<lambda>(_, rule). if \<not> ar_Enabled rule then []
      else concat (map (\<lambda>(h, data). if data = [] then []
        else map (\<lambda>m. (ar_ID rule, h, mt_Value m)) (filter (exceeds rule) (vm_Metrics (last data)))) cache)) rules)"
  by (induction clock cache rules alerts rule: rule_alerts.induct) (simp_all add: host_alerts_values)

lemma in_host_alerts:
  "(rid, h, v) \<in> set (concat (map (\<lambda>(h, data). if data = [] then []
      else map (\<lambda>m. (ar_ID rule, h, mt_Value m)) (filter (exceeds rule) (vm_Metrics (last data)))) cache)) \<longleftrightarrow>
    ar_ID rule = rid \<and> (\<exists>data. (h, data) \<in> set cache \<and> data \<noteq> [] \<and>
      (\<exists>m \<in> set (vm_Metrics (last data)). exceeds rule m \<and> mt_Value m = v))"
  by (induction cache) auto

lemma in_rule_alerts:
  "x \<in> set (concat (map (\<lambda>(_, rule). if \<not> ar_Enabled rule then [] else f rule) rules)) \<longleftrightarrow>
    (\<exists>rule \<in> snd ` set rules. ar_Enabled rule \<and> x \<in> set (f rule))"
  by (induction rules) auto

lemma CheckAlerts_iff:
  "(rid, h, v) \<in> (\<lambda>al. (al_RuleID al, al_HostID al, al_Value al)) ` set (CheckAlerts clock a) \<longleftrightarrow>
    (\<exists>rule \<in> snd ` set (an_alertRules a). ar_Enabled rule \<and> ar_ID rule = rid \<and>
      (\<exists>data. (h, data) \<in> set (an_dataCache a) \<and> data \<noteq> [] \<and>
        (\<exists>m \<in> set (vm_Metrics (last data)). exceeds rule m \<and> mt_Value m = v)))"
  unfolding set_map [symmetric] CheckAlerts_def rule_alerts_values list.map(1) append_Nil in_rule_alerts in_host_alerts ..

lemma caches_last:
  assumes "caches a ds"
  shows "(\<exists>data. (h, data) \<in> set (an_dataCache a) \<and> data \<noteq> [] \<and> P (last data)) \<longleftrightarrow> of_host h ds \<noteq> [] \<and> P (last (of_host h ds))"
proof -
  have c: "GetCacheData a h = last_n 1000 (of_host h ds)" using assms by (simp add: caches_def)
  have iff: "(h, data) \<in> set (an_dataCache a) \<longleftrightarrow> map_of (an_dataCache a) h = Some data" for data
    using assms by (simp add: caches_def)
  have last: "xs \<noteq> [] \<Longrightarrow> last_n 1000 xs \<noteq> [] \<and> last (last_n 1000 xs) = last xs" for xs :: "VMetricsData list"
    by (cases xs) (simp_all add: last_n_def last_drop)
  have "(\<exists>data. (h, data) \<in> set (an_dataCache a) \<and> data \<noteq> [] \<and> P (last data)) \<longleftrightarrow>
      GetCacheData a h \<noteq> [] \<and> P (last (GetCacheData a h))"
    unfolding iff by (cases "map_of (an_dataCache a) h") (simp_all add: GetCacheData_def)
  also have "\<dots> \<longleftrightarrow> of_host h ds \<noteq> [] \<and> P (last (of_host h ds))"
    using last [of "of_host h ds"] unfolding c by (cases "of_host h ds = []") (simp_all add: last_n_def)
  finally show ?thesis .
qed

lemma default_rule_exceeds:
  "(\<exists>rule \<in> set default_rules. ar_Enabled rule \<and> ar_ID rule = rid \<and> exceeds rule m) \<longleftrightarrow>
    (\<exists>(i, k, t) \<in> {(''cpu-high'', ''cpu_usage'', 80), (''cpu-critical'', ''cpu_usage'', 95),
          (''memory-high'', ''memory_usage'', 85), (''memory-critical'', ''memory_usage'', 95), (''disk-high'', ''disk_usage'', 90)}.
      i = rid \<and> k = mt_Name m \<and> t < mt_Value m)"
  by (simp add: default_rules_def default_rule_def exceeds_def evaluateCondition_def eq_commute [of "mt_Name m"])

text \<open>
  C37: a new analyzer raises exactly the alerts of its default rules. After any additions and clearings, it has an alert of a
  rule for a host with a value exactly when the latest record of the host has this value for the metric of the rule, and
  the value is above the threshold.
\<close>

theorem default_alerts_exact:
  assumes "NewAnalyzer lib n = Ok an"
  shows "(rid, h, v) \<in> (\<lambda>al. (al_RuleID al, al_HostID al, al_Value al)) `
      set (CheckAlerts clock (fst (fold (cache_step lib) ops an))) \<longleftrightarrow>
    of_host h (since_clear ops) \<noteq> [] \<and>
    (\<exists>m \<in> set (vm_Metrics (last (of_host h (since_clear ops)))). mt_Value m = v \<and>
      (\<exists>(i, k, t) \<in> {(''cpu-high'', ''cpu_usage'', 80), (''cpu-critical'', ''cpu_usage'', 95),
          (''memory-high'', ''memory_usage'', 85), (''memory-critical'', ''memory_usage'', 95), (''disk-high'', ''disk_usage'', 90)}.
        i = rid \<and> k = mt_Name m \<and> t < mt_Value m))"
proof -
  let ?a = "fst (fold (cache_step lib) ops an)"
  have new: "caches (fst an) []" "an_alertRules (fst an) = map (\<lambda>r. (ar_ID r, r)) default_rules"
    using NewAnalyzer_has(1,2) [of lib n "fst an" "snd an"] assms by simp_all
  have c: "caches ?a (since_clear ops)" and r: "snd ` set (an_alertRules ?a) = set default_rules"
    using caches_run [OF new(1), where lib = lib and ops = ops] new(2) by (simp_all add: since_clear_def image_image)
  note latest = caches_last [OF c, where P = "\<lambda>d. \<exists>m \<in> set (vm_Metrics d). Q m" for Q]
  show ?thesis unfolding CheckAlerts_iff latest r default_rule_exceeds [symmetric] by blast
qed

theorem default_alerts_exact_witness:
  "\<exists>an. NewAnalyzer counting_lib 0 = Ok an \<and>
    (''cpu-high'', ''h'', 90) \<in> (\<lambda>al. (al_RuleID al, al_HostID al, al_Value al)) ` set (CheckAlerts (\<lambda>i. 7)
      (fst (fold (cache_step counting_lib) [CAdd (point ''h'' 1 []), CAdd (point ''h'' 2 [(''cpu_usage'', 90)])] an))) \<and>
    (''cpu-critical'', ''h'', 90) \<notin> (\<lambda>al. (al_RuleID al, al_HostID al, al_Value al)) ` set (CheckAlerts (\<lambda>i. 7)
      (fst (fold (cache_step counting_lib) [CAdd (point ''h'' 1 []), CAdd (point ''h'' 2 [(''cpu_usage'', 90)])] an)))"
proof -
  obtain an where an: "NewAnalyzer counting_lib 0 = Ok an" using counting_analyzer by blast
  show ?thesis
    by (intro exI [of _ an] conjI an; subst default_alerts_exact [OF an])
      (simp_all add: since_clear_def of_host_def point_def)
qed

end
