(* ===== verification/Analyzer_Trends.thy ===== *)
theory Analyzer_Trends
  imports Analyzer
begin

text \<open>
  What the numbers of the analyzer mean: the trend is the line of least squares and its confidence a percentage, an
  anomaly needs more than ten records, the aggregates of a query are ordered.
\<close>

subsection \<open>Sums over lists\<close>

lemma foldl_sums2: "foldl (\<lambda>(s, t) (u, v). (s + u, t + v)) (a, b) xy = (a + sum_list (map fst xy), b + sum_list (map snd xy))"
  for a b :: real
  by (induction xy arbitrary: a b) (auto simp: algebra_simps)

lemma foldl_sums3:
  "foldl (\<lambda>(s, p, q) (u, v). (s + f u v, p + g u v, q + h u v)) (a, b, c) xy =
    (a + (\<Sum>(u, v) \<leftarrow> xy. f u v), b + (\<Sum>(u, v) \<leftarrow> xy. g u v), c + (\<Sum>(u, v) \<leftarrow> xy. h u v))"
  for f g h :: "'u \<Rightarrow> 'v \<Rightarrow> real"
  by (induction xy arbitrary: a b c) (auto simp: algebra_simps)

lemma foldl_sum_fun: "foldl (\<lambda>s v. s + f v) a vs = a + (\<Sum>v \<leftarrow> vs. f v)" for f :: "real \<Rightarrow> real"
  by (induction vs arbitrary: a) simp_all

lemma sum_list_squares_nonneg: "0 \<le> (\<Sum>x \<leftarrow> xs. f x * f x)" for f :: "'a \<Rightarrow> real"
  by (induction xs) simp_all

lemma sum_list_squares_zero: "(\<Sum>x \<leftarrow> xs. f x * f x) = 0 \<Longrightarrow> x \<in> set xs \<Longrightarrow> f x = 0" for f :: "'a \<Rightarrow> real"
  using sum_list_squares_nonneg [of f]
  by (induction xs) (auto simp: add_nonneg_eq_0_iff)

lemma sum_centred: "xs \<noteq> [] \<Longrightarrow> (\<Sum>x \<leftarrow> xs. f x - sum_list (map f xs) / real (length xs)) = 0" for f :: "'a \<Rightarrow> real"
  by (simp add: sum_list_subtractf sum_list_triv)

subsection \<open>The line of least squares\<close>

text \<open>The sum of the squared distances from a line, by the centred sums.\<close>

lemma squared_distances:
  fixes xy :: "(real \<times> real) list"
  assumes "(\<Sum>(u, v) \<leftarrow> xy. u - mx) = 0" and "(\<Sum>(u, v) \<leftarrow> xy. v - my) = 0"
  shows "(\<Sum>(u, v) \<leftarrow> xy. (v - (c + b * u)) * (v - (c + b * u))) =
    (\<Sum>(u, v) \<leftarrow> xy. (v - my) * (v - my)) - 2 * b * (\<Sum>(u, v) \<leftarrow> xy. (u - mx) * (v - my)) +
    b * b * (\<Sum>(u, v) \<leftarrow> xy. (u - mx) * (u - mx)) + real (length xy) * ((my - c - b * mx) * (my - c - b * mx))"
proof -
  let ?e = "my - c - b * mx"
  have "(\<Sum>(u, v) \<leftarrow> xy. (v - (c + b * u)) * (v - (c + b * u))) =
      (\<Sum>(u, v) \<leftarrow> xy. (v - my) * (v - my)) - 2 * b * (\<Sum>(u, v) \<leftarrow> xy. (u - mx) * (v - my)) +
      b * b * (\<Sum>(u, v) \<leftarrow> xy. (u - mx) * (u - mx)) + real (length xy) * (?e * ?e) +
      2 * ?e * ((\<Sum>(u, v) \<leftarrow> xy. v - my) - b * (\<Sum>(u, v) \<leftarrow> xy. u - mx))"
    by (induction xy) (auto simp: algebra_simps)
  then show ?thesis using assms by simp
qed

text \<open>The slope \<open>A / B\<close> through the means is best, and the centred sums satisfy the inequality of Cauchy and Schwarz.\<close>

lemma least_squares:
  fixes xy :: "(real \<times> real) list"
  assumes "(\<Sum>(u, v) \<leftarrow> xy. u - mx) = 0" and "(\<Sum>(u, v) \<leftarrow> xy. v - my) = 0"
  defines "A \<equiv> \<Sum>(u, v) \<leftarrow> xy. (u - mx) * (v - my)" and "B \<equiv> \<Sum>(u, v) \<leftarrow> xy. (u - mx) * (u - mx)"
    and "C \<equiv> \<Sum>(u, v) \<leftarrow> xy. (v - my) * (v - my)"
  assumes "0 < B"
  shows "(\<Sum>(u, v) \<leftarrow> xy. (v - (my - A / B * mx + A / B * u)) * (v - (my - A / B * mx + A / B * u))) \<le>
      (\<Sum>(u, v) \<leftarrow> xy. (v - (c + b * u)) * (v - (c + b * u)))"
    and "A * A \<le> B * C"
proof -
  note sq = squared_distances [OF assms(1,2), folded A_def B_def C_def]
  have best: "(\<Sum>(u, v) \<leftarrow> xy. (v - (my - A / B * mx + A / B * u)) * (v - (my - A / B * mx + A / B * u))) = C - A * A / B"
    unfolding sq using assms(6) by (simp add: field_simps)
  have "C - 2 * b * A + b * b * B - (C - A * A / B) = (b * B - A) * (b * B - A) / B"
    using assms(6) by (simp add: field_simps)
  moreover have "0 \<le> (b * B - A) * (b * B - A) / B" using assms(6) by simp
  moreover have "0 \<le> real (length xy) * ((my - c - b * mx) * (my - c - b * mx))" by simp
  ultimately show "(\<Sum>(u, v) \<leftarrow> xy. (v - (my - A / B * mx + A / B * u)) * (v - (my - A / B * mx + A / B * u))) \<le>
      (\<Sum>(u, v) \<leftarrow> xy. (v - (c + b * u)) * (v - (c + b * u)))" unfolding best sq by linarith
  have "0 \<le> C - A * A / B"
    unfolding best [symmetric] using sum_list_squares_nonneg [of "\<lambda>(u, v). v - (my - A / B * mx + A / B * u)" xy]
    by (simp add: case_prod_beta')
  then show "A * A \<le> B * C" using assms(6) by (simp add: field_simps)
qed

lemma correlation_bounded:
  fixes A B C :: real
  assumes "0 < B" "0 < C" "A * A \<le> B * C"
  shows "\<bar>A / sqrt (B * C)\<bar> \<le> 1"
proof -
  have "\<bar>A\<bar> \<le> sqrt (B * C)" using assms(3) by (intro real_le_rsqrt) (simp add: power2_eq_square)
  then show ?thesis using assms(1,2) by (simp add: abs_mult)
qed

text \<open>What the regression returns on the points, of which two have different first coordinates.\<close>

lemma linearRegression_best:
  assumes "2 \<le> length x" and "length y = length x" and "x ! 0 \<noteq> x ! 1"
  shows "\<exists>slope corr c. linearRegression x y = Ok (slope, corr) \<and> \<bar>corr\<bar> \<le> 1 \<and>
    (\<forall>c' b. (\<Sum>(u, v) \<leftarrow> zip x y. (v - (c + slope * u)) * (v - (c + slope * u))) \<le>
      (\<Sum>(u, v) \<leftarrow> zip x y. (v - (c' + b * u)) * (v - (c' + b * u))))"
proof -
  let ?xy = "zip x y" and ?n = "real (length x)"
  define mx where "mx = sum_list (map fst ?xy) / ?n"
  define my where "my = sum_list (map snd ?xy) / ?n"
  define A where "A = (\<Sum>(u, v) \<leftarrow> ?xy. (u - mx) * (v - my))"
  define B where "B = (\<Sum>(u, v) \<leftarrow> ?xy. (u - mx) * (u - mx))"
  define C where "C = (\<Sum>(u, v) \<leftarrow> ?xy. (v - my) * (v - my))"
  have mean: "sum_list x / ?n = mx" "sum_list y / ?n = my" using assms(2) by (simp_all add: mx_def my_def)
  have ne: "?xy \<noteq> []" using assms(1,2) by (cases x; cases y) auto
  have z: "(\<Sum>(u, v) \<leftarrow> ?xy. u - mx) = 0" "(\<Sum>(u, v) \<leftarrow> ?xy. v - my) = 0"
    using sum_centred [OF ne, of fst] sum_centred [OF ne, of snd] assms(2) by (simp_all add: mx_def my_def case_prod_beta')
  have "0 \<le> B" "0 \<le> C"
    using sum_list_squares_nonneg [of "\<lambda>(u, v). u - mx" ?xy] sum_list_squares_nonneg [of "\<lambda>(u, v). v - my" ?xy]
    by (simp_all add: B_def C_def case_prod_beta')
  moreover have "B \<noteq> 0"
  proof
    assume "B = 0"
    then have "fst p - mx = 0" if "p \<in> set ?xy" for p
      using that sum_list_squares_zero [of "\<lambda>p. fst p - mx" ?xy p] by (simp add: B_def case_prod_beta')
    then have "fst (?xy ! i) = mx" if "i < length ?xy" for i using nth_mem [OF that] by simp
    moreover have len: "0 < length ?xy" "1 < length ?xy" using assms(1,2) by auto
    ultimately have "fst (?xy ! 0) = fst (?xy ! 1)" by simp
    then show False using assms(3) len by simp
  qed
  ultimately have B: "0 < B" and C: "0 \<le> C" by simp_all
  have ls: "(\<Sum>(u, v) \<leftarrow> ?xy. (v - (my - A / B * mx + A / B * u)) * (v - (my - A / B * mx + A / B * u))) \<le>
      (\<Sum>(u, v) \<leftarrow> ?xy. (v - (c' + b * u)) * (v - (c' + b * u)))" "A * A \<le> B * C" for c' b
    using least_squares [OF z] B unfolding A_def B_def C_def by blast+
  have "linearRegression x y = Ok (A / B, if C = 0 then 1 else A / sqrt (B * C))"
    using assms(1,2) B
    by (simp add: linearRegression_def foldl_sums2 foldl_sums3 Let_def mean A_def [symmetric] B_def [symmetric] C_def [symmetric])
  moreover have "\<bar>if C = 0 then 1 else A / sqrt (B * C)\<bar> \<le> 1" using correlation_bounded [OF B _ ls(2)] C by auto
  ultimately show ?thesis using ls(1) by blast
qed

lemma series_length: "length (series name (filterMetricData data name)) = length (filterMetricData data name)"
proof (induction data)
  case (Cons d data)
  then show ?case
    by (cases "find (\<lambda>m. mt_Name m = name) (vm_Metrics d)") (auto simp: filterMetricData_def find_None_iff)
qed (simp add: filterMetricData_def)

lemma filterMetricData_le: "length (filterMetricData data name) \<le> length data"
  by (simp add: filterMetricData_def)


text \<open>An analyzer with the given records.\<close>

definition analyzer_with :: "(string, VMetricsData list) gomap \<Rightarrow> nat Analyzer" where
  "analyzer_with cache = \<lparr>an_dataCache = cache, an_aggregators = [(''avg'', AvgAggregator)], an_alertRules = [],
     an_topk = \<lparr>tk_processors = [], tk_initialized = True\<rparr>\<rparr>"

definition ex_trend :: "nat Analyzer" where
  "ex_trend = analyzer_with [(''h'', [point ''h'' 1 [(''load'', 3)], point ''h'' 2 [(''load'', 5)]])]"


subsection \<open>Anomalies\<close>

text \<open>One value is at most \<open>sqrt (n - 1)\<close> standard deviations away from the mean.\<close>

lemma sum_square_le: "(\<Sum>x \<leftarrow> xs. f x) * (\<Sum>x \<leftarrow> xs. f x) \<le> real (length xs) * (\<Sum>x \<leftarrow> xs. f x * f x)" for f :: "'a \<Rightarrow> real"
proof (induction xs)
  case (Cons x xs)
  let ?s = "\<Sum>x \<leftarrow> xs. f x" and ?q = "\<Sum>x \<leftarrow> xs. f x * f x" and ?n = "real (length xs)"
  have "2 * f x * ?s \<le> ?n * (f x * f x) + ?q"
  proof -
    have "(\<Sum>y \<leftarrow> xs. (f x - f y) * (f x - f y)) = ?n * (f x * f x) - 2 * f x * ?s + ?q"
      by (induction xs) (simp_all add: algebra_simps)
    then show ?thesis using sum_list_squares_nonneg [of "\<lambda>y. f x - f y" xs] by simp
  qed
  then show ?case using Cons by (simp add: algebra_simps)
qed simp

lemma deviation_bounded:
  assumes "vs \<noteq> []" and "m = sum_list vs / real (length vs)"
  shows "(last vs - m) * (last vs - m) * real (length vs) \<le> (real (length vs) - 1) * (\<Sum>v \<leftarrow> vs. (v - m) * (v - m))"
proof -
  obtain us w where vs: "vs = us @ [w]" using assms(1) by (cases vs rule: rev_cases) auto
  have "(\<Sum>v \<leftarrow> vs. v - m) = 0" using sum_centred [OF assms(1), of "\<lambda>v. v"] assms(2) by simp
  then have "w - m = - (\<Sum>v \<leftarrow> us. v - m)" by (simp add: vs)
  then have "(w - m) * (w - m) \<le> real (length us) * (\<Sum>v \<leftarrow> us. (v - m) * (v - m))"
    using sum_square_le [of "\<lambda>v. v - m" us] by simp
  then show ?thesis by (simp add: vs algebra_simps)
qed

lemma score_bounded:
  assumes "vs \<noteq> []" and "calculateMeanStdDev vs = (m, sd)" and "sd \<noteq> 0"
  shows "(\<bar>last vs - m\<bar> / sd)\<^sup>2 \<le> real (length vs) - 1"
proof -
  let ?n = "real (length vs)" and ?q = "\<Sum>v \<leftarrow> vs. (v - m) * (v - m)"
  have n: "0 < ?n" using assms(1) by simp
  have m: "m = sum_list vs / ?n" and sd: "sd = sqrt (?q / ?n)"
    using assms(1,2) by (auto simp: calculateMeanStdDev_def Let_def foldl_plus foldl_sum_fun)
  have "0 \<le> ?q" by (rule sum_list_squares_nonneg)
  then have sd2: "sd\<^sup>2 = ?q / ?n" and q: "0 < ?q" using sd assms(3) n by (auto simp: less_le)
  have "(last vs - m)\<^sup>2 * ?n \<le> (?n - 1) * ?q" using deviation_bounded [OF assms(1) m] by (simp add: power2_eq_square)
  then have "(last vs - m)\<^sup>2 / (?q / ?n) \<le> ?n - 1" using q n by (simp add: field_simps)
  then show ?thesis by (simp add: power_divide sd2)
qed


text \<open>Nine values and one far away from them.\<close>

definition ex_outlier :: "nat Analyzer" where
  "ex_outlier = analyzer_with [(''h'', map (\<lambda>i. point ''h'' (int i) [(''load'', if i = 10 then 1000 else 0)]) [1..<11])]"


subsection \<open>Aggregates\<close>

lemma filtered_values:
  "filterMetricData data name \<noteq> [] \<Longrightarrow> all_values (filterMetricData data name) \<noteq> []"
  by (fastforce simp: filterMetricData_def all_values_def filter_empty_conv)

lemma Analyzer_Aggregate_Ok:
  assumes "filterMetricData (GetDataInRange a h r) name \<noteq> []" and "map_of (an_aggregators a) ty = Some g"
    and "Aggregator_Aggregate srt g (filterMetricData (GetDataInRange a h r) name) = Ok v"
  shows "Analyzer_Aggregate srt now a h name ty r =
    Ok \<lparr>gr_Type = ty, gr_TimeRange = r, gr_HostID = h, gr_Metric = name, gr_Data = v, gr_Timestamp = now\<rparr>"
proof -
  have "GetDataInRange a h r \<noteq> []" using assms(1) by (auto simp: filterMetricData_def)
  then show ?thesis using assms by (simp add: Analyzer_Aggregate_def Let_def)
qed



text \<open>
  The query keeps the whole records that have the metric, so an aggregate mixes all their metrics: the average of
  10 for one metric with 90 for another one is 50.
\<close>

lemma Aggregate_mixes_metrics:
  "Analyzer_Aggregate srt 5 (analyzer_with [(''h'', [point ''h'' 1 [(''cpu_usage'', 10), (''memory_usage'', 90)]])])
     ''h'' ''cpu_usage'' ''avg'' \<lparr>tg_Start = 0, tg_End = 9\<rparr> =
   Ok \<lparr>gr_Type = ''avg'', gr_TimeRange = \<lparr>tg_Start = 0, tg_End = 9\<rparr>, gr_HostID = ''h'', gr_Metric = ''cpu_usage'',
     gr_Data = AggFloat 50, gr_Timestamp = 5\<rparr>"
  by (simp add: Analyzer_Aggregate_def analyzer_with_def GetDataInRange_def GetCacheData_def filterMetricData_def point_def
      Avg_Aggregate_def sum_and_count_def over_metrics_def)

text \<open>The duration of a rule has no effect on its alerts.\<close>

lemma rule_duration_unused:
  "CheckAlerts clock (a\<lparr>an_alertRules := map (\<lambda>(k, r). (k, r\<lparr>ar_Duration := d\<rparr>)) (an_alertRules a)\<rparr>) = CheckAlerts clock a"
proof -
  have m: "metric_alerts clock (r\<lparr>ar_Duration := d\<rparr>) h ms alerts = metric_alerts clock r h ms alerts" for r h ms alerts
    by (induction ms arbitrary: alerts) (simp_all add: make_alert_def)
  have h: "host_alerts clock (r\<lparr>ar_Duration := d\<rparr>) cache alerts = host_alerts clock r cache alerts" for r cache alerts
    by (induction cache arbitrary: alerts) (auto simp: m)
  have "rule_alerts clock cache (map (\<lambda>(k, r). (k, r\<lparr>ar_Duration := d\<rparr>)) rules) alerts = rule_alerts clock cache rules alerts"
    for cache rules alerts
    by (induction rules arbitrary: alerts) (auto simp: h)
  then show ?thesis by (simp add: CheckAlerts_def)
qed

subsection \<open>Statistics of a host\<close>

lemma over_metrics_concat: "over_metrics f x data = foldl f x (concat (map vm_Metrics data))"
  by (induction data arbitrary: x) (simp_all add: over_metrics_def)

definition stat_of :: "real list \<Rightarrow> metric_stat option" where
  "stat_of vs = (if vs = [] then None
     else Some \<lparr>st_count = int (length vs), st_min = Min (insert MaxFloat64 (set vs)), st_max = Max (insert (- MaxFloat64) (set vs)),
       st_sum = sum_list vs, st_avg = None\<rparr>)"

definition named :: "string \<Rightarrow> Metric list \<Rightarrow> real list" where
  "named name ms = map mt_Value (filter (\<lambda>m. mt_Name m = name) ms)"

lemma named_snoc: "named name (ms @ [m]) = named name ms @ (if mt_Name m = name then [mt_Value m] else [])"
  by (simp add: named_def)

lemma Min_Max_snoc:
  "Min (insert x (set (vs @ [v]))) = min (Min (insert x (set vs))) v"
  "Max (insert x (set (vs @ [v]))) = max (Max (insert x (set vs))) v" for x :: real
  using Min_insert [of "insert x (set vs)" v] Max_insert [of "insert x (set vs)" v]
  by (simp_all add: insert_commute min.commute max.commute del: Min_insert Max_insert)

lemma add_stat_spec:
  assumes "\<And>name. map_of stats name = stat_of (named name ms)"
  shows "map_of (add_stat stats m) name = stat_of (named name (ms @ [m]))"
proof (cases "mt_Name m = name")
  case True
  then show ?thesis
    using Min_Max_snoc [of MaxFloat64 "named name ms" "mt_Value m"] Min_Max_snoc [of "- MaxFloat64" "named name ms" "mt_Value m"]
    by (simp add: add_stat_def assms named_snoc stat_of_def Let_def del: Min_insert Max_insert)
next
  case False
  then show ?thesis by (auto simp: add_stat_def assms named_snoc Let_def)
qed

lemma stats_spec: "map_of (foldl add_stat [] ms) name = stat_of (named name ms)"
proof (induction ms arbitrary: name rule: rev_induct)
  case (snoc m ms)
  then show ?case using add_stat_spec by simp
qed (simp add: named_def stat_of_def)

text \<open>
  The statistics of a host: a metric has an entry exactly when a cached record has a value for it, with the number,
  the sum, the mean, the least and the greatest of its values.
\<close>

lemma GetStatistics_spec:
  assumes "map_of (an_dataCache a) h = Some data" and "data \<noteq> []" and "floats data"
  shows "\<exists>s. Analyzer_GetStatistics a h = Ok (Some s) \<and> hs_total_data_points s = length data \<and>
    (\<forall>name. map_of (hs_metrics s) name =
      (let vs = named name (concat (map vm_Metrics data))
       in if vs = [] then None
          else Some \<lparr>st_count = int (length vs), st_min = Min (set vs), st_max = Max (set vs), st_sum = sum_list vs,
            st_avg = Some (sum_list vs / real (length vs))\<rparr>))"
proof -
  let ?ms = "concat (map vm_Metrics data)"
  have range: "- MaxFloat64 < v \<and> v < MaxFloat64" if "v \<in> set (named name ?ms)" for v name
    using that assms(3) by (auto simp: named_def floats_def all_values_def list_all_iff)
  have "Min (insert MaxFloat64 (set vs)) = Min (set vs) \<and> Max (insert (- MaxFloat64) (set vs)) = Max (set vs)"
    if vs: "vs = named name ?ms" "vs \<noteq> []" for vs name
  proof -
    have "Min (set vs) \<in> set vs" "Max (set vs) \<in> set vs" using vs(2) by simp_all
    then have "Min (set vs) < MaxFloat64" "- MaxFloat64 < Max (set vs)" using range vs(1) by blast+
    then show ?thesis using vs(2) by (simp only: Min_insert Max_insert finite_set set_empty not_False_eq_True min_absorb2 max_absorb2 less_imp_le)
  qed
  then have "map_option average_stat (stat_of (named name ?ms)) =
      (let vs = named name ?ms
       in if vs = [] then None
          else Some \<lparr>st_count = int (length vs), st_min = Min (set vs), st_max = Max (set vs), st_sum = sum_list vs,
            st_avg = Some (sum_list vs / real (length vs))\<rparr>)" for name
    by (simp add: stat_of_def average_stat_def Let_def)
  then show ?thesis
    using assms(1,2) by (simp add: Analyzer_GetStatistics_def over_metrics_concat map_of_map stats_spec)
qed

end
