(* ===== verification/Spec2Isabelle.thy ===== *)
theory Spec2Isabelle
  imports Consistent_Hash Raft_Log Cluster_Node Raft_FSM Time_Wheel Prefix_Tree Patricia_Tree Radix_Tree
    Health_Monitor Host_Scaling Quic_Server Metrics_Store Message_Queue Algorithm_Manager
    Analyzer_Trends
begin

text \<open>
  A verification development of the distributed monitoring system: agents collect metrics of
  hosts, brokers replicate and store them, and a visualisation service analyses and shows
  them. The development covers the stateful core of the brokers and the shared algorithm
  libraries, and the transport between them.

  \<^bold>\<open>Parts and theories.\<close>

  \<^item> \<open>Go_Prelude\<close>, \<open>Json_Data\<close>, \<open>Utf8\<close>, \<open>Big_Endian\<close>: the part of Go and its library that the code uses: outcomes
    (result, error, panic, waiting for ever), maps as association lists whose order
    stands for the order of \<^verbatim>\<open>range\<close>, decimal printing, binary search, buffered channels, read-write locks,
    64-bit arithmetic, decoded JSON, strings as bytes and runes, numbers as bytes.
  \<^item> \<open>Consistent_Hash\<close> (\<^verbatim>\<open>pkg/hash/consistent_hash.go\<close>): the ring of virtual nodes that
    assigns keys to brokers. The ring invariant, \<^verbatim>\<open>Get\<close> as clockwise successor, minimal movement of keys when
    a node is added or removed, and termination of \<^verbatim>\<open>GetN\<close>.
  \<^item> \<open>Raft_Log\<close> (\<^verbatim>\<open>broker/internal/models/log.go\<close>): the replicated log and its file. Log matching,
    atomicity of saving, restart, slices, and the effect of a snapshot on lookups.
  \<^item> \<open>Cluster_Node\<close> (\<^verbatim>\<open>broker/internal/models/node.go\<close>): members and quorums; quorums intersect, also
    across the change of one member.
  \<^item> \<open>Raft_FSM\<close> (\<^verbatim>\<open>broker/internal/raft/fsm.go\<close>): the state machine that the log drives. Agreement of replicas,
    the commands that panic, snapshot and restore.
  \<^item> \<open>Time_Wheel\<close> (\<^verbatim>\<open>pkg/algorithm/time_wheel.go\<close>): hierarchical timers as a step relation over callers,
    receipts and ticks. Invariant, firing on time, removal.
  \<^item> \<open>String_Index\<close>, \<open>Prefix_Tree\<close>, \<open>Patricia_Tree\<close> (\<^verbatim>\<open>pkg/algorithm/prefix_tree.go\<close>), \<open>Radix_Tree\<close>
    (\<^verbatim>\<open>visualization/internal/radix/radix_tree.go\<close>): three string indexes under one contract (locale
    \<open>string_index\<close>), with the keys on which each of them is a map.
  \<^item> \<open>Host_Registry\<close> (\<^verbatim>\<open>broker/internal/host/registry.go\<close>): the registry of hosts. It refines one automaton per
    host, keeps hosts that report in time, and provides the store (locale \<open>host_store\<close>) that
    discovery and scaling use.
  \<^item> \<open>Event_Bus\<close>: the contract of dispatching to subscribers (locale \<open>event_bus\<close>), interpreted by the
    health monitor and by the host manager.
  \<^item> \<open>Health_Monitor\<close> (\<^verbatim>\<open>broker/internal/host/health.go\<close>): checks of hosts; a round gives every
    host its verdict in any order of its goroutines.
  \<^item> \<open>Cidr_Scan\<close>, \<open>Host_Discovery\<close> (\<^verbatim>\<open>broker/internal/host/discovery.go\<close>): scans of networks and the handlers
    that change the registry. A scan registers exactly the hosts that answer, and ends exactly for non-empty prefixes.
  \<^item> \<open>Host_Manager\<close>, \<open>Host_Scaling\<close> (\<^verbatim>\<open>broker/internal/host/manager.go\<close>): the manager that owns registry,
    discovery and health monitor. An invariant of the whole host management, the cool-down of
    scaling, the effect of scaling down, type safety of updates, agreement of the statistics.
  \<^item> \<open>Quic_Protocol\<close> (\<^verbatim>\<open>pkg/quic/protocol.go\<close>): the frames of the QUIC transport. Reading accepts exactly what writing
    produces, within the limits of the fields.
  \<^item> \<open>Quic_Server\<close> (\<^verbatim>\<open>pkg/quic/server.go\<close>, \<^verbatim>\<open>pkg/quic/handler.go\<close>): the server on top of the frames and its
    data handler. A stream handler handles every complete message in order and ends; the counters account for each message.
  \<^item> \<open>Sliding_Window\<close> (\<^verbatim>\<open>pkg/algorithm/sliding_window.go\<close>): windows over the latest values. A window of fixed size refines
    the history of its values; percentiles are ordered; where adaptation and reset go wrong.
  \<^item> \<open>Bloom_Filter\<close> (\<^verbatim>\<open>pkg/algorithm/bloom_filter.go\<close>): the filter of repeated alerts, exact for a host, a metric and an hour.
  \<^item> \<open>Algorithm_Manager\<close> (\<^verbatim>\<open>pkg/algorithm/algorithm_manager.go\<close>): the owner of windows, filter, wheel and prefix tree;
    when its cleanup panics, and why its export cannot be imported.
  \<^item> \<open>Redis_Storage\<close>, \<open>Metrics_Store\<close> (\<^verbatim>\<open>broker/internal/storage/redis_storage.go\<close>): the storage of the broker
    over a Redis client, and the metrics kept in it. Metrics come back as they were saved; range queries and aggregates.
  \<^item> \<open>Message_Queue\<close> (\<^verbatim>\<open>broker/internal/queue/message_queue.go\<close>): the queue over the storage. Its counters account for
    every message; what is published cannot be consumed.
  \<^item> \<open>Aggregators\<close>, \<open>Topk_Analyzer\<close>, \<open>Analyzer\<close>, \<open>Analyzer_Trends\<close> (\<^verbatim>\<open>visualization/internal/analysis/\<close>): the analysis of the
    visualisation. The cache refines the history of records, the default alerts are exact, the trend is the line
    of least squares, aggregates are ordered, and ten records never give an anomaly.

  \<^bold>\<open>How the components interact.\<close> The registry is shared: discovery registers into it, the health monitor reads
  records and writes verdicts, the manager adds, updates, removes and scales. All of them
  change it under its lock, so the system is any interleaving of their operations
  (\<open>mgr_run\<close> over \<open>mgr_op\<close>). The replicated log feeds the state machine; the ring is independent.
  The stored metrics and the message queue are built on the operations of the storage; the algorithm manager
  on those of the windows, the wheel and the tree.

  \<^bold>\<open>Conventions.\<close> A Go struct is a record with the fields of the source, an operation a definition named
  \<open>Type_Method\<close> or after the method where that is unique. Clock readings, the network, files, stores, the
  text of JSON, the Redis client, the Bloom filter package and the native library of the top-k analyzer are
  arguments; what the code relies on about them is a hypothesis of the theorem concerned. A \<^verbatim>\<open>float64\<close> is a real number: rounding is not modelled. Loops that may not
  end are partial functions with value \<open>None\<close> (\<open>getN_loop\<close>, \<open>cidr_walk\<close>); no fuel is used. Integers are
  kept at their width where the code depends on it (hashes, log indices, address bytes, products of durations).

  \<^bold>\<open>Not modelled.\<close> The C and C++ libraries and their cgo wrappers, which need a model of memory; the collectors of the
  agent, which read the operating system; configuration files and command line programs; log output.
  The endpoints of gRPC, Kafka, WebSocket and HTTP, the QUIC client and the QUIC servers of the
  visualisation, which are mostly calls of third-party packages; of the QUIC server, certificates, the listener
  and waiting for goroutines; of the Redis storage, what only returns or releases objects of the client. Not covered are
  the raft server, which wires the hashicorp package to the state machine, the cluster manager and the registration of
  the agent, which are HTTP handlers and periodic requests, and the authentication, whose checks are those of a
  token package.
\<close>

end
